(* ===== verification/Prelude.thy ===== *)
theory Prelude
  imports Complex_Main "HOL-Library.Monad_Syntax" "HOL-Library.Signed_Division"
begin

text \<open>
  The shared base of the development.

  It fixes how Rust code is read in HOL: a call that may panic returns \<^typ>\<open>'a option\<close>,
  with \<^term>\<open>None\<close> for the panic, and is sequenced with the do-notation; a \<open>Result\<close> is a sum
  whose left injection carries the error; unsigned integers are \<^typ>\<open>nat\<close> and signed ones
  \<^typ>\<open>int\<close>, with the width, the checks and the wrap-around of the source written out in the
  operations below.  The arithmetic is that of the release profile of the workspace
  (\<open>overflow-checks = false\<close>, \<open>debug-assertions = false\<close>): plain operators wrap and
  \<open>debug_assert!\<close> does nothing.
\<close>

named_theorems rust_arith \<open>definitions of the machine-integer operations\<close>
named_theorems book_defs \<open>definitions unfolded when an order book operation is evaluated\<close>
named_theorems order_defs \<open>definitions unfolded when an order operation is evaluated\<close>
named_theorems value_defs \<open>definitions unfolded when a value type operation is evaluated\<close>
named_theorems inv_intros \<open>introduction rules for invariants\<close>

section \<open>Machine integers\<close>

definition U8_MAX :: nat where "U8_MAX = 255"
definition U32_MAX :: nat where "U32_MAX = 4294967295"
definition U64_MAX :: nat where "U64_MAX = 18446744073709551615"
definition I64_MIN :: int where "I64_MIN = - 9223372036854775808"
definition I64_MAX :: int where "I64_MAX = 9223372036854775807"
definition I128_MIN :: int where "I128_MIN = - 170141183460469231731687303715884105728"
definition I128_MAX :: int where "I128_MAX = 170141183460469231731687303715884105727"

definition in_i64 :: "int \<Rightarrow> bool" where
  "in_i64 x \<longleftrightarrow> I64_MIN \<le> x \<and> x \<le> I64_MAX"

definition in_i128 :: "int \<Rightarrow> bool" where
  "in_i128 x \<longleftrightarrow> I128_MIN \<le> x \<and> x \<le> I128_MAX"

definition u64_checked_add :: "nat \<Rightarrow> nat \<Rightarrow> nat option" where
  "u64_checked_add a b = (if a + b \<le> U64_MAX then Some (a + b) else None)"

definition u64_checked_sub :: "nat \<Rightarrow> nat \<Rightarrow> nat option" where
  "u64_checked_sub a b = (if b \<le> a then Some (a - b) else None)"

definition u64_checked_mul :: "nat \<Rightarrow> nat \<Rightarrow> nat option" where
  "u64_checked_mul a b = (if a * b \<le> U64_MAX then Some (a * b) else None)"

definition u64_saturating_add :: "nat \<Rightarrow> nat \<Rightarrow> nat" where
  "u64_saturating_add a b = min U64_MAX (a + b)"

definition u64_wrapping_add :: "nat \<Rightarrow> nat \<Rightarrow> nat" where
  "u64_wrapping_add a b = (a + b) mod (U64_MAX + 1)"

definition u64_wrapping_sub :: "nat \<Rightarrow> nat \<Rightarrow> nat" where
  "u64_wrapping_sub a b = (a + (U64_MAX + 1) - b mod (U64_MAX + 1)) mod (U64_MAX + 1)"

definition i64_checked_add :: "int \<Rightarrow> int \<Rightarrow> int option" where
  "i64_checked_add a b = (if in_i64 (a + b) then Some (a + b) else None)"

definition i64_checked_sub :: "int \<Rightarrow> int \<Rightarrow> int option" where
  "i64_checked_sub a b = (if in_i64 (a - b) then Some (a - b) else None)"

definition i64_wrap :: "int \<Rightarrow> int" where
  "i64_wrap x = (x + 9223372036854775808) mod 18446744073709551616 - 9223372036854775808"

definition i8_wrap :: "int \<Rightarrow> int" where
  "i8_wrap x = (x + 128) mod 256 - 128"

definition u128_wrap :: "nat \<Rightarrow> nat" where
  "u128_wrap x = x mod 340282366920938463463374607431768211456"

definition i128_wrap :: "int \<Rightarrow> int" where
  "i128_wrap x = (x + 170141183460469231731687303715884105728) mod 340282366920938463463374607431768211456
     - 170141183460469231731687303715884105728"

definition i128_checked_mul :: "int \<Rightarrow> int \<Rightarrow> int option" where
  "i128_checked_mul a b = (if in_i128 (a * b) then Some (a * b) else None)"

lemmas rust_int_defs [rust_arith] =
  u64_checked_add_def u64_checked_sub_def u64_checked_mul_def u64_saturating_add_def
  u64_wrapping_add_def u64_wrapping_sub_def i64_checked_add_def i64_checked_sub_def
  i64_wrap_def i8_wrap_def u128_wrap_def i128_wrap_def i128_checked_mul_def in_i64_def in_i128_def

lemmas rust_bounds [rust_arith] =
  U8_MAX_def U32_MAX_def U64_MAX_def I64_MIN_def I64_MAX_def I128_MIN_def I128_MAX_def

lemma u64_saturating_add_le [simp]: "u64_saturating_add a b \<le> U64_MAX"
  by (simp add: u64_saturating_add_def)

lemma u64_wrapping_add_le [simp]: "u64_wrapping_add a b \<le> U64_MAX"
proof -
  have "u64_wrapping_add a b < U64_MAX + 1"
    by (simp add: u64_wrapping_add_def)
  then show ?thesis by simp
qed

lemma u64_wrapping_add_exact: "a + b \<le> U64_MAX \<Longrightarrow> u64_wrapping_add a b = a + b"
  by (simp add: u64_wrapping_add_def)

lemma u64_wrapping_sub_exact:
  assumes "b \<le> a" and "a \<le> U64_MAX"
  shows "u64_wrapping_sub a b = a - b"
proof -
  have "b mod (U64_MAX + 1) = b" using assms by simp
  moreover have "a + (U64_MAX + 1) - b = (a - b) + (U64_MAX + 1)" using assms by simp
  ultimately have "u64_wrapping_sub a b = ((a - b) + (U64_MAX + 1)) mod (U64_MAX + 1)"
    by (simp only: u64_wrapping_sub_def)
  also have "\<dots> = (a - b) mod (U64_MAX + 1)" by (rule mod_add_self2)
  finally show ?thesis using assms by simp
qed

lemma i64_wrap_exact: "in_i64 x \<Longrightarrow> i64_wrap x = x"
  by (simp add: in_i64_def i64_wrap_def I64_MIN_def I64_MAX_def)

lemma in_i64_wrap [simp]: "in_i64 (i64_wrap x)"
proof -
  have "0 \<le> (x + 9223372036854775808) mod 18446744073709551616"
    and "(x + 9223372036854775808) mod 18446744073709551616 < 18446744073709551616"
    by simp_all
  then show ?thesis by (simp add: in_i64_def i64_wrap_def I64_MIN_def I64_MAX_def)
qed

section \<open>Orderings\<close>

text \<open>The result of Rust's \<open>Ord::cmp\<close>.\<close>

datatype ordering = Less | Equal | Greater

definition cmp_int :: "int \<Rightarrow> int \<Rightarrow> ordering" where
  "cmp_int a b = (if a < b then Less else if a = b then Equal else Greater)"

lemma cmp_int_simps [simp]:
  "cmp_int a b = Less \<longleftrightarrow> a < b"
  "cmp_int a b = Equal \<longleftrightarrow> a = b"
  "cmp_int a b = Greater \<longleftrightarrow> b < a"
  by (auto simp: cmp_int_def)

section \<open>Panics and results\<close>

text \<open>\<open>assert!\<close> and \<open>expect\<close>: continue or panic.\<close>

definition assert_that :: "bool \<Rightarrow> unit option" where
  "assert_that b = (if b then Some () else None)"

lemma assert_that_simps [simp]:
  "assert_that True = Some ()"
  "assert_that False = None"
  "assert_that b = Some u \<longleftrightarrow> b"
  "assert_that b = None \<longleftrightarrow> \<not> b"
  by (simp_all add: assert_that_def)

text \<open>
  The errors of \<open>core/src/correctness.rs\<close>, each with the parameter or the message it names; the
  values formatted into the display text are not kept.  \<open>expect_display\<close> turns an error into a
  panic.
\<close>

datatype correctness_error =
    PredicateViolation string
  | EmptyString string
  | WhitespaceString string
  | NonAsciiString string
  | MissingSubstring string
  | EqualityMismatch string string
  | NotPositive string
  | NegativeValue string
  | InvalidValue string
  | OutOfRange string
  | CollectionNotEmpty string
  | CollectionEmpty string
  | KeyPresent string string
  | KeyMissing string string
  | MemberPresent string string
  | MemberMissing string string

type_synonym 'a checked = "correctness_error + 'a"

definition check_predicate_true :: "bool \<Rightarrow> string \<Rightarrow> unit checked" where
  "check_predicate_true predicate fail_msg =
     (if \<not> predicate then Inl (PredicateViolation fail_msg) else Inr ())"

fun expect_display :: "('e + 'a) \<Rightarrow> 'a option" where
  "expect_display (Inr x) = Some x"
| "expect_display (Inl e) = None"

text \<open>The \<open>?\<close> operator: go on with the value or return the error.\<close>

fun and_then :: "('e + 'a) \<Rightarrow> ('a \<Rightarrow> 'e + 'b) \<Rightarrow> 'e + 'b" where
  "and_then (Inr x) f = f x"
| "and_then (Inl e) f = Inl e"

lemma expect_display_Some [simp]: "expect_display r = Some x \<longleftrightarrow> r = Inr x"
  by (cases r) simp_all

lemma and_then_Inr [simp]: "and_then r f = Inr y \<longleftrightarrow> (\<exists>x. r = Inr x \<and> f x = Inr y)"
  by (cases r) simp_all

section \<open>Floating point\<close>

text \<open>
  The operations on \<open>f64\<close> the modelled code performs, as an interface: definitions that compute
  with floats take it as an argument, so what is proved of them holds for IEEE arithmetic and
  for exact arithmetic alike unless a statement fixes the instance.  \<open>exact_f64\<close> is the instance
  on the rationals.
\<close>

record 'f f64_ops =
  f64_of_int :: "int \<Rightarrow> 'f"
  f64_add :: "'f \<Rightarrow> 'f \<Rightarrow> 'f"
  f64_sub :: "'f \<Rightarrow> 'f \<Rightarrow> 'f"
  f64_mul :: "'f \<Rightarrow> 'f \<Rightarrow> 'f"
  f64_div :: "'f \<Rightarrow> 'f \<Rightarrow> 'f"
  f64_mul_add :: "'f \<Rightarrow> 'f \<Rightarrow> 'f \<Rightarrow> 'f"
  f64_lt :: "'f \<Rightarrow> 'f \<Rightarrow> bool"
  f64_eq :: "'f \<Rightarrow> 'f \<Rightarrow> bool"
  f64_min :: "'f \<Rightarrow> 'f \<Rightarrow> 'f"
  f64_floor :: "'f \<Rightarrow> 'f"
  f64_as_u64 :: "'f \<Rightarrow> nat"
  f64_as_i64 :: "'f \<Rightarrow> int"
  f64_neg :: "'f \<Rightarrow> 'f"
  f64_abs :: "'f \<Rightarrow> 'f"
  f64_round :: "'f \<Rightarrow> 'f"
  f64_is_finite :: "'f \<Rightarrow> bool"

text \<open>\<open>f64::round\<close> rounds half-way cases away from zero; \<open>as i64\<close> truncates and saturates.\<close>

definition rat_round :: "rat \<Rightarrow> int" where
  "rat_round x = (if 0 \<le> x then \<lfloor>x + 1 / 2\<rfloor> else - \<lfloor>1 / 2 - x\<rfloor>)"

definition rat_as_i64 :: "rat \<Rightarrow> int" where
  "rat_as_i64 x = max I64_MIN (min I64_MAX (if 0 \<le> x then \<lfloor>x\<rfloor> else \<lceil>x\<rceil>))"

definition exact_f64 :: "rat f64_ops" where
  "exact_f64 = \<lparr> f64_of_int = of_int, f64_add = (+), f64_sub = (-), f64_mul = (*), f64_div = (/),
     f64_mul_add = (\<lambda>a b c. a * b + c), f64_lt = (<), f64_eq = (=),
     f64_min = min, f64_floor = (\<lambda>a. of_int \<lfloor>a\<rfloor>), f64_as_u64 = (\<lambda>a. min U64_MAX (nat \<lfloor>a\<rfloor>)),
     f64_as_i64 = rat_as_i64, f64_neg = uminus, f64_abs = abs, f64_round = (\<lambda>a. of_int (rat_round a)),
     f64_is_finite = (\<lambda>_. True) \<rparr>"

lemma exact_f64_simps [simp]:
  "f64_of_int exact_f64 = of_int" "f64_add exact_f64 = (+)" "f64_sub exact_f64 = (-)"
  "f64_mul exact_f64 = (*)" "f64_div exact_f64 = (/)"
  "f64_mul_add exact_f64 = (\<lambda>a b c. a * b + c)" "f64_lt exact_f64 = (<)"
  "f64_eq exact_f64 = (=)" "f64_min exact_f64 = min" "f64_floor exact_f64 = (\<lambda>a. of_int \<lfloor>a\<rfloor>)"
  "f64_as_u64 exact_f64 = (\<lambda>a. min U64_MAX (nat \<lfloor>a\<rfloor>))"
  "f64_as_i64 exact_f64 = rat_as_i64" "f64_neg exact_f64 = uminus" "f64_abs exact_f64 = abs"
  "f64_round exact_f64 = (\<lambda>a. of_int (rat_round a))" "f64_is_finite exact_f64 = (\<lambda>_. True)"
  by (simp_all add: exact_f64_def)

text \<open>
  \<open>Iterator::sum\<close> over floats starts from the neutral element of addition, so that the sum of a
  non-empty sequence is the left-to-right sum of its elements.
\<close>

fun f64_sum :: "'f f64_ops \<Rightarrow> 'f list \<Rightarrow> 'f" where
  "f64_sum F [] = f64_of_int F 0"
| "f64_sum F (x # xs) = foldl (f64_add F) x xs"

lemma foldl_add_sum: "foldl (+) (x :: rat) xs = x + sum_list xs"
  by (induction xs arbitrary: x) (simp_all add: add.assoc)

lemma f64_sum_exact [simp]: "f64_sum exact_f64 xs = sum_list xs"
  by (cases xs) (simp_all add: foldl_add_sum)

section \<open>Lists\<close>

lemma sorted_wrt_map_key:
  "sorted_wrt (<) (map f (xs :: 'a list)) \<longleftrightarrow> sorted_wrt (\<lambda>x y. f x < (f y :: 'b :: order)) xs"
  by (simp add: sorted_wrt_map)

lemma sum_list_ge_elem_nat: "x \<in> set xs \<Longrightarrow> (x :: nat) \<le> sum_list xs"
  by (simp add: member_le_sum_list)

lemma foldl_append_map: "foldl (\<lambda>acc x. acc @ f x) acc xs = acc @ concat (map f xs)"
  by (induction xs arbitrary: acc) simp_all

lemma length_filter_neq:
  "distinct xs \<Longrightarrow> length (filter (\<lambda>y. y \<noteq> x) xs) = length xs - (if x \<in> set xs then 1 else 0)"
proof (induction xs)
  case Nil
  then show ?case by simp
next
  case (Cons a xs)
  then show ?case by (cases xs) auto
qed

lemma map_of_filter_neq:
  "map_of (filter (\<lambda>p. fst p \<noteq> k) m) = (map_of m)(k := None)"
  by (induction m) (auto simp: fun_eq_iff)

end
