(* ===== verification/Rust_Collections.thy ===== *)
theory Rust_Collections
  imports Prelude
begin

text \<open>
  The two ordered containers the modelled crates keep their state in.

  An \<open>IndexMap\<close> is the list of its entries in insertion order; a \<open>BTreeMap\<close> is the list of its
  entries in key order, searched by comparing the key with the stored ones, where a comparison
  may panic (the order of \<open>BookPrice\<close> asserts that both sides agree).  Each container comes with
  a locale that states what its clients rely on and the lemmas they share; the locale is
  interpreted here (index map) or where the key order is defined (tree map).
\<close>

section \<open>Insertion-ordered maps\<close>

type_synonym ('k, 'v) index_map = "('k \<times> 'v) list"

fun im_insert :: "'k \<Rightarrow> 'v \<Rightarrow> ('k, 'v) index_map \<Rightarrow> ('k, 'v) index_map" where
  "im_insert k v [] = [(k, v)]"
| "im_insert k v ((k', v') # m) = (if k = k' then (k', v) # m else (k', v') # im_insert k v m)"

fun im_shift_remove :: "'k \<Rightarrow> ('k, 'v) index_map \<Rightarrow> ('k, 'v) index_map" where
  "im_shift_remove k [] = []"
| "im_shift_remove k ((k', v') # m) = (if k = k' then m else (k', v') # im_shift_remove k m)"

abbreviation im_get :: "('k, 'v) index_map \<Rightarrow> 'k \<Rightarrow> 'v option" where
  "im_get \<equiv> map_of"

abbreviation im_keys :: "('k, 'v) index_map \<Rightarrow> 'k list" where
  "im_keys m \<equiv> map fst m"

abbreviation im_values :: "('k, 'v) index_map \<Rightarrow> 'v list" where
  "im_values m \<equiv> map snd m"

definition im_wf :: "('k, 'v) index_map \<Rightarrow> bool" where
  "im_wf m \<longleftrightarrow> distinct (im_keys m)"

locale insertion_map =
  fixes empty :: 'm
    and insert :: "'k \<Rightarrow> 'v \<Rightarrow> 'm \<Rightarrow> 'm"
    and remove :: "'k \<Rightarrow> 'm \<Rightarrow> 'm"
    and get :: "'m \<Rightarrow> 'k \<Rightarrow> 'v option"
    and keys :: "'m \<Rightarrow> 'k list"
    and wf :: "'m \<Rightarrow> bool"
  assumes wf_empty: "wf empty"
    and wf_insert: "wf m \<Longrightarrow> wf (insert k v m)"
    and wf_remove: "wf m \<Longrightarrow> wf (remove k m)"
    and keys_empty: "keys empty = []"
    and keys_insert: "wf m \<Longrightarrow> keys (insert k v m) = (if k \<in> set (keys m) then keys m else keys m @ [k])"
    and keys_remove: "wf m \<Longrightarrow> keys (remove k m) = filter (\<lambda>k'. k' \<noteq> k) (keys m)"
    and get_insert: "wf m \<Longrightarrow> get (insert k v m) = (get m)(k \<mapsto> v)"
    and get_remove: "wf m \<Longrightarrow> get (remove k m) = (get m)(k := None)"
    and get_keys: "wf m \<Longrightarrow> (get m k \<noteq> None) = (k \<in> set (keys m))"
    and keys_distinct: "wf m \<Longrightarrow> distinct (keys m)"
begin

text \<open>An entry keeps its place in the queue when its value is replaced.\<close>

lemma insert_existing_keeps_order: "wf m \<Longrightarrow> get m k \<noteq> None \<Longrightarrow> keys (insert k v m) = keys m"
  using get_keys [of m k] by (simp add: keys_insert)

lemma insert_new_goes_last: "wf m \<Longrightarrow> get m k = None \<Longrightarrow> keys (insert k v m) = keys m @ [k]"
  using get_keys [of m k] by (simp add: keys_insert)

lemma remove_absent_keys: "wf m \<Longrightarrow> get m k = None \<Longrightarrow> keys (remove k m) = keys m"
  using get_keys [of m k] by (auto simp: keys_remove intro!: filter_True)

lemma keys_remove_insert:
  "wf m \<Longrightarrow> get m k = None \<Longrightarrow> keys (remove k (insert k v m)) = keys m"
  using get_keys [of m k]
  by (auto simp: keys_remove wf_insert insert_new_goes_last intro!: filter_True)

lemma length_keys_insert:
  "wf m \<Longrightarrow> length (keys (insert k v m)) = length (keys m) + (if get m k = None then 1 else 0)"
  using get_keys [of m k] by (auto simp: keys_insert)

lemma length_keys_remove:
  "wf m \<Longrightarrow> length (keys (remove k m)) = length (keys m) - (if get m k = None then 0 else 1)"
  using get_keys [of m k] keys_distinct [of m] by (auto simp: keys_remove length_filter_neq)

end

lemma im_insert_keys:
  "im_keys (im_insert k v m) = (if k \<in> set (im_keys m) then im_keys m else im_keys m @ [k])"
  by (induction k v m rule: im_insert.induct) auto

lemma im_insert_get: "im_get (im_insert k v m) = (im_get m)(k \<mapsto> v)"
  by (induction k v m rule: im_insert.induct) (auto simp: fun_eq_iff)

lemma im_remove_eq_filter:
  "im_wf m \<Longrightarrow> im_shift_remove k m = filter (\<lambda>p. fst p \<noteq> k) m"
  unfolding im_wf_def
proof (induction k m rule: im_shift_remove.induct)
  case (1 k)
  then show ?case by simp
next
  case (2 k k' v' m)
  then have "filter (\<lambda>p. fst p \<noteq> k') m = m"
    by (intro filter_True) (auto simp: image_iff)
  with 2 show ?case by auto
qed

interpretation im: insertion_map "[] :: ('k \<times> 'v) list" im_insert im_shift_remove im_get im_keys im_wf
proof unfold_locales
  fix m :: "('k \<times> 'v) list" and k v
  show "im_wf ([] :: ('k \<times> 'v) list)" and "im_keys ([] :: ('k \<times> 'v) list) = []"
    by (simp_all add: im_wf_def)
  assume wf: "im_wf m"
  show "im_wf (im_insert k v m)"
    using wf by (simp add: im_wf_def im_insert_keys)
  show "im_wf (im_shift_remove k m)"
    using wf by (simp add: im_remove_eq_filter) (simp add: im_wf_def distinct_map_filter)
  show "im_keys (im_insert k v m) = (if k \<in> set (im_keys m) then im_keys m else im_keys m @ [k])"
    by (rule im_insert_keys)
  show "im_keys (im_shift_remove k m) = filter (\<lambda>k'. k' \<noteq> k) (im_keys m)"
    using wf by (simp add: im_remove_eq_filter filter_map o_def)
  show "im_get (im_insert k v m) = (im_get m)(k \<mapsto> v)"
    by (rule im_insert_get)
  show "im_get (im_shift_remove k m) = (im_get m)(k := None)"
    using wf by (simp add: im_remove_eq_filter map_of_filter_neq)
  show "(im_get m k \<noteq> None) = (k \<in> set (im_keys m))"
    by (simp add: map_of_eq_None_iff)
  show "distinct (im_keys m)" using wf by (simp add: im_wf_def)
qed

lemma im_wf_simps [simp]: "im_wf []" "im_wf m \<Longrightarrow> im_wf (im_insert k v m)"
  "im_wf m \<Longrightarrow> im_wf (im_shift_remove k m)"
  by (simp_all add: im.wf_empty im.wf_insert im.wf_remove)

lemma set_im_insert:
  "im_wf m \<Longrightarrow> set (im_insert k v m) = insert (k, v) {p \<in> set m. fst p \<noteq> k}"
  unfolding im_wf_def
  by (induction k v m rule: im_insert.induct) (auto simp: image_iff)

lemma set_im_remove: "im_wf m \<Longrightarrow> set (im_shift_remove k m) = {p \<in> set m. fst p \<noteq> k}"
  by (auto simp: im_remove_eq_filter)

lemma im_insert_not_Nil [simp]: "im_insert k v m \<noteq> []"
  by (induction k v m rule: im_insert.induct) auto

section \<open>Ordered tree maps\<close>

text \<open>
  \<open>cmp k k'\<close> is \<open>Some\<close> of the ordering of the searched key \<open>k\<close> and a stored key \<open>k'\<close>, or
  \<open>None\<close> where the comparison panics.
\<close>

type_synonym ('k, 'v) btree_map = "('k \<times> 'v) list"
type_synonym 'k comparator = "'k \<Rightarrow> 'k \<Rightarrow> ordering option"

fun bt_get :: "'k comparator \<Rightarrow> 'k \<Rightarrow> ('k, 'v) btree_map \<Rightarrow> 'v option option" where
  "bt_get cmp k [] = Some None"
| "bt_get cmp k ((k', v) # m) =
     (case cmp k k' of
        None \<Rightarrow> None
      | Some Less \<Rightarrow> Some None
      | Some Equal \<Rightarrow> Some (Some v)
      | Some Greater \<Rightarrow> bt_get cmp k m)"

fun bt_insert :: "'k comparator \<Rightarrow> 'k \<Rightarrow> 'v \<Rightarrow> ('k, 'v) btree_map \<Rightarrow> ('k, 'v) btree_map option" where
  "bt_insert cmp k v [] = Some [(k, v)]"
| "bt_insert cmp k v ((k', v') # m) =
     (case cmp k k' of
        None \<Rightarrow> None
      | Some Less \<Rightarrow> Some ((k, v) # (k', v') # m)
      | Some Equal \<Rightarrow> Some ((k', v) # m)
      | Some Greater \<Rightarrow> map_option (Cons (k', v')) (bt_insert cmp k v m))"

fun bt_remove :: "'k comparator \<Rightarrow> 'k \<Rightarrow> ('k, 'v) btree_map \<Rightarrow> ('k, 'v) btree_map option" where
  "bt_remove cmp k [] = Some []"
| "bt_remove cmp k ((k', v') # m) =
     (case cmp k k' of
        None \<Rightarrow> None
      | Some Less \<Rightarrow> Some ((k', v') # m)
      | Some Equal \<Rightarrow> Some m
      | Some Greater \<Rightarrow> map_option (Cons (k', v')) (bt_remove cmp k m))"

abbreviation bt_first :: "('k, 'v) btree_map \<Rightarrow> 'v option" where
  "bt_first m \<equiv> (case m of [] \<Rightarrow> None | p # _ \<Rightarrow> Some (snd p))"

abbreviation bt_values :: "('k, 'v) btree_map \<Rightarrow> 'v list" where
  "bt_values m \<equiv> map snd m"

abbreviation bt_keys :: "('k, 'v) btree_map \<Rightarrow> 'k list" where
  "bt_keys m \<equiv> map fst m"

text \<open>
  A key order is usable when, on the keys a map may hold, the comparator never panics and
  agrees with an integer rank.  Under that contract the map is a finite map from ranks.
\<close>

locale btree_order =
  fixes cmp :: "'k comparator"
    and ok :: "'k \<Rightarrow> bool"
    and rank :: "'k \<Rightarrow> int"
  assumes cmp_rank: "ok a \<Longrightarrow> ok b \<Longrightarrow> cmp a b = Some (cmp_int (rank a) (rank b))"
begin

definition bt_wf :: "('k, 'v) btree_map \<Rightarrow> bool" where
  "bt_wf m \<longleftrightarrow> (\<forall>k \<in> set (bt_keys m). ok k) \<and> sorted_wrt (<) (map rank (bt_keys m))"

definition lkp :: "('k, 'v) btree_map \<Rightarrow> int \<Rightarrow> 'v option" where
  "lkp m = map_of (map (\<lambda>p. (rank (fst p), snd p)) m)"

lemma bt_wf_Nil [simp]: "bt_wf []"
  by (simp add: bt_wf_def)

lemma bt_wf_Cons:
  "bt_wf (p # m) \<longleftrightarrow> ok (fst p) \<and> (\<forall>q \<in> set m. rank (fst p) < rank (fst q)) \<and> bt_wf m"
  by (auto simp: bt_wf_def)

lemma bt_wf_Cons_iff:
  "bt_wf ((k, v) # m) \<longleftrightarrow> ok k \<and> (\<forall>q \<in> set m. rank k < rank (fst q)) \<and> bt_wf m"
  by (simp add: bt_wf_Cons)

lemma at_Nil [simp]: "lkp [] r = None"
  by (simp add: lkp_def)

lemma at_Cons [simp]: "lkp ((k, v) # m) r = (if r = rank k then Some v else lkp m r)"
  by (simp add: lkp_def)

lemma at_SomeD: "lkp m r = Some v \<Longrightarrow> \<exists>k. (k, v) \<in> set m \<and> rank k = r"
  by (induction m) (auto split: if_splits)

lemma at_below: "\<forall>q \<in> set m. r < rank (fst q) \<Longrightarrow> lkp m r = None"
  by (induction m) auto

lemma at_in_set: "bt_wf m \<Longrightarrow> (k, v) \<in> set m \<Longrightarrow> lkp m (rank k) = Some v"
proof (induction m)
  case Nil
  then show ?case by simp
next
  case (Cons p m)
  show ?case
  proof (cases "p = (k, v)")
    case True
    then show ?thesis by (cases p) simp
  next
    case False
    with Cons.prems have mem: "(k, v) \<in> set m" and wf: "bt_wf m" by (auto simp: bt_wf_Cons)
    moreover from Cons.prems(1) mem have "rank (fst p) < rank k" by (auto simp: bt_wf_Cons)
    ultimately show ?thesis using Cons.IH by (cases p) simp
  qed
qed

lemma at_iff: "bt_wf m \<Longrightarrow> lkp m r = Some v \<longleftrightarrow> (\<exists>k. (k, v) \<in> set m \<and> rank k = r)"
  by (auto dest: at_SomeD simp: at_in_set)

lemma get_at: "bt_wf m \<Longrightarrow> ok k \<Longrightarrow> bt_get cmp k m = Some (lkp m (rank k))"
proof (induction m)
  case Nil
  then show ?case by simp
next
  case (Cons p m)
  obtain k' v' where p: "p = (k', v')" by (cases p)
  with Cons.prems have ok': "ok k'" and gt: "\<forall>q \<in> set m. rank k' < rank (fst q)" and wf: "bt_wf m"
    by (simp_all add: bt_wf_Cons_iff)
  have "rank k < rank k' \<Longrightarrow> lkp m (rank k) = None"
    using gt by (intro at_below) auto
  then show ?case
    using Cons.IH [OF wf Cons.prems(2)] ok' Cons.prems(2)
    by (auto simp: p cmp_rank cmp_int_def)
qed

lemma dom_at: "dom (lkp m) = rank ` fst ` set m"
  by (simp add: lkp_def dom_map_of_conv_image_fst image_image)

lemma at_ranks_mono:
  "lkp m' = (lkp m)(rank k \<mapsto> v) \<Longrightarrow> r < rank k \<Longrightarrow> \<forall>q \<in> set m. r < rank (fst q) \<Longrightarrow>
   \<forall>q \<in> set m'. r < rank (fst q)"
proof
  fix q
  assume eq: "lkp m' = (lkp m)(rank k \<mapsto> v)" and lt: "r < rank k"
    and all: "\<forall>q \<in> set m. r < rank (fst q)" and q: "q \<in> set m'"
  have "rank (fst q) \<in> dom (lkp m')" using q by (simp add: dom_at)
  then have "rank (fst q) \<in> insert (rank k) (dom (lkp m))" by (simp add: eq)
  then show "r < rank (fst q)" using lt all by (auto simp: dom_at)
qed

lemma insert_at_ex:
  "bt_wf m \<Longrightarrow> ok k \<Longrightarrow>
   \<exists>m'. bt_insert cmp k v m = Some m' \<and> bt_wf m' \<and> lkp m' = (lkp m)(rank k \<mapsto> v)"
proof (induction m)
  case Nil
  then show ?case by (simp add: bt_wf_Cons fun_eq_iff)
next
  case (Cons p m)
  obtain k' v' where p: "p = (k', v')" by (cases p)
  with Cons.prems have ok': "ok k'" and gt: "\<forall>q \<in> set m. rank k' < rank (fst q)" and wf: "bt_wf m"
    by (simp_all add: bt_wf_Cons_iff)
  obtain m' where m': "bt_insert cmp k v m = Some m'" "bt_wf m'" "lkp m' = (lkp m)(rank k \<mapsto> v)"
    using Cons.IH [OF wf Cons.prems(2)] by blast
  have c: "cmp k k' = Some (cmp_int (rank k) (rank k'))"
    using Cons.prems(2) ok' by (rule cmp_rank)
  consider "rank k < rank k'" | "rank k = rank k'" | "rank k' < rank k" by linarith
  then show ?case
  proof cases
    case 1
    then have "cmp k k' = Some Less" by (simp add: c)
    moreover have "\<forall>q \<in> set m. rank k < rank (fst q)" using gt 1 by auto
    ultimately show ?thesis using 1 gt wf ok' Cons.prems(2)
      by (simp add: p bt_wf_Cons_iff fun_eq_iff)
  next
    case 2
    then have "cmp k k' = Some Equal" by (simp add: c)
    then show ?thesis using 2 gt wf ok'
      by (simp add: p bt_wf_Cons_iff fun_eq_iff)
  next
    case 3
    then have "cmp k k' = Some Greater" by (simp add: c)
    then show ?thesis using 3 m' ok' at_ranks_mono [OF m'(3) 3 gt]
      by (simp add: p bt_wf_Cons_iff fun_eq_iff)
  qed
qed

lemma insert_at:
  assumes "bt_wf m" and "ok k"
  obtains m' where "bt_insert cmp k v m = Some m'" and "bt_wf m'" and "lkp m' = (lkp m)(rank k \<mapsto> v)"
  using insert_at_ex [OF assms] by blast

lemma remove_at:
  assumes "bt_wf m" and "ok k"
  obtains m' where "bt_remove cmp k m = Some m'" and "bt_wf m'" and "lkp m' = (lkp m)(rank k := None)"
    and "m' = filter (\<lambda>p. rank (fst p) \<noteq> rank k) m"
proof -
  have "bt_remove cmp k m = Some (filter (\<lambda>p. rank (fst p) \<noteq> rank k) m)"
    using assms
  proof (induction m)
    case Nil
    then show ?case by simp
  next
    case (Cons p m)
    obtain k' v' where p: "p = (k', v')" by (cases p)
    with Cons.prems have ok': "ok k'" and gt: "\<forall>q \<in> set m. rank k' < rank (fst q)" and wf: "bt_wf m"
      by (simp_all add: bt_wf_Cons_iff)
    have *: "rank k \<le> rank k' \<Longrightarrow> filter (\<lambda>p. rank (fst p) \<noteq> rank k) m = m"
      using gt by (intro filter_True) auto
    show ?case
      using Cons.IH [OF wf Cons.prems(2)] ok' Cons.prems(2) *
      by (auto simp: p cmp_rank cmp_int_def)
  qed
  moreover have "bt_wf (filter P m)" for P
    using assms(1) by (induction m) (auto simp: bt_wf_Cons)
  moreover have "lkp (filter (\<lambda>p. rank (fst p) \<noteq> rank k) m) = (lkp m)(rank k := None)"
    by (induction m) (auto simp: fun_eq_iff)
  ultimately show thesis using that by blast
qed

text \<open>The first entry has the least rank: it is the best one of an ordered container.\<close>

lemma first_least: "bt_wf ((k, v) # m) \<Longrightarrow> lkp ((k, v) # m) r = Some w \<Longrightarrow> rank k \<le> r"
  by (auto simp: bt_wf_Cons_iff split: if_splits dest!: at_SomeD)

lemma insert_values:
  assumes "bt_wf m" and "ok k" and "bt_insert cmp k v m = Some m'"
  shows "map snd m' = map snd (takeWhile (\<lambda>p. rank (fst p) < rank k) m) @ v #
    map snd (dropWhile (\<lambda>p. rank (fst p) \<le> rank k) m)"
  using assms
proof (induction m arbitrary: m')
  case Nil
  then show ?case by auto
next
  case (Cons p m)
  obtain k' v' where p: "p = (k', v')" by (cases p)
  with Cons.prems have ok': "ok k'" and gt: "\<forall>q \<in> set m. rank k' < rank (fst q)" and wf: "bt_wf m"
    by (simp_all add: bt_wf_Cons_iff)
  have c: "cmp k k' = Some (cmp_int (rank k) (rank k'))" using Cons.prems(2) ok' by (rule cmp_rank)
  have all_gt: "dropWhile (\<lambda>p. rank (fst p) \<le> rank k) m = m" if "rank k \<le> rank k'"
    using gt that by (cases m) auto
  consider "rank k < rank k'" | "rank k = rank k'" | "rank k' < rank k" by linarith
  then show ?case
  proof cases
    case 1
    then show ?thesis using Cons.prems(3) all_gt by (auto simp: p c cmp_int_def)
  next
    case 2
    then show ?thesis using Cons.prems(3) all_gt by (auto simp: p c cmp_int_def)
  next
    case 3
    then obtain m'' where "bt_insert cmp k v m = Some m''" and "m' = (k', v') # m''"
      using Cons.prems(3) by (auto simp: p c cmp_int_def)
    then show ?thesis using Cons.IH [OF wf Cons.prems(2)] 3 by (simp add: p)
  qed
qed

text \<open>A map splits at a rank into the smaller entries, the one at the rank, and the larger ones.\<close>

lemma split_at:
  assumes "bt_wf m"
  shows "map snd m = map snd (takeWhile (\<lambda>p. rank (fst p) < r) m) @
    (case lkp m r of None \<Rightarrow> [] | Some v \<Rightarrow> [v]) @ map snd (dropWhile (\<lambda>p. rank (fst p) \<le> r) m)"
  using assms
proof (induction m)
  case Nil
  then show ?case by simp
next
  case (Cons p m)
  obtain k' v' where p: "p = (k', v')" by (cases p)
  with Cons.prems have gt: "\<forall>q \<in> set m. rank k' < rank (fst q)" and wf: "bt_wf m"
    by (simp_all add: bt_wf_Cons_iff)
  have none: "lkp m r = None" and all_gt: "dropWhile (\<lambda>p. rank (fst p) \<le> r) m = m" if "r \<le> rank k'"
    using gt that by (auto intro!: at_below) (cases m; force)
  consider "r < rank k'" | "r = rank k'" | "rank k' < r" by linarith
  then show ?case
    using Cons.IH [OF wf] none all_gt by cases (simp_all add: p)
qed

lemma ranks_below: "p \<in> set (takeWhile (\<lambda>p. rank (fst p) < r) m) \<Longrightarrow> rank (fst p) < r"
  using set_takeWhileD by fastforce

lemma ranks_above:
  assumes "bt_wf m" and "p \<in> set (dropWhile (\<lambda>p. rank (fst p) \<le> r) m)"
  shows "r < rank (fst p)"
  using assms
proof (induction m)
  case (Cons q m)
  then show ?case by (cases q) (auto simp: bt_wf_Cons_iff split: if_splits)
qed simp

lemma wf_sub: "bt_wf m \<Longrightarrow> p \<in> set m \<Longrightarrow> lkp m (rank (fst p)) = Some (snd p)"
  using at_in_set [of m "fst p" "snd p"] by simp

lemma split_key:
  assumes "bt_wf m"
  shows "\<exists>us ms ws. m = us @ ms @ ws \<and> (\<forall>q \<in> set us. rank (fst q) < r) \<and> (\<forall>q \<in> set ws. r < rank (fst q)) \<and>
    (case lkp m r of None \<Rightarrow> ms = [] | Some v \<Rightarrow> \<exists>k. ms = [(k, v)] \<and> rank k = r)"
  using assms
proof (induction m)
  case Nil
  then show ?case by simp
next
  case (Cons p m)
  obtain k v where p: "p = (k, v)" by (cases p)
  have wf: "ok k" "\<forall>q \<in> set m. rank k < rank (fst q)" "bt_wf m" using Cons.prems by (simp_all add: p bt_wf_Cons_iff)
  consider "rank k < r" | "rank k = r" | "r < rank k" by linarith
  then show ?case
  proof cases
    case 1
    obtain us ms ws where "m = us @ ms @ ws" "\<forall>q \<in> set us. rank (fst q) < r" "\<forall>q \<in> set ws. r < rank (fst q)"
      "case lkp m r of None \<Rightarrow> ms = [] | Some v \<Rightarrow> \<exists>k. ms = [(k, v)] \<and> rank k = r"
      using Cons.IH [OF wf(3)] by blast
    then show ?thesis using 1 by (intro exI [of _ "p # us"] exI [of _ ms] exI [of _ ws]) (simp add: p)
  next
    case 2
    then show ?thesis using wf(2) by (intro exI [of _ "[]"] exI [of _ "[p]"] exI [of _ m]) (simp add: p)
  next
    case 3
    moreover have "lkp m r = None" using wf(2) 3 by (intro at_below) (auto intro: less_trans)
    ultimately show ?thesis using wf(2)
      by (intro exI [of _ "[]"] exI [of _ "p # m"]) (auto simp: p)
  qed
qed

lemma insert_split:
  assumes "\<forall>q \<in> set us. rank (fst q) < rank k" and "\<forall>q \<in> set ws. rank k < rank (fst q)"
    and "\<forall>q \<in> set (us @ ms @ ws). ok (fst q)" and "ok k"
    and "ms = [] \<or> (\<exists>k' v'. ms = [(k', v')] \<and> rank k' = rank k)"
  shows "\<exists>k'. rank k' = rank k \<and> ok k' \<and> bt_insert cmp k v (us @ ms @ ws) = Some (us @ [(k', v)] @ ws)"
  using assms
proof (induction us)
  case Nil
  then show ?case
    by (cases ws) (auto simp: cmp_rank cmp_int_def)
next
  case (Cons p us)
  then show ?case by (cases p) (auto simp: cmp_rank cmp_int_def)
qed

lemma remove_split:
  assumes "\<forall>q \<in> set us. rank (fst q) < rank k" and "\<forall>q \<in> set (us @ [(k', v')] @ ws). ok (fst q)" and "ok k" and "rank k' = rank k"
  shows "bt_remove cmp k (us @ [(k', v')] @ ws) = Some (us @ ws)"
  using assms
proof (induction us)
  case Nil
  then show ?case by (simp add: cmp_rank cmp_int_def)
next
  case (Cons p us)
  then show ?case by (cases p) (auto simp: cmp_rank cmp_int_def)
qed

end

end
