(* ===== verification/Fixed_Point.thy ===== *)
theory Fixed_Point
  imports Prelude
begin

text \<open>
  Fixed-point raw values: \<open>model/src/types/fixed.rs\<close> in the standard-precision build
  (\<open>FIXED_PRECISION = 9\<close>).

  A value at precision \<open>p\<close> is stored as a multiple of \<open>10 ^ (9 - p)\<close>.  The theory models the
  validation of raw values, their correction to the nearest valid multiple, banker's rounding and
  the conversion of a decimal mantissa and exponent, and proves that correction rounds to a
  nearest multiple, that banker's rounding is exact to half a unit with ties to even, and that
  the conversion is correctly rounded and always yields a valid raw value.
\<close>

definition FIXED_PRECISION :: nat where "FIXED_PRECISION = 9"

definition FIXED_SCALAR :: nat where "FIXED_SCALAR = 1000000000"

definition POWERS_OF_10 :: "nat list" where
  "POWERS_OF_10 =
    [1, 10, 100, 1000, 10000, 100000, 1000000, 10000000, 100000000, 1000000000, 10000000000,
     100000000000, 1000000000000, 10000000000000, 100000000000000, 1000000000000000,
     10000000000000000]"

definition check_fixed_precision :: "nat \<Rightarrow> unit checked" where
  "check_fixed_precision precision =
     (if precision > FIXED_PRECISION
      then Inl (PredicateViolation ''precision exceeded maximum FIXED_PRECISION'')
      else Inr ())"

definition raw_scales_match :: "nat \<Rightarrow> nat \<Rightarrow> bool" where
  "raw_scales_match a b \<longleftrightarrow> max a FIXED_PRECISION = max b FIXED_PRECISION"

definition should_skip_validation :: "nat \<Rightarrow> bool" where
  "should_skip_validation precision =
     (if precision = FIXED_PRECISION then True
      else if precision > FIXED_PRECISION then True
      else False)"

definition invalid_raw_error :: correctness_error where
  "invalid_raw_error = PredicateViolation ''Invalid fixed-point raw value''"

definition check_fixed_raw_u128 :: "nat \<Rightarrow> nat \<Rightarrow> unit checked" where
  "check_fixed_raw_u128 raw precision =
     (if should_skip_validation precision then Inr ()
      else
        let exp = FIXED_PRECISION - precision;
            scale = POWERS_OF_10 ! exp;
            remainder = raw mod scale
        in if remainder \<noteq> 0 then Inl invalid_raw_error else Inr ())"

definition check_fixed_raw_u64 :: "nat \<Rightarrow> nat \<Rightarrow> unit checked" where
  "check_fixed_raw_u64 raw precision =
     (if should_skip_validation precision then Inr ()
      else
        let exp = FIXED_PRECISION - precision;
            scale = POWERS_OF_10 ! exp;
            remainder = raw mod scale
        in if remainder \<noteq> 0 then Inl invalid_raw_error else Inr ())"

definition check_fixed_raw_i128 :: "int \<Rightarrow> nat \<Rightarrow> unit checked" where
  "check_fixed_raw_i128 raw precision =
     (if should_skip_validation precision then Inr ()
      else
        let exp = FIXED_PRECISION - precision;
            scale = int (POWERS_OF_10 ! exp);
            remainder = raw smod scale
        in if remainder \<noteq> 0 then Inl invalid_raw_error else Inr ())"

definition check_fixed_raw_i64 :: "int \<Rightarrow> nat \<Rightarrow> unit checked" where
  "check_fixed_raw_i64 raw precision =
     (if should_skip_validation precision then Inr ()
      else
        let exp = FIXED_PRECISION - precision;
            scale = int (POWERS_OF_10 ! exp);
            remainder = raw smod scale
        in if remainder \<noteq> 0 then Inl invalid_raw_error else Inr ())"

definition correct_raw_u128 :: "nat \<Rightarrow> nat \<Rightarrow> nat" where
  "correct_raw_u128 raw precision =
     (if precision \<ge> FIXED_PRECISION then raw
      else
        let exp = FIXED_PRECISION - precision;
            scale = POWERS_OF_10 ! exp;
            half_scale = scale div 2;
            remainder = raw mod scale
        in if remainder = 0 then raw
           else if remainder \<ge> half_scale then u128_wrap (raw + (scale - remainder))
           else raw - remainder)"

definition correct_raw_u64 :: "nat \<Rightarrow> nat \<Rightarrow> nat" where
  "correct_raw_u64 raw precision =
     (if precision \<ge> FIXED_PRECISION then raw
      else
        let exp = FIXED_PRECISION - precision;
            scale = POWERS_OF_10 ! exp;
            half_scale = scale div 2;
            remainder = raw mod scale
        in if remainder = 0 then raw
           else if remainder \<ge> half_scale then u64_wrapping_add raw (scale - remainder)
           else raw - remainder)"

definition correct_raw_i128 :: "int \<Rightarrow> nat \<Rightarrow> int" where
  "correct_raw_i128 raw precision =
     (if precision \<ge> FIXED_PRECISION then raw
      else
        let exp = FIXED_PRECISION - precision;
            scale = int (POWERS_OF_10 ! exp);
            half_scale = scale div 2;
            remainder = raw smod scale
        in if remainder = 0 then raw
           else if raw \<ge> 0 then
             (if remainder \<ge> half_scale then i128_wrap (raw + (scale - remainder))
              else raw - remainder)
           else
             (if \<bar>remainder\<bar> \<ge> half_scale then i128_wrap (raw - (scale + remainder))
              else raw - remainder))"

definition correct_raw_i64 :: "int \<Rightarrow> nat \<Rightarrow> int" where
  "correct_raw_i64 raw precision =
     (if precision \<ge> FIXED_PRECISION then raw
      else
        let exp = FIXED_PRECISION - precision;
            scale = int (POWERS_OF_10 ! exp);
            half_scale = scale div 2;
            remainder = raw smod scale
        in if remainder = 0 then raw
           else if raw \<ge> 0 then
             (if remainder \<ge> half_scale then i64_wrap (raw + (scale - remainder))
              else raw - remainder)
           else
             (if \<bar>remainder\<bar> \<ge> half_scale then i64_wrap (raw - (scale + remainder))
              else raw - remainder))"

definition correct_price_raw :: "int \<Rightarrow> nat \<Rightarrow> int" where
  "correct_price_raw raw precision = correct_raw_i64 raw precision"

definition correct_quantity_raw :: "nat \<Rightarrow> nat \<Rightarrow> nat" where
  "correct_quantity_raw raw precision = correct_raw_u64 raw precision"

definition bankers_round :: "int \<Rightarrow> nat \<Rightarrow> int" where
  "bankers_round mantissa excess =
     (if excess = 0 then mantissa
      else if excess \<ge> 39 then 0
      else
        let divisor = 10 ^ excess;
            quotient = mantissa sdiv divisor;
            remainder = mantissa smod divisor;
            half = divisor div 2
        in if \<bar>remainder\<bar> > half \<or> (\<bar>remainder\<bar> = half \<and> quotient smod 2 \<noteq> 0)
           then quotient + sgn mantissa
           else quotient)"

definition mantissa_exponent_to_fixed_i128 :: "int \<Rightarrow> int \<Rightarrow> nat \<Rightarrow> int checked" where
  "mantissa_exponent_to_fixed_i128 mantissa exponent precision =
     and_then (check_fixed_precision precision) (\<lambda>_.
       let target_scale = max (int FIXED_PRECISION) (int precision);
           frac_digits = - exponent;
           mantissa = (if frac_digits > int precision
                       then bankers_round mantissa (nat (frac_digits - int precision))
                       else mantissa);
           scale_after_rounding = min frac_digits (int precision);
           scale_exp = target_scale - scale_after_rounding
       in if scale_exp > 38
          then Inl (PredicateViolation ''Exponent produces scale factor which exceeds i128 range'')
          else
            case (if scale_exp \<ge> 0 then i128_checked_mul mantissa (10 ^ nat scale_exp)
                  else Some (mantissa sdiv 10 ^ nat (- scale_exp)))
            of None \<Rightarrow> Inl (PredicateViolation ''Overflow when scaling mantissa to fixed precision'')
             | Some r \<Rightarrow> Inr r)"

text \<open>The unit of a raw value at a precision.\<close>

definition unit_at :: "nat \<Rightarrow> int" where
  "unit_at p = 10 ^ (FIXED_PRECISION - p)"

lemmas fixed_point_defs [value_defs] =
  FIXED_PRECISION_def FIXED_SCALAR_def check_fixed_precision_def raw_scales_match_def
  should_skip_validation_def correct_price_raw_def correct_quantity_raw_def

section \<open>Validation and correction\<close>

lemma POWERS_OF_10_nth: "n < 17 \<Longrightarrow> POWERS_OF_10 ! n = 10 ^ n"
proof -
  have "list_all (\<lambda>n. POWERS_OF_10 ! n = 10 ^ n) [0..<17]"
    by (simp add: POWERS_OF_10_def upt_conv_Cons)
  then show "n < 17 \<Longrightarrow> POWERS_OF_10 ! n = 10 ^ n" by (simp add: list_all_iff)
qed

lemma unit_at_pos [simp]: "0 < unit_at p" "0 \<le> unit_at p"
  by (simp_all add: unit_at_def)

lemma unit_at_index: "int (POWERS_OF_10 ! (FIXED_PRECISION - p)) = unit_at p"
  by (simp add: unit_at_def POWERS_OF_10_nth FIXED_PRECISION_def)

lemma smod_eq_0_iff: "0 < b \<Longrightarrow> (a :: int) smod b = 0 \<longleftrightarrow> b dvd a"
  by (auto simp: signed_modulo_int_def sgn_if mod_0_imp_dvd)

lemma unit_at_large: "FIXED_PRECISION \<le> p \<Longrightarrow> unit_at p = 1"
  by (simp add: unit_at_def)

lemma unit_at_nat: "unit_at p = int (10 ^ (FIXED_PRECISION - p))"
  by (simp add: unit_at_def)

lemma skip_iff: "should_skip_validation p \<longleftrightarrow> FIXED_PRECISION \<le> p"
  by (auto simp: should_skip_validation_def)

lemma check_fixed_raw_i64_Inr: "check_fixed_raw_i64 raw p = Inr () \<longleftrightarrow> unit_at p dvd raw"
  by (simp add: check_fixed_raw_i64_def skip_iff unit_at_index Let_def smod_eq_0_iff unit_at_large)

lemma check_fixed_raw_u64_Inr: "check_fixed_raw_u64 raw p = Inr () \<longleftrightarrow> unit_at p dvd int raw"
proof (cases "FIXED_PRECISION \<le> p")
  case True
  then show ?thesis by (simp add: check_fixed_raw_u64_def skip_iff unit_at_large)
next
  case False
  have "POWERS_OF_10 ! (FIXED_PRECISION - p) = 10 ^ (FIXED_PRECISION - p)"
    by (simp add: POWERS_OF_10_nth FIXED_PRECISION_def)
  with False show ?thesis
    by (simp add: check_fixed_raw_u64_def skip_iff Let_def dvd_eq_mod_eq_0 unit_at_nat
        flip: of_nat_mod del: of_nat_power)
qed

text \<open>Truncated division splits a value into a multiple and a rest of its sign.\<close>

lemma smod_parts:
  assumes "0 < (b :: int)"
  shows "b dvd a - a smod b" and "\<bar>a smod b\<bar> < b" and "0 \<le> a \<Longrightarrow> 0 \<le> a smod b"
    and "a < 0 \<Longrightarrow> a smod b \<le> 0"
proof -
  show "b dvd a - a smod b" by (simp add: minus_smod_eq_mult_sdiv)
  show "\<bar>a smod b\<bar> < b" using assms by (auto simp: signed_modulo_int_def abs_mult sgn_if)
  show "0 \<le> a \<Longrightarrow> 0 \<le> a smod b" "a < 0 \<Longrightarrow> a smod b \<le> 0" using assms
    by (auto simp: signed_modulo_int_def sgn_if)
qed

lemma multiple_gap: "(u :: int) dvd a \<Longrightarrow> u dvd b \<Longrightarrow> a < b \<Longrightarrow> a + u \<le> b"
  using zdvd_imp_le [of u "b - a"] by simp

text \<open>A multiple within half a unit is a nearest one.\<close>

lemma nearest_multiple:
  assumes u: "0 < (u :: int)" "u dvd res" "2 * \<bar>res - raw\<bar> \<le> u" and m: "u dvd m"
  shows "\<bar>res - raw\<bar> \<le> \<bar>m - raw\<bar>"
proof -
  consider "m = res" | "m < res" | "res < m" by linarith
  then show ?thesis
  proof cases
    case 1
    then show ?thesis by simp
  next
    case 2
    then have "m + u \<le> res" using multiple_gap m u(2) by blast
    then show ?thesis using u(1,3) by (auto simp: abs_if split: if_splits)
  next
    case 3
    then have "res + u \<le> m" using multiple_gap m u(2) by blast
    then show ?thesis using u(1,3) by (auto simp: abs_if split: if_splits)
  qed
qed

lemma unit_at_even: "p < FIXED_PRECISION \<Longrightarrow> 2 * (unit_at p div 2) = unit_at p"
proof -
  assume "p < FIXED_PRECISION"
  then have "even (unit_at p)" by (simp add: unit_at_def)
  then show ?thesis by simp
qed

text \<open>Correction away from the ends of the integer range: valid, in range and nearest.\<close>

lemma correct_raw_i64_round:
  assumes M: "unit_at p dvd M" "in_i64 M" "in_i64 (- M)" and raw: "\<bar>raw\<bar> \<le> M"
  shows "unit_at p dvd correct_raw_i64 raw p \<and> \<bar>correct_raw_i64 raw p\<bar> \<le> M \<and>
         2 * \<bar>correct_raw_i64 raw p - raw\<bar> \<le> unit_at p"
proof (cases "FIXED_PRECISION \<le> p \<or> raw smod unit_at p = 0")
  case True
  then show ?thesis using raw
    by (auto simp: correct_raw_i64_def unit_at_index unit_at_large Let_def smod_eq_0_iff)
next
  case False
  define u r where "u = unit_at p" and "r = raw smod u"
  have half: "2 * (u div 2) = u" using False unit_at_even by (simp add: u_def)
  have nz: "r \<noteq> 0" using False by (simp add: r_def u_def)
  note parts = smod_parts [of u raw, folded r_def]
  have pos: "0 < u" by (simp add: u_def)
  have dvdM: "u dvd M" "u dvd - M" using M(1) by (simp_all add: u_def)
  define res where "res = (if 0 \<le> raw then if u div 2 \<le> r then raw - r + u else raw - r
                           else if u div 2 \<le> \<bar>r\<bar> then raw - r - u else raw - r)"
  have up: "raw - r + u \<le> M" if "0 \<le> raw"
  proof -
    have "raw - r < M" using that nz parts(3) [OF pos that] raw by linarith
    then show ?thesis using multiple_gap [of u "raw - r" M] parts(1) pos dvdM by simp
  qed
  have dn: "- M \<le> raw - r - u" if "raw < 0"
  proof -
    have "- M < raw - r" using that nz parts(4) [OF pos that] raw by linarith
    then show ?thesis using multiple_gap [of u "- M" "raw - r"] parts(1) pos dvdM by simp
  qed
  have abs_res: "\<bar>res\<bar> \<le> M" and dist: "2 * \<bar>res - raw\<bar> \<le> u" and dvd: "u dvd res"
    using up dn parts half pos raw by (cases "0 \<le> raw"; auto simp: res_def)+
  have in64: "in_i64 res" using abs_res M(2,3) by (auto simp: in_i64_def)
  have "correct_raw_i64 raw p = res"
    using False nz i64_wrap_exact [OF in64]
    by (auto simp: correct_raw_i64_def unit_at_index Let_def res_def algebra_simps
        simp flip: u_def r_def)
  then show ?thesis using abs_res dist dvd by (simp add: u_def)
qed

text \<open>Banker's rounding.\<close>

lemma sdiv_smod_sgn:
  "0 < (b :: int) \<Longrightarrow> a = sgn a * (\<bar>a\<bar> div b * b + \<bar>a\<bar> mod b) \<and> a sdiv b = sgn a * (\<bar>a\<bar> div b) \<and>
   a smod b = sgn a * (\<bar>a\<bar> mod b)"
  by (auto simp: signed_divide_int_def signed_modulo_int_def sgn_if)

lemma smod_2_even: "(a :: int) smod 2 \<noteq> 0 \<longleftrightarrow> odd a"
  by (simp add: smod_eq_0_iff)

lemma bankers_round_mid:
  assumes e: "0 < e" "e < 39"
  shows "2 * \<bar>m - bankers_round m e * 10 ^ e\<bar> \<le> 10 ^ e \<and>
         (2 * \<bar>m - bankers_round m e * 10 ^ e\<bar> = 10 ^ e \<longrightarrow> even (bankers_round m e))"
proof -
  define d :: int where "d = 10 ^ e"
  have dpos: "0 < d" by (simp add: d_def)
  have half: "2 * (d div 2) = d" using e(1) by (simp add: d_def)
  define q r where "q = m sdiv d" and "r = m smod d"
  have r: "\<bar>r\<bar> < d" "0 \<le> m \<Longrightarrow> 0 \<le> r" "m < 0 \<Longrightarrow> r \<le> 0"
    using smod_parts [OF dpos, of m] by (simp_all add: r_def)
  have m: "m = q * d + r" using minus_smod_eq_mult_sdiv [of m d] by (simp add: q_def r_def mult.commute)
  have br: "bankers_round m e = (if \<bar>r\<bar> > d div 2 \<or> (\<bar>r\<bar> = d div 2 \<and> odd q) then q + sgn m else q)"
    using e by (simp add: bankers_round_def Let_def smod_2_even d_def q_def r_def)
  show ?thesis
  proof (cases "\<bar>r\<bar> > d div 2 \<or> (\<bar>r\<bar> = d div 2 \<and> odd q)")
    case True
    then have "d div 2 \<le> \<bar>r\<bar>" by linarith
    then have "r \<noteq> 0" using half dpos by linarith
    then have "m \<noteq> 0" by (auto simp: r_def)
    with \<open>r \<noteq> 0\<close> have s: "sgn m = sgn r" using r(2,3) by (auto simp: sgn_if)
    have b: "bankers_round m e = q + sgn r" using True by (simp add: br s)
    have "m - bankers_round m e * d = r - sgn r * d"
      using m unfolding b by (simp add: algebra_simps)
    moreover have "\<bar>r - sgn r * d\<bar> = d - \<bar>r\<bar>" using r(1) \<open>r \<noteq> 0\<close> by (auto simp: sgn_if)
    moreover have "even (bankers_round m e)" if "\<bar>r\<bar> = d div 2"
      using True that \<open>r \<noteq> 0\<close> by (auto simp: b sgn_if)
    ultimately show ?thesis using True half by (auto simp flip: d_def)
  next
    case False
    then have "bankers_round m e = q" by (auto simp: br)
    moreover have "m - q * d = r" by (simp add: m)
    ultimately show ?thesis using False half by (auto simp flip: d_def)
  qed
qed

lemma bankers_round_zero: "bankers_round m 0 = m"
  by (simp add: bankers_round_def)

lemma bankers_round_large:
  assumes "in_i128 m" and "39 \<le> e"
  shows "bankers_round m e = 0" and "2 * \<bar>m\<bar> < 10 ^ e"
proof -
  show "bankers_round m e = 0" using assms by (simp add: bankers_round_def)
  have "2 * \<bar>m\<bar> < 10 ^ 39" using assms(1) by (auto simp: in_i128_def I128_MIN_def I128_MAX_def)
  also have "(10 :: int) ^ 39 \<le> 10 ^ e" using assms(2) by (rule power_increasing) simp
  finally show "2 * \<bar>m\<bar> < 10 ^ e" .
qed

lemma bankers_round_half_even:
  assumes "in_i128 m"
  shows "2 * \<bar>m - bankers_round m e * 10 ^ e\<bar> \<le> 10 ^ e \<and>
         (2 * \<bar>m - bankers_round m e * 10 ^ e\<bar> = 10 ^ e \<longrightarrow> even (bankers_round m e))"
proof -
  consider "e = 0" | "0 < e" "e < 39" | "39 \<le> e" by linarith
  then show ?thesis
  proof cases
    case 1
    then show ?thesis by (simp add: bankers_round_zero)
  next
    case 2
    then show ?thesis by (rule bankers_round_mid)
  next
    case 3
    with bankers_round_large [OF assms 3] show ?thesis by simp
  qed
qed

text \<open>The conversion of a mantissa and exponent, by the place its digits end.\<close>

lemma mantissa_exponent_cases:
  assumes "mantissa_exponent_to_fixed_i128 m x p = Inr r"
  shows "p \<le> FIXED_PRECISION"
    and "int p < - x \<Longrightarrow> r = bankers_round m (nat (- x - int p)) * unit_at p"
    and "- x \<le> int p \<Longrightarrow> r = m * 10 ^ nat (int FIXED_PRECISION + x)"
proof -
  show p: "p \<le> FIXED_PRECISION"
    using assms by (auto simp: mantissa_exponent_to_fixed_i128_def check_fixed_precision_def split: if_splits)
  then have e: "int FIXED_PRECISION - int p = int (FIXED_PRECISION - p)" by simp
  have scaled: "r = (if int p < - x then bankers_round m (nat (- x - int p)) else m) *
      10 ^ nat (int FIXED_PRECISION - min (- x) (int p))"
    using assms p
    by (simp add: mantissa_exponent_to_fixed_i128_def Let_def i128_checked_mul_def
        check_fixed_precision_def max_absorb1 split: if_splits)
  show "int p < - x \<Longrightarrow> r = bankers_round m (nat (- x - int p)) * unit_at p"
    by (simp add: scaled unit_at_def e min_absorb2)
  show "- x \<le> int p \<Longrightarrow> r = m * 10 ^ nat (int FIXED_PRECISION + x)"
    by (simp add: scaled min_absorb1)
qed

lemma mantissa_exponent_valid:
  assumes "mantissa_exponent_to_fixed_i128 m x p = Inr r"
  shows "unit_at p dvd r"
proof (cases "int p < - x")
  case True
  with mantissa_exponent_cases [OF assms] show ?thesis by simp
next
  case False
  have "FIXED_PRECISION - p \<le> nat (int FIXED_PRECISION + x)"
    using False mantissa_exponent_cases(1) [OF assms] by linarith
  then have "unit_at p dvd 10 ^ nat (int FIXED_PRECISION + x)"
    unfolding unit_at_def by (rule le_imp_power_dvd)
  with False mantissa_exponent_cases(3) [OF assms] show ?thesis by simp
qed

lemma mantissa_exponent_exact:
  assumes "mantissa_exponent_to_fixed_i128 m x p = Inr r" and "- x \<le> int p"
  shows "rat_of_int r / 10 ^ FIXED_PRECISION = of_int m * 10 powi x"
proof -
  have r: "r = m * 10 ^ nat (int FIXED_PRECISION + x)" and p: "p \<le> FIXED_PRECISION"
    using mantissa_exponent_cases [OF assms(1)] assms(2) by auto
  have "(10 :: rat) ^ nat (int FIXED_PRECISION + x) = 10 powi (int FIXED_PRECISION + x)"
    using assms(2) p by (simp add: power_int_def)
  also have "\<dots> = 10 ^ FIXED_PRECISION * 10 powi x"
    by (simp add: power_int_add)
  finally show ?thesis by (simp add: r)
qed

lemma mantissa_exponent_rounded:
  assumes "mantissa_exponent_to_fixed_i128 m x p = Inr r" and "int p < - x" and "in_i128 m"
  shows "\<bar>rat_of_int r / 10 ^ FIXED_PRECISION - of_int m * 10 powi x\<bar> \<le> 1 / (2 * 10 ^ p)"
proof -
  define e where "e = nat (- x - int p)"
  define q where "q = bankers_round m e"
  have p: "p \<le> FIXED_PRECISION" and r: "r = q * unit_at p"
    using mantissa_exponent_cases [OF assms(1)] assms(2) by (auto simp: q_def e_def)
  have x: "x = - int (e + p)" using assms(2) by (simp add: e_def)
  have pow_x: "(10 :: rat) powi x = 1 / (10 ^ e * 10 ^ p)"
    by (simp only: x power_int_minus power_int_of_nat power_add) (simp add: field_simps)
  have "(10 :: rat) ^ FIXED_PRECISION = 10 ^ (FIXED_PRECISION - p) * 10 ^ p"
    using p by (simp flip: power_add)
  then have lhs: "rat_of_int r / 10 ^ FIXED_PRECISION = of_int q / 10 ^ p"
    by (simp add: r unit_at_def)
  have "rat_of_int (2 * \<bar>m - q * 10 ^ e\<bar>) \<le> rat_of_int (10 ^ e)"
    using bankers_round_half_even [OF assms(3), of e] by (simp only: of_int_le_iff q_def)
  then have le: "2 * \<bar>of_int m - of_int q * 10 ^ e\<bar> \<le> (10 :: rat) ^ e" by simp
  have "of_int q / 10 ^ p - of_int m * (1 / (10 ^ e * 10 ^ p))
      = - (of_int m - of_int q * 10 ^ e) / ((10 :: rat) ^ e * 10 ^ p)"
    by (simp add: field_simps)
  then have "\<bar>of_int q / 10 ^ p - of_int m * (1 / (10 ^ e * 10 ^ p))\<bar>
      = \<bar>of_int m - of_int q * 10 ^ e\<bar> / ((10 :: rat) ^ e * 10 ^ p)"
    by (simp add: abs_mult abs_divide)
  also have "\<dots> \<le> 1 / (2 * 10 ^ p)" using le by (simp add: field_simps)
  finally show ?thesis by (simp only: lhs pow_x)
qed
end
