(* ===== verification/Value_Types.thy ===== *)
theory Value_Types
  imports Fixed_Point
begin

text \<open>
  The value types \<open>Quantity\<close> and \<open>Price\<close>: \<open>model/src/types/quantity.rs\<close> and
  \<open>model/src/types/price.rs\<close> in the standard-precision build, where a quantity is backed by a
  \<open>u64\<close> and a price by an \<open>i64\<close>.

  Equality, order and hashing of both types look at the raw value only, so comparisons in the
  models of their clients are comparisons of \<open>q_raw\<close> and \<open>p_raw\<close>.  \<open>Decimal\<close> comes from the crate
  \<open>rust_decimal\<close>; the operations that use it take the three functions they call as an argument
  (\<open>decimal_api\<close>).
\<close>

section \<open>Quantity\<close>

record quantity =
  q_raw :: nat
  q_prec :: nat

definition QUANTITY_RAW_MAX :: nat where "QUANTITY_RAW_MAX = 18446744073 * 1000000000"

definition QUANTITY_UNDEF :: nat where "QUANTITY_UNDEF = U64_MAX"

record 'd decimal_api =
  dec_mantissa :: "'d \<Rightarrow> int"
  dec_scale :: "'d \<Rightarrow> nat"
  dec_from_i128_with_scale :: "int \<Rightarrow> nat \<Rightarrow> 'd"

definition quantity_from_raw :: "nat \<Rightarrow> nat \<Rightarrow> quantity option" where
  "quantity_from_raw raw precision = do {
     assert_that (raw = QUANTITY_UNDEF \<or> raw \<le> QUANTITY_RAW_MAX);
     (if raw = QUANTITY_UNDEF then assert_that (precision = 0) else Some ());
     expect_display (check_fixed_precision precision);
     Some \<lparr> q_raw = raw, q_prec = precision \<rparr>
   }"

definition quantity_from_raw_checked :: "nat \<Rightarrow> nat \<Rightarrow> quantity checked" where
  "quantity_from_raw_checked raw precision =
     (if raw = QUANTITY_UNDEF \<and> precision \<noteq> 0
      then Inl (PredicateViolation ''precision must be 0 when raw is QUANTITY_UNDEF'')
      else if raw \<noteq> QUANTITY_UNDEF \<and> raw > QUANTITY_RAW_MAX
      then Inl (PredicateViolation ''raw value exceeds QUANTITY_RAW_MAX'')
      else and_then (check_fixed_precision precision) (\<lambda>_.
        Inr \<lparr> q_raw = raw, q_prec = precision \<rparr>))"

definition quantity_checked_add :: "quantity \<Rightarrow> quantity \<Rightarrow> quantity option" where
  "quantity_checked_add a b =
     (if q_raw a = QUANTITY_UNDEF \<or> q_raw b = QUANTITY_UNDEF then None
      else if \<not> raw_scales_match (q_prec a) (q_prec b) then None
      else do {
        raw \<leftarrow> u64_checked_add (q_raw a) (q_raw b);
        (if raw > QUANTITY_RAW_MAX then None
         else Some \<lparr> q_raw = raw, q_prec = max (q_prec a) (q_prec b) \<rparr>)
      })"

definition quantity_checked_sub :: "quantity \<Rightarrow> quantity \<Rightarrow> quantity option" where
  "quantity_checked_sub a b =
     (if q_raw a = QUANTITY_UNDEF \<or> q_raw b = QUANTITY_UNDEF then None
      else if \<not> raw_scales_match (q_prec a) (q_prec b) then None
      else do {
        raw \<leftarrow> u64_checked_sub (q_raw a) (q_raw b);
        Some \<lparr> q_raw = raw, q_prec = max (q_prec a) (q_prec b) \<rparr>
      })"

definition quantity_saturating_sub :: "quantity \<Rightarrow> quantity \<Rightarrow> quantity" where
  "quantity_saturating_sub a b =
     \<lparr> q_raw = q_raw a - q_raw b, q_prec = max (q_prec a) (q_prec b) \<rparr>"

definition quantity_zero :: "nat \<Rightarrow> quantity option" where
  "quantity_zero precision = do {
     expect_display (check_fixed_precision precision);
     Some \<lparr> q_raw = 0, q_prec = precision \<rparr>
   }"

definition quantity_is_zero :: "quantity \<Rightarrow> bool" where
  "quantity_is_zero q \<longleftrightarrow> q_raw q = 0"

definition quantity_is_positive :: "quantity \<Rightarrow> bool" where
  "quantity_is_positive q \<longleftrightarrow> q_raw q \<noteq> QUANTITY_UNDEF \<and> q_raw q > 0"

definition quantity_as_f64 :: "'f f64_ops \<Rightarrow> quantity \<Rightarrow> 'f" where
  "quantity_as_f64 F q = f64_div F (f64_of_int F (int (q_raw q))) (f64_of_int F (int FIXED_SCALAR))"

definition quantity_as_decimal :: "'d decimal_api \<Rightarrow> quantity \<Rightarrow> 'd" where
  "quantity_as_decimal D q =
     (let precision_diff = FIXED_PRECISION - q_prec q;
          rescaled_raw = q_raw q div 10 ^ precision_diff
      in dec_from_i128_with_scale D (int rescaled_raw) (q_prec q))"

definition u64_try_from :: "int \<Rightarrow> nat option" where
  "u64_try_from x = (if 0 \<le> x \<and> x \<le> int U64_MAX then Some (nat x) else None)"

definition quantity_from_decimal_dp :: "'d decimal_api \<Rightarrow> 'd \<Rightarrow> nat \<Rightarrow> quantity checked" where
  "quantity_from_decimal_dp D decimal precision =
     (if dec_mantissa D decimal < 0
      then Inl (PredicateViolation ''Decimal value is negative, Quantity must be non-negative'')
      else
        let exponent = i8_wrap (- i8_wrap (int (dec_scale D decimal)))
        in and_then (mantissa_exponent_to_fixed_i128 (dec_mantissa D decimal) exponent precision)
          (\<lambda>raw_i128. case u64_try_from raw_i128 of
             None \<Rightarrow> Inl (PredicateViolation ''Decimal value exceeds QuantityRaw range'')
           | Some raw \<Rightarrow>
               if raw > QUANTITY_RAW_MAX
               then Inl (PredicateViolation ''Raw value exceeds QUANTITY_RAW_MAX for Quantity'')
               else Inr \<lparr> q_raw = raw, q_prec = precision \<rparr>))"

definition quantity_from_decimal :: "'d decimal_api \<Rightarrow> 'd \<Rightarrow> quantity checked" where
  "quantity_from_decimal D decimal =
     quantity_from_decimal_dp D decimal (dec_scale D decimal mod 256)"

definition quantity_from_mantissa_exponent :: "nat \<Rightarrow> int \<Rightarrow> nat \<Rightarrow> quantity option" where
  "quantity_from_mantissa_exponent mantissa exponent precision = do {
     expect_display (check_fixed_precision precision);
     if mantissa = 0 then Some \<lparr> q_raw = 0, q_prec = precision \<rparr>
     else do {
       raw_i128 \<leftarrow> expect_display (mantissa_exponent_to_fixed_i128 (int mantissa) exponent precision);
       raw \<leftarrow> u64_try_from raw_i128;
       assert_that (raw \<le> QUANTITY_RAW_MAX);
       Some \<lparr> q_raw = raw, q_prec = precision \<rparr>
     }
   }"

definition quantity_add :: "quantity \<Rightarrow> quantity \<Rightarrow> quantity option" where
  "quantity_add a b = do {
     raw \<leftarrow> u64_checked_add (q_raw a) (q_raw b);
     Some \<lparr> q_raw = raw, q_prec = max (q_prec a) (q_prec b) \<rparr>
   }"

definition quantity_sub :: "quantity \<Rightarrow> quantity \<Rightarrow> quantity option" where
  "quantity_sub a b = do {
     raw \<leftarrow> u64_checked_sub (q_raw a) (q_raw b);
     Some \<lparr> q_raw = raw, q_prec = max (q_prec a) (q_prec b) \<rparr>
   }"

definition quantity_mul :: "quantity \<Rightarrow> quantity \<Rightarrow> quantity option" where
  "quantity_mul a b = do {
     result_raw \<leftarrow> u64_checked_mul (q_raw a) (q_raw b);
     Some \<lparr> q_raw = result_raw div FIXED_SCALAR, q_prec = max (q_prec a) (q_prec b) \<rparr>
   }"

definition check_positive_quantity :: "quantity \<Rightarrow> string \<Rightarrow> unit checked" where
  "check_positive_quantity value param =
     (if \<not> quantity_is_positive value then Inl (NotPositive param) else Inr ())"

definition quantity_cmp :: "quantity \<Rightarrow> quantity \<Rightarrow> ordering" where
  "quantity_cmp a b = cmp_int (int (q_raw a)) (int (q_raw b))"

section \<open>Price\<close>

record price =
  p_raw :: int
  p_prec :: nat

definition PRICE_RAW_MAX :: int where "PRICE_RAW_MAX = 9223372036 * 1000000000"

definition PRICE_RAW_MIN :: int where "PRICE_RAW_MIN = - 9223372036 * 1000000000"

definition PRICE_UNDEF :: int where "PRICE_UNDEF = I64_MAX"

definition PRICE_ERROR :: int where "PRICE_ERROR = I64_MIN"

definition price_from_raw :: "int \<Rightarrow> nat \<Rightarrow> price option" where
  "price_from_raw raw precision = do {
     assert_that (raw = PRICE_ERROR \<or> raw = PRICE_UNDEF \<or> (raw \<ge> PRICE_RAW_MIN \<and> raw \<le> PRICE_RAW_MAX));
     (if raw = PRICE_UNDEF then assert_that (precision = 0) else Some ());
     expect_display (check_fixed_precision precision);
     Some \<lparr> p_raw = raw, p_prec = precision \<rparr>
   }"

definition price_from_raw_checked :: "int \<Rightarrow> nat \<Rightarrow> price checked" where
  "price_from_raw_checked raw precision =
     (if raw = PRICE_UNDEF \<and> precision \<noteq> 0
      then Inl (PredicateViolation ''precision must be 0 when raw is PRICE_UNDEF'')
      else if raw \<noteq> PRICE_ERROR \<and> raw \<noteq> PRICE_UNDEF \<and> (raw < PRICE_RAW_MIN \<or> raw > PRICE_RAW_MAX)
      then Inl (PredicateViolation ''raw value outside valid range'')
      else and_then (check_fixed_precision precision) (\<lambda>_.
        Inr \<lparr> p_raw = raw, p_prec = precision \<rparr>))"

definition price_zero :: "nat \<Rightarrow> price option" where
  "price_zero precision = do {
     expect_display (check_fixed_precision precision);
     Some \<lparr> p_raw = 0, p_prec = precision \<rparr>
   }"

definition price_max :: "nat \<Rightarrow> price option" where
  "price_max precision = do {
     expect_display (check_fixed_precision precision);
     Some \<lparr> p_raw = PRICE_RAW_MAX, p_prec = precision \<rparr>
   }"

definition price_min :: "nat \<Rightarrow> price option" where
  "price_min precision = do {
     expect_display (check_fixed_precision precision);
     Some \<lparr> p_raw = PRICE_RAW_MIN, p_prec = precision \<rparr>
   }"

definition price_is_sentinel :: "price \<Rightarrow> bool" where
  "price_is_sentinel p \<longleftrightarrow> p_raw p = PRICE_UNDEF \<or> p_raw p = PRICE_ERROR \<or> p_prec p = U8_MAX"

definition price_checked_add :: "price \<Rightarrow> price \<Rightarrow> price option" where
  "price_checked_add a b =
     (if price_is_sentinel a \<or> price_is_sentinel b then None
      else if \<not> raw_scales_match (p_prec a) (p_prec b) then None
      else do {
        raw \<leftarrow> i64_checked_add (p_raw a) (p_raw b);
        (if raw < PRICE_RAW_MIN \<or> raw > PRICE_RAW_MAX then None
         else Some \<lparr> p_raw = raw, p_prec = max (p_prec a) (p_prec b) \<rparr>)
      })"

definition price_checked_sub :: "price \<Rightarrow> price \<Rightarrow> price option" where
  "price_checked_sub a b =
     (if price_is_sentinel a \<or> price_is_sentinel b then None
      else if \<not> raw_scales_match (p_prec a) (p_prec b) then None
      else do {
        raw \<leftarrow> i64_checked_sub (p_raw a) (p_raw b);
        (if raw < PRICE_RAW_MIN \<or> raw > PRICE_RAW_MAX then None
         else Some \<lparr> p_raw = raw, p_prec = max (p_prec a) (p_prec b) \<rparr>)
      })"

definition price_is_positive :: "price \<Rightarrow> bool" where
  "price_is_positive p \<longleftrightarrow> p_raw p \<noteq> PRICE_UNDEF \<and> p_raw p > 0"

definition price_as_f64 :: "'f f64_ops \<Rightarrow> price \<Rightarrow> 'f" where
  "price_as_f64 F p = f64_div F (f64_of_int F (p_raw p)) (f64_of_int F (int FIXED_SCALAR))"

definition price_as_decimal :: "'d decimal_api \<Rightarrow> price \<Rightarrow> 'd" where
  "price_as_decimal D p =
     (let precision_diff = FIXED_PRECISION - p_prec p;
          rescaled_raw = p_raw p sdiv 10 ^ precision_diff
      in dec_from_i128_with_scale D rescaled_raw (p_prec p))"

definition i64_try_from :: "int \<Rightarrow> int option" where
  "i64_try_from x = (if in_i64 x then Some x else None)"

definition price_from_decimal_dp :: "'d decimal_api \<Rightarrow> 'd \<Rightarrow> nat \<Rightarrow> price checked" where
  "price_from_decimal_dp D decimal precision =
     (let exponent = i8_wrap (- i8_wrap (int (dec_scale D decimal)))
      in and_then (mantissa_exponent_to_fixed_i128 (dec_mantissa D decimal) exponent precision)
        (\<lambda>raw_i128. case i64_try_from raw_i128 of
           None \<Rightarrow> Inl (PredicateViolation ''Decimal value exceeds PriceRaw range'')
         | Some raw \<Rightarrow>
             if \<not> (raw \<ge> PRICE_RAW_MIN \<and> raw \<le> PRICE_RAW_MAX)
             then Inl (PredicateViolation ''Raw value outside valid range for Price'')
             else Inr \<lparr> p_raw = raw, p_prec = precision \<rparr>))"

definition price_from_decimal :: "'d decimal_api \<Rightarrow> 'd \<Rightarrow> price checked" where
  "price_from_decimal D decimal = price_from_decimal_dp D decimal (dec_scale D decimal mod 256)"

definition price_from_mantissa_exponent :: "int \<Rightarrow> int \<Rightarrow> nat \<Rightarrow> price option" where
  "price_from_mantissa_exponent mantissa exponent precision = do {
     expect_display (check_fixed_precision precision);
     if mantissa = 0 then Some \<lparr> p_raw = 0, p_prec = precision \<rparr>
     else do {
       raw_i128 \<leftarrow> expect_display (mantissa_exponent_to_fixed_i128 mantissa exponent precision);
       raw \<leftarrow> i64_try_from raw_i128;
       assert_that (raw \<ge> PRICE_RAW_MIN \<and> raw \<le> PRICE_RAW_MAX);
       Some \<lparr> p_raw = raw, p_prec = precision \<rparr>
     }
   }"

definition price_neg :: "price \<Rightarrow> price" where
  "price_neg p =
     (if p_raw p = PRICE_ERROR \<or> p_raw p = PRICE_UNDEF then p
      else \<lparr> p_raw = i64_wrap (- p_raw p), p_prec = p_prec p \<rparr>)"

definition price_add :: "price \<Rightarrow> price \<Rightarrow> price option" where
  "price_add a b = do {
     raw \<leftarrow> i64_checked_add (p_raw a) (p_raw b);
     Some \<lparr> p_raw = raw, p_prec = max (p_prec a) (p_prec b) \<rparr>
   }"

definition price_sub :: "price \<Rightarrow> price \<Rightarrow> price option" where
  "price_sub a b = do {
     raw \<leftarrow> i64_checked_sub (p_raw a) (p_raw b);
     Some \<lparr> p_raw = raw, p_prec = max (p_prec a) (p_prec b) \<rparr>
   }"

definition check_positive_price :: "price \<Rightarrow> string \<Rightarrow> unit checked" where
  "check_positive_price value param =
     (if p_raw value = PRICE_UNDEF then Inl (InvalidValue param)
      else if \<not> price_is_positive value then Inl (NotPositive param)
      else Inr ())"

definition price_cmp :: "price \<Rightarrow> price \<Rightarrow> ordering" where
  "price_cmp a b = cmp_int (p_raw a) (p_raw b)"

section \<open>Well-formed values\<close>

text \<open>A well-formed value is in range, at a supported precision and a multiple of its unit.\<close>

definition quantity_wf :: "quantity \<Rightarrow> bool" where
  "quantity_wf q \<longleftrightarrow> q_raw q \<le> QUANTITY_RAW_MAX \<and> q_prec q \<le> FIXED_PRECISION \<and>
     unit_at (q_prec q) dvd int (q_raw q)"

definition price_wf :: "price \<Rightarrow> bool" where
  "price_wf p \<longleftrightarrow> PRICE_RAW_MIN \<le> p_raw p \<and> p_raw p \<le> PRICE_RAW_MAX \<and> p_prec p \<le> FIXED_PRECISION \<and>
     unit_at (p_prec p) dvd p_raw p"

definition decimal_api_ok :: "'d decimal_api \<Rightarrow> bool" where
  "decimal_api_ok D \<longleftrightarrow>
     (\<forall>m s. \<bar>m\<bar> < 2 ^ 96 \<longrightarrow> s \<le> 28 \<longrightarrow>
        dec_mantissa D (dec_from_i128_with_scale D m s) = m \<and>
        dec_scale D (dec_from_i128_with_scale D m s) = s)"

definition pair_decimal :: "(int \<times> nat) decimal_api" where
  "pair_decimal = \<lparr> dec_mantissa = fst, dec_scale = snd, dec_from_i128_with_scale = Pair \<rparr>"

lemma pair_decimal_ok: "decimal_api_ok pair_decimal"
  by (simp add: decimal_api_ok_def pair_decimal_def)

lemma unit_at_dvd_max: "unit_at p dvd 1000000000"
proof -
  have "unit_at p dvd 10 ^ 9"
    unfolding unit_at_def by (rule le_imp_power_dvd) (simp add: FIXED_PRECISION_def)
  then show ?thesis by simp
qed

lemma unit_at_mono: "p \<le> q \<Longrightarrow> unit_at q dvd unit_at p"
  unfolding unit_at_def by (rule le_imp_power_dvd) simp

lemma unit_at_dvd_price_max: "unit_at p dvd PRICE_RAW_MAX"
  unfolding PRICE_RAW_MAX_def by (rule dvd_mult) (rule unit_at_dvd_max)

lemma price_max_in_i64: "in_i64 PRICE_RAW_MAX" "in_i64 (- PRICE_RAW_MAX)"
  by (simp_all add: in_i64_def PRICE_RAW_MAX_def I64_MIN_def I64_MAX_def)

lemma PRICE_RAW_MIN_neg: "PRICE_RAW_MIN = - PRICE_RAW_MAX"
  by (simp add: PRICE_RAW_MIN_def PRICE_RAW_MAX_def)

text \<open>
  Correcting the raw value of a price that lies in the price range gives a raw value that
  passes validation at its precision, stays in range, and is at least as close to the original
  as every other valid raw value; a raw value that was already valid is left alone.
\<close>

lemma correct_price_raw_nearest:
  assumes "PRICE_RAW_MIN \<le> raw" and "raw \<le> PRICE_RAW_MAX"
  shows "check_fixed_raw_i64 (correct_price_raw raw p) p = Inr ()
    \<and> PRICE_RAW_MIN \<le> correct_price_raw raw p \<and> correct_price_raw raw p \<le> PRICE_RAW_MAX
    \<and> (\<forall>m. check_fixed_raw_i64 m p = Inr () \<longrightarrow> \<bar>correct_price_raw raw p - raw\<bar> \<le> \<bar>m - raw\<bar>)"
proof -
  have "\<bar>raw\<bar> \<le> PRICE_RAW_MAX" using assms by (simp add: PRICE_RAW_MIN_neg)
  note c = correct_raw_i64_round [OF unit_at_dvd_price_max price_max_in_i64 this, of p]
  from c have "\<forall>m. unit_at p dvd m \<longrightarrow> \<bar>correct_raw_i64 raw p - raw\<bar> \<le> \<bar>m - raw\<bar>"
    using nearest_multiple [OF unit_at_pos(1)] by blast
  with c show ?thesis
    by (simp add: correct_price_raw_def check_fixed_raw_i64_Inr PRICE_RAW_MIN_neg abs_le_iff)
qed

text \<open>
  Banker's rounding of any \<open>i128\<close> mantissa by any number of excess digits, the cut-off at
  39 digits included, is within half a unit, and a value exactly half-way goes to the even
  neighbour.
\<close>

lemma bankers_round_half_to_even:
  assumes "in_i128 m"
  shows "2 * \<bar>m - bankers_round m e * 10 ^ e\<bar> \<le> 10 ^ e \<and>
         (2 * \<bar>m - bankers_round m e * 10 ^ e\<bar> = 10 ^ e \<longrightarrow> even (bankers_round m e))"
  using assms by (rule bankers_round_half_even)

text \<open>
  A mantissa and exponent that convert to a fixed-point raw value do so correctly rounded:
  the raw value is valid at the precision, denotes the decimal exactly when the decimal has no
  digits beyond the precision, and is otherwise within half a unit in the last place.
\<close>

lemma mantissa_exponent_to_fixed_correct:
  assumes "mantissa_exponent_to_fixed_i128 m x p = Inr r" and "in_i128 m"
  shows "check_fixed_raw_i128 r p = Inr () \<and>
    (- x \<le> int p \<longrightarrow> rat_of_int r / 10 ^ FIXED_PRECISION = of_int m * 10 powi x) \<and>
    \<bar>rat_of_int r / 10 ^ FIXED_PRECISION - of_int m * 10 powi x\<bar> \<le> 1 / (2 * 10 ^ p)"
proof -
  have "check_fixed_raw_i128 r p = Inr ()"
    using mantissa_exponent_valid [OF assms(1)]
    by (simp add: check_fixed_raw_i128_def unit_at_index Let_def smod_eq_0_iff)
  moreover have "- x \<le> int p \<Longrightarrow> rat_of_int r / 10 ^ FIXED_PRECISION = of_int m * 10 powi x"
    by (rule mantissa_exponent_exact [OF assms(1)])
  moreover have "int p < - x \<Longrightarrow>
      \<bar>rat_of_int r / 10 ^ FIXED_PRECISION - of_int m * 10 powi x\<bar> \<le> 1 / (2 * 10 ^ p)"
    by (rule mantissa_exponent_rounded [OF assms(1) _ assms(2)])
  ultimately show ?thesis by (cases "int p < - x") simp_all
qed

lemma i8_wrap_small: "- 128 \<le> x \<Longrightarrow> x < 128 \<Longrightarrow> i8_wrap x = x"
  by (simp add: i8_wrap_def)

lemma i8_scale: "s \<le> 28 \<Longrightarrow> i8_wrap (- i8_wrap (int s)) = - int s"
  by (simp add: i8_wrap_small)

text \<open>A mantissa with exactly the digits of the precision converts without rounding.\<close>

lemma mantissa_exponent_same_scale:
  assumes "p \<le> FIXED_PRECISION" and "in_i128 (m * unit_at p)"
  shows "mantissa_exponent_to_fixed_i128 m (- int p) p = Inr (m * unit_at p)"
proof -
  have e: "nat (int FIXED_PRECISION - int p) = FIXED_PRECISION - p" by simp
  have "int FIXED_PRECISION - int p \<le> 38" by (simp add: FIXED_PRECISION_def)
  then show ?thesis using assms
    by (simp add: mantissa_exponent_to_fixed_i128_def check_fixed_precision_def Let_def
        i128_checked_mul_def max_absorb1 e unit_at_def)
qed

lemma in_i64_i128: "in_i64 x \<Longrightarrow> in_i128 x"
  by (simp add: in_i64_def in_i128_def rust_bounds)

lemma price_wf_in_i64: "price_wf p \<Longrightarrow> in_i64 (p_raw p)"
  using price_max_in_i64 by (auto simp: price_wf_def in_i64_def PRICE_RAW_MIN_neg)

lemma sdiv_dvd_mult: "(u :: int) dvd a \<Longrightarrow> a sdiv u * u = a"
  using minus_smod_eq_mult_sdiv [of a u] smod_eq_0_iff [of u a]
  by (auto simp: signed_modulo_int_def mult.commute dvd_eq_mod_eq_0 [symmetric])

lemma sdiv_abs_le: "\<bar>a sdiv (b :: int)\<bar> \<le> \<bar>a\<bar>"
proof (cases "b = 0")
  case True
  then show ?thesis by simp
next
  case False
  then have "\<bar>a\<bar> div \<bar>b\<bar> \<le> \<bar>a\<bar> div 1" by (intro zdiv_mono2) auto
  then show ?thesis using False
    by (auto simp: signed_divide_int_def abs_mult sgn_if pos_imp_zdiv_nonneg_iff)
qed

text \<open>
  C30: a well-formed price survives the trip through the decimal type: converting it with
  \<open>as_decimal\<close> and reading the result back with \<open>from_decimal\<close> gives the same price, raw value
  and precision both.
\<close>

theorem price_decimal_roundtrip:
  assumes "decimal_api_ok D" and "price_wf p"
  shows "price_from_decimal D (price_as_decimal D p) = Inr p"
proof -
  define m where "m = p_raw p sdiv unit_at (p_prec p)"
  have p: "p_prec p \<le> FIXED_PRECISION" and r: "m * unit_at (p_prec p) = p_raw p"
    using assms(2) by (simp_all add: price_wf_def m_def sdiv_dvd_mult)
  have "\<bar>m\<bar> \<le> \<bar>p_raw p\<bar>" by (simp add: m_def sdiv_abs_le)
  also have "\<dots> < 2 ^ 96"
    using assms(2) by (auto simp: price_wf_def PRICE_RAW_MIN_def PRICE_RAW_MAX_def)
  finally have m: "\<bar>m\<bar> < 2 ^ 96" .
  have s: "p_prec p \<le> 28" using p by (simp add: FIXED_PRECISION_def)
  define d where "d = price_as_decimal D p"
  have d: "dec_mantissa D d = m" "dec_scale D d = p_prec p"
    using assms(1) m s
    by (auto simp: decimal_api_ok_def d_def price_as_decimal_def Let_def m_def unit_at_def)
  have i: "in_i64 (p_raw p)" using assms(2) by (rule price_wf_in_i64)
  have conv: "mantissa_exponent_to_fixed_i128 m (- int (p_prec p)) (p_prec p) = Inr (p_raw p)"
    using mantissa_exponent_same_scale [OF p, of m] in_i64_i128 [OF i] by (simp add: r)
  have "price_from_decimal D d = Inr \<lparr> p_raw = p_raw p, p_prec = p_prec p \<rparr>"
    using s i assms(2)
    by (simp add: price_from_decimal_def price_from_decimal_dp_def d i8_scale conv i64_try_from_def
        price_wf_def)
  then show ?thesis by (simp add: d_def)
qed

theorem price_decimal_roundtrip_witness:
  "price_from_decimal pair_decimal
     (price_as_decimal pair_decimal \<lparr> p_raw = - 1230000000, p_prec = 2 \<rparr>)
   = Inr \<lparr> p_raw = - 1230000000, p_prec = 2 \<rparr>"
  by (rule price_decimal_roundtrip [OF pair_decimal_ok])
    (simp add: price_wf_def PRICE_RAW_MIN_def PRICE_RAW_MAX_def FIXED_PRECISION_def unit_at_def)

lemma scales_match_small: "a \<le> FIXED_PRECISION \<Longrightarrow> b \<le> FIXED_PRECISION \<Longrightarrow> raw_scales_match a b"
  by (simp add: raw_scales_match_def max_absorb2)

lemma unit_at_max_dvd:
  "unit_at a dvd x \<Longrightarrow> unit_at b dvd y \<Longrightarrow> unit_at (max a b) dvd x \<and> unit_at (max a b) dvd y"
  using unit_at_mono [of a "max a b"] unit_at_mono [of b "max a b"]
  by (auto intro: dvd_trans)

lemma price_wf_not_sentinel: "price_wf p \<Longrightarrow> \<not> price_is_sentinel p"
  by (auto simp: price_wf_def price_is_sentinel_def PRICE_UNDEF_def PRICE_ERROR_def
      PRICE_RAW_MIN_def PRICE_RAW_MAX_def rust_bounds FIXED_PRECISION_def)

lemma quantity_wf_defined: "quantity_wf q \<Longrightarrow> q_raw q \<noteq> QUANTITY_UNDEF"
  by (auto simp: quantity_wf_def QUANTITY_UNDEF_def QUANTITY_RAW_MAX_def U64_MAX_def)

text \<open>
  Checked price arithmetic is exact and closed: on well-formed prices \<open>checked_add\<close> and
  \<open>checked_sub\<close> return a price exactly when the true sum or difference is in the price range;
  the result carries it, and is again well-formed.
\<close>

lemma price_checked_arith_exact:
  assumes "price_wf a" and "price_wf b"
  shows "(case price_checked_add a b of
            Some c \<Rightarrow> p_raw c = p_raw a + p_raw b \<and> p_prec c = max (p_prec a) (p_prec b) \<and> price_wf c
          | None \<Rightarrow> p_raw a + p_raw b < PRICE_RAW_MIN \<or> PRICE_RAW_MAX < p_raw a + p_raw b) \<and>
         (case price_checked_sub a b of
            Some c \<Rightarrow> p_raw c = p_raw a - p_raw b \<and> p_prec c = max (p_prec a) (p_prec b) \<and> price_wf c
          | None \<Rightarrow> p_raw a - p_raw b < PRICE_RAW_MIN \<or> PRICE_RAW_MAX < p_raw a - p_raw b)"
proof -
  have u: "unit_at (max (p_prec a) (p_prec b)) dvd p_raw a"
    "unit_at (max (p_prec a) (p_prec b)) dvd p_raw b"
    using unit_at_max_dvd assms by (auto simp: price_wf_def)
  have prec: "p_prec a \<le> FIXED_PRECISION" "p_prec b \<le> FIXED_PRECISION"
    using assms by (auto simp: price_wf_def)
  have rng: "in_i64 x" if "PRICE_RAW_MIN \<le> x" "x \<le> PRICE_RAW_MAX" for x
    using that price_max_in_i64 by (auto simp: in_i64_def PRICE_RAW_MIN_neg)
  have ns: "\<not> price_is_sentinel a" "\<not> price_is_sentinel b"
    using assms by (simp_all add: price_wf_not_sentinel)
  show ?thesis
    using u prec rng ns
    by (auto simp: price_checked_add_def price_checked_sub_def
        scales_match_small i64_checked_add_def i64_checked_sub_def price_wf_def not_le)
qed

end
