(* ===== verification/Enums.thy ===== *)
theory Enums
  imports Prelude
begin

text \<open>
  The enumerations of \<open>model/src/enums.rs\<close> the modelled components use, with the methods on them.
  Constructors carry the source's names; the two of \<open>OrderSideSpecified\<close> are \<open>BuySide\<close> and
  \<open>SellSide\<close>, since \<open>OrderSide\<close> has \<open>Buy\<close> and \<open>Sell\<close>.
\<close>

datatype order_side = NoOrderSide | Buy | Sell

datatype order_side_specified = BuySide | SellSide

datatype order_status =
    Initialized | Denied | Emulated | Released | Submitted | Accepted | Rejected | Canceled
  | Expired | Triggered | PendingUpdate | PendingCancel | PartiallyFilled | Filled

datatype order_type =
    Market | Limit | StopMarket | StopLimit | MarketToLimit | MarketIfTouched | LimitIfTouched
  | TrailingStopMarket | TrailingStopLimit

datatype time_in_force = Gtc | Ioc | Fok | Gtd | Day | AtTheOpen | AtTheClose

datatype trigger_type =
    NoTrigger | DefaultTrigger | LastPrice | MarkPrice | IndexPrice | BidAsk | DoubleLast
  | DoubleBidAsk | LastOrBidAsk | MidPoint

datatype contingency_type = NoContingency | Oco | Oto | Ouo

datatype liquidity_side = NoLiquiditySide | Maker | Taker

datatype position_side = NoPositionSide | Flat | Long | Short

datatype trailing_offset_type =
    NoTrailingOffset | PriceOffset | BasisPoints | Ticks | PriceTier

datatype book_type = L1_MBP | L2_MBP | L3_MBO

datatype book_action = Add | Update | Delete | Clear

datatype record_flag = F_LAST | F_TOB | F_SNAPSHOT | F_MBP | RESERVED_2 | RESERVED_1

fun as_specified :: "order_side \<Rightarrow> order_side_specified option" where
  "as_specified Buy = Some BuySide"
| "as_specified Sell = Some SellSide"
| "as_specified NoOrderSide = None"

fun opposite :: "order_side_specified \<Rightarrow> order_side_specified" where
  "opposite BuySide = SellSide"
| "opposite SellSide = BuySide"

fun as_order_side :: "order_side_specified \<Rightarrow> order_side" where
  "as_order_side BuySide = Buy"
| "as_order_side SellSide = Sell"

definition status_is_closed :: "order_status \<Rightarrow> bool" where
  "status_is_closed s \<longleftrightarrow> s \<in> {Denied, Rejected, Canceled, Expired, Filled}"

fun record_flag_bit :: "record_flag \<Rightarrow> nat" where
  "record_flag_bit F_LAST = 7"
| "record_flag_bit F_TOB = 6"
| "record_flag_bit F_SNAPSHOT = 5"
| "record_flag_bit F_MBP = 4"
| "record_flag_bit RESERVED_2 = 3"
| "record_flag_bit RESERVED_1 = 2"

text \<open>\<open>(self as u8) & value != 0\<close>: the flag is one bit, so the test is whether that bit is set.\<close>

definition flag_matches :: "record_flag \<Rightarrow> nat \<Rightarrow> bool" where
  "flag_matches f value \<longleftrightarrow> odd (value div 2 ^ record_flag_bit f)"

definition flag_value :: "record_flag \<Rightarrow> nat" where
  "flag_value f = 2 ^ record_flag_bit f"

lemma as_specified_order_side [simp]: "as_specified (as_order_side s) = Some s"
  by (cases s) simp_all

lemma opposite_opposite [simp]: "opposite (opposite s) = s"
  by (cases s) simp_all

lemma opposite_neq [simp]: "opposite s \<noteq> s" "s \<noteq> opposite s"
  by (cases s; simp)+

lemma as_specified_Some_iff: "as_specified s = Some t \<longleftrightarrow> s = as_order_side t"
  by (cases s; cases t; simp)

end
