(* ===== verification/Book_Level.thy ===== *)
theory Book_Level
  imports Rust_Collections Value_Types Enums
begin

text \<open>
  Price levels of the public order book: \<open>BookPrice\<close> with its side-dependent order
  (\<open>model/src/orderbook/ladder.rs\<close>), the synthetic order ids of aggregated books
  (\<open>aggregation.rs\<close>) and \<open>BookLevel\<close> (\<open>level.rs\<close>), a queue of orders in arrival order.

  \<open>BookOrder\<close> is the struct of the C header \<open>nautilus_trader/core/includes/model.h\<close>.  Its method
  \<open>to_book_price\<close> belongs to the module \<open>data\<close>, which is not part of the sources, and the hash of
  \<open>price_to_order_id\<close> belongs to the crate \<open>ahash\<close>: both are fields of the environment
  \<open>book_env\<close> that the operations take.  \<open>book_env_ok\<close> states what is documented of the first
  (a level built from an order uses the order's price and side), \<open>hash_collision_free\<close> what the
  comment of \<open>price_to_order_id\<close> claims of the second.
\<close>

section \<open>Prices with a side\<close>

record book_price =
  bp_value :: price
  bp_side :: order_side_specified

definition book_price_new :: "price \<Rightarrow> order_side_specified \<Rightarrow> book_price" where
  "book_price_new value side = \<lparr> bp_value = value, bp_side = side \<rparr>"

definition book_price_eq :: "book_price \<Rightarrow> book_price \<Rightarrow> bool" where
  "book_price_eq a b \<longleftrightarrow> bp_side a = bp_side b \<and> p_raw (bp_value a) = p_raw (bp_value b)"

definition book_price_cmp :: "book_price \<Rightarrow> book_price \<Rightarrow> ordering option" where
  "book_price_cmp a b =
     (if bp_side a \<noteq> bp_side b then None
      else Some (case bp_side a of
          BuySide \<Rightarrow> price_cmp (bp_value b) (bp_value a)
        | SellSide \<Rightarrow> price_cmp (bp_value a) (bp_value b)))"

section \<open>Orders of the book\<close>

type_synonym order_id = nat

record book_order =
  bo_side :: order_side
  bo_price :: price
  bo_size :: quantity
  bo_order_id :: order_id

record book_env =
  to_book_price :: "book_order \<Rightarrow> book_price option"
  hash_one :: "int \<Rightarrow> nat"

fun order_side_as_u64 :: "order_side \<Rightarrow> nat" where
  "order_side_as_u64 NoOrderSide = 0"
| "order_side_as_u64 Buy = 1"
| "order_side_as_u64 Sell = 2"

definition price_to_order_id :: "book_env \<Rightarrow> int \<Rightarrow> order_id" where
  "price_to_order_id E price_raw = hash_one E price_raw"

definition price_based_order_id :: "book_env \<Rightarrow> book_order \<Rightarrow> order_id" where
  "price_based_order_id E order = price_to_order_id E (p_raw (bo_price order))"

definition pre_process_order :: "book_env \<Rightarrow> book_type \<Rightarrow> book_order \<Rightarrow> nat \<Rightarrow> book_order" where
  "pre_process_order E book_type order flags =
     (case book_type of
        L1_MBP \<Rightarrow> order \<lparr> bo_order_id := order_side_as_u64 (bo_side order) \<rparr>
      | L2_MBP \<Rightarrow> order \<lparr> bo_order_id := price_based_order_id E order \<rparr>
      | L3_MBO \<Rightarrow>
          if flag_matches F_TOB flags
          then order \<lparr> bo_order_id := order_side_as_u64 (bo_side order) \<rparr>
          else if flag_matches F_MBP flags
          then order \<lparr> bo_order_id := price_based_order_id E order \<rparr>
          else order)"

section \<open>Levels\<close>

record book_level =
  bl_price :: book_price
  bl_orders :: "(order_id, book_order) index_map"

definition level_new :: "book_price \<Rightarrow> book_level" where
  "level_new price = \<lparr> bl_price = price, bl_orders = [] \<rparr>"

definition level_side :: "book_level \<Rightarrow> order_side_specified" where
  "level_side l = bp_side (bl_price l)"

definition level_len :: "book_level \<Rightarrow> nat" where
  "level_len l = length (bl_orders l)"

definition level_is_empty :: "book_level \<Rightarrow> bool" where
  "level_is_empty l \<longleftrightarrow> bl_orders l = []"

definition level_first :: "book_level \<Rightarrow> book_order option" where
  "level_first l = (case bl_orders l of [] \<Rightarrow> None | (key, order) # _ \<Rightarrow> Some order)"

definition level_get_orders :: "book_level \<Rightarrow> book_order list" where
  "level_get_orders l = im_values (bl_orders l)"

definition level_size :: "'f f64_ops \<Rightarrow> book_level \<Rightarrow> 'f" where
  "level_size F l = f64_sum F (map (\<lambda>o'. quantity_as_f64 F (bo_size o')) (im_values (bl_orders l)))"

definition level_size_raw :: "book_level \<Rightarrow> nat" where
  "level_size_raw l = fold (\<lambda>o' acc. u64_wrapping_add acc (q_raw (bo_size o'))) (im_values (bl_orders l)) 0"

definition level_exposure :: "'f f64_ops \<Rightarrow> book_level \<Rightarrow> 'f" where
  "level_exposure F l =
     f64_sum F (map (\<lambda>o'. f64_mul F (price_as_f64 F (bo_price o')) (quantity_as_f64 F (bo_size o')))
       (im_values (bl_orders l)))"

definition level_exposure_raw :: "'f f64_ops \<Rightarrow> book_level \<Rightarrow> nat" where
  "level_exposure_raw F l =
     fold (\<lambda>o' acc. u64_saturating_add acc
         (let exposure_f64 = f64_mul F (price_as_f64 F (bo_price o')) (quantity_as_f64 F (bo_size o'));
              scaled = f64_mul F exposure_f64 (f64_of_int F (int FIXED_SCALAR))
          in if f64_lt F (f64_of_int F (int U64_MAX)) scaled \<or> f64_eq F scaled (f64_of_int F (int U64_MAX))
             then U64_MAX
             else if f64_lt F scaled (f64_of_int F 0) then 0
             else f64_as_u64 F scaled))
       (im_values (bl_orders l)) 0"

definition level_add :: "book_order \<Rightarrow> book_level \<Rightarrow> book_level" where
  "level_add order l =
     (if \<not> quantity_is_positive (bo_size order) then l
      else l \<lparr> bl_orders := im_insert (bo_order_id order) order (bl_orders l) \<rparr>)"

definition level_add_bulk :: "book_order list \<Rightarrow> book_level \<Rightarrow> book_level" where
  "level_add_bulk orders l = fold level_add orders l"

definition level_from_order :: "book_env \<Rightarrow> book_order \<Rightarrow> book_level option" where
  "level_from_order E order = do {
     price \<leftarrow> to_book_price E order;
     Some (level_add order \<lparr> bl_price = price, bl_orders = [] \<rparr>)
   }"

definition level_update :: "book_order \<Rightarrow> book_level \<Rightarrow> book_level" where
  "level_update order l =
     (if q_raw (bo_size order) = 0
      then l \<lparr> bl_orders := im_shift_remove (bo_order_id order) (bl_orders l) \<rparr>
      else l \<lparr> bl_orders := im_insert (bo_order_id order) order (bl_orders l) \<rparr>)"

definition level_delete :: "book_order \<Rightarrow> book_level \<Rightarrow> book_level" where
  "level_delete order l = l \<lparr> bl_orders := im_shift_remove (bo_order_id order) (bl_orders l) \<rparr>"

definition level_remove_by_id :: "order_id \<Rightarrow> book_level \<Rightarrow> book_level option" where
  "level_remove_by_id order_id l = do {
     assert_that (im_get (bl_orders l) order_id \<noteq> None);
     Some (l \<lparr> bl_orders := im_shift_remove order_id (bl_orders l) \<rparr>)
   }"

lemmas level_op_defs [book_defs] =
  level_add_def level_update_def level_delete_def level_remove_by_id_def level_from_order_def
  level_is_empty_def level_len_def level_first_def level_get_orders_def level_new_def

section \<open>The order of book prices\<close>

text \<open>
  The rank of a price on its side: the smaller the better.  It turns the comparator into the
  order of the integers, so that a tree map keyed by the prices of one side is a map from ranks.
\<close>

definition price_rank :: "order_side_specified \<Rightarrow> price \<Rightarrow> int" where
  "price_rank s p = (case s of BuySide \<Rightarrow> - p_raw p | SellSide \<Rightarrow> p_raw p)"

definition bp_rank :: "book_price \<Rightarrow> int" where
  "bp_rank b = price_rank (bp_side b) (bp_value b)"

definition book_env_ok :: "book_env \<Rightarrow> bool" where
  "book_env_ok E \<longleftrightarrow>
     (\<forall>order s. bo_side order = as_order_side s \<longrightarrow>
        to_book_price E order = Some (book_price_new (bo_price order) s))"

definition hash_collision_free :: "book_env \<Rightarrow> bool" where
  "hash_collision_free E \<longleftrightarrow> inj_on (hash_one E) {I64_MIN..I64_MAX}"

text \<open>A concrete environment: the direct conversion and an offset of the raw price as its hash.\<close>

definition plain_book_env :: book_env where
  "plain_book_env =
     \<lparr> to_book_price = (\<lambda>order. map_option (book_price_new (bo_price order)) (as_specified (bo_side order))),
       hash_one = (\<lambda>raw. nat (raw - I64_MIN)) \<rparr>"

lemma plain_book_env_ok: "book_env_ok plain_book_env"
  by (simp add: book_env_ok_def plain_book_env_def)

lemma plain_hash_collision_free: "hash_collision_free plain_book_env"
  by (auto simp: hash_collision_free_def plain_book_env_def inj_on_def I64_MIN_def)

lemma bp_rank_new [simp]: "bp_rank (book_price_new p s) = price_rank s p"
  by (simp add: bp_rank_def book_price_new_def)

lemma book_price_new_simps [simp]:
  "bp_value (book_price_new p s) = p" "bp_side (book_price_new p s) = s"
  by (simp_all add: book_price_new_def)

lemma price_rank_eq_iff: "price_rank s p = price_rank s q \<longleftrightarrow> p_raw p = p_raw q"
  by (cases s) (simp_all add: price_rank_def)

lemma book_price_eq_rank: "bp_side a = bp_side b \<Longrightarrow> book_price_eq a b \<longleftrightarrow> bp_rank a = bp_rank b"
  by (simp add: book_price_eq_def bp_rank_def price_rank_eq_iff)

lemma book_price_cmp_rank:
  "bp_side a = s \<Longrightarrow> bp_side b = s \<Longrightarrow> book_price_cmp a b = Some (cmp_int (bp_rank a) (bp_rank b))"
  by (cases s) (simp_all add: book_price_cmp_def bp_rank_def price_rank_def price_cmp_def cmp_int_def)

interpretation side: btree_order book_price_cmp "\<lambda>b. bp_side b = s" bp_rank for s
  by unfold_locales (rule book_price_cmp_rank)

lemma as_order_side_neq [simp]: "as_order_side s \<noteq> NoOrderSide" "NoOrderSide \<noteq> as_order_side s"
  by (cases s; simp)+

lemma to_book_price_Some:
  "book_env_ok E \<Longrightarrow> bo_side order = as_order_side s \<Longrightarrow>
   to_book_price E order = Some (book_price_new (bo_price order) s)"
  by (simp add: book_env_ok_def)

lemma pre_process_order_same [simp]:
  "bo_side (pre_process_order E t order flags) = bo_side order"
  "bo_price (pre_process_order E t order flags) = bo_price order"
  "bo_size (pre_process_order E t order flags) = bo_size order"
  by (simp_all add: pre_process_order_def split: book_type.splits)

section \<open>Level invariant\<close>

text \<open>
  A level of a ladder holds at least one order, each under its own id, at the level's price and
  with a positive size.  \<open>level_inv\<close> leaves the emptiness aside, which a ladder repairs after an
  update.
\<close>

definition order_at :: "order_side_specified \<Rightarrow> int \<Rightarrow> order_id \<times> book_order \<Rightarrow> bool" where
  "order_at s r = (\<lambda>(i, order). bo_order_id order = i \<and> bo_side order = as_order_side s
     \<and> price_rank s (bo_price order) = r \<and> quantity_is_positive (bo_size order))"

definition level_inv :: "book_level \<Rightarrow> bool" where
  "level_inv l \<longleftrightarrow> im_wf (bl_orders l)
     \<and> (\<forall>p \<in> set (bl_orders l). order_at (level_side l) (bp_rank (bl_price l)) p)"

lemma level_new_simps [simp]:
  "bl_price (level_new p) = p" "level_side (level_new p) = bp_side p" "bl_orders (level_new p) = []"
  by (simp_all add: level_new_def level_side_def)

lemma level_price_simps [simp]:
  "bl_price (level_add order l) = bl_price l" "level_side (level_add order l) = level_side l"
  "bl_price (level_update order l) = bl_price l" "level_side (level_update order l) = level_side l"
  "bl_price (level_delete order l) = bl_price l" "level_side (level_delete order l) = level_side l"
  "level_side (l \<lparr> bl_orders := os \<rparr>) = level_side l"
  by (simp_all add: level_add_def level_update_def level_delete_def level_side_def)

lemma level_inv_new [simp]: "level_inv (level_new p)"
  by (simp add: level_inv_def level_new_def)

lemma level_inv_add:
  "level_inv l \<Longrightarrow> bo_side order = as_order_side (level_side l) \<Longrightarrow>
   price_rank (level_side l) (bo_price order) = bp_rank (bl_price l) \<Longrightarrow> level_inv (level_add order l)"
  by (auto simp: level_inv_def level_add_def set_im_insert order_at_def level_side_def)

lemma level_inv_remove:
  "level_inv l \<Longrightarrow> level_inv (l \<lparr> bl_orders := im_shift_remove i (bl_orders l) \<rparr>)"
  by (auto simp: level_inv_def set_im_remove order_at_def level_side_def)

lemma level_inv_update:
  "level_inv l \<Longrightarrow> bo_side order = as_order_side (level_side l) \<Longrightarrow>
   price_rank (level_side l) (bo_price order) = bp_rank (bl_price l) \<Longrightarrow>
   q_raw (bo_size order) \<noteq> QUANTITY_UNDEF \<Longrightarrow> level_inv (level_update order l)"
  using level_inv_remove [of l "bo_order_id order"]
  by (auto simp: level_inv_def level_update_def set_im_insert order_at_def level_side_def
      quantity_is_positive_def)

text \<open>Queue positions: a new order goes last, a replaced one keeps its place.\<close>

lemma level_add_queue:
  assumes "level_inv l" and "quantity_is_positive (bo_size order)"
  shows "im_keys (bl_orders (level_add order l)) =
    (if bo_order_id order \<in> set (im_keys (bl_orders l)) then im_keys (bl_orders l)
     else im_keys (bl_orders l) @ [bo_order_id order])"
  using assms by (simp add: level_add_def im_insert_keys)

lemma level_size_raw_exact:
  assumes "(\<Sum>order \<leftarrow> level_get_orders l. q_raw (bo_size order)) \<le> U64_MAX"
  shows "level_size_raw l = (\<Sum>order \<leftarrow> level_get_orders l. q_raw (bo_size order))"
proof -
  have "fold (\<lambda>o' acc. u64_wrapping_add acc (q_raw (bo_size o'))) os acc
      = acc + (\<Sum>order \<leftarrow> os. q_raw (bo_size order))"
    if "acc + (\<Sum>order \<leftarrow> os. q_raw (bo_size order)) \<le> U64_MAX" for os acc
    using that
  proof (induction os arbitrary: acc)
    case Nil
    then show ?case by simp
  next
    case (Cons a os)
    then show ?case by (simp add: u64_wrapping_add_exact add.assoc)
  qed
  from this [of 0 "level_get_orders l"] assms show ?thesis
    by (simp add: level_size_raw_def level_get_orders_def del: map_map)
qed

end
