(* ===== verification/Book_Ladder.thy ===== *)
theory Book_Ladder
  imports Book_Level
begin

text \<open>
  \<open>BookLadder\<close> of \<open>model/src/orderbook/ladder.rs\<close>: one side of an order book, as a tree map from
  book prices to levels and a cache from order ids to the price their order rests at.

  Every method of the struct is a definition.  Steps that several methods share are named:
  \<open>ladder_hit\<close> is the cached price of an order together with its level, \<open>ladder_put_level\<close> writes a
  modified level back and drops it when it is empty, \<open>ladder_place\<close> is the part of \<open>add\<close> that puts
  the order on its level.  Logging has no effect on the state and is left out.
\<close>

section \<open>State\<close>

datatype l1_batch_state = NoBatch | MbpBatch | SnapshotBatch

record book_ladder =
  ld_side :: order_side_specified
  ld_book_type :: book_type
  ld_levels :: "(book_price, book_level) btree_map"
  ld_cache :: "order_id \<rightharpoonup> book_price"
  ld_batch_state :: l1_batch_state

definition ladder_new :: "order_side_specified \<Rightarrow> book_type \<Rightarrow> book_ladder" where
  "ladder_new side book_type =
     \<lparr> ld_side = side, ld_book_type = book_type, ld_levels = [], ld_cache = Map.empty,
       ld_batch_state = NoBatch \<rparr>"

definition ladder_len :: "book_ladder \<Rightarrow> nat" where
  "ladder_len l = length (ld_levels l)"

definition ladder_clear :: "book_ladder \<Rightarrow> book_ladder" where
  "ladder_clear l = l \<lparr> ld_levels := [], ld_cache := Map.empty, ld_batch_state := NoBatch \<rparr>"

section \<open>Adding\<close>

definition cache_level :: "book_price \<times> book_level \<Rightarrow> (order_id \<rightharpoonup> book_price) \<Rightarrow> order_id \<rightharpoonup> book_price" where
  "cache_level = (\<lambda>(book_price, level) cache.
     fold (\<lambda>order_id cache. cache(order_id \<mapsto> book_price)) (im_keys (bl_orders level)) cache)"

definition ladder_retain_best_only :: "book_ladder \<Rightarrow> book_ladder" where
  "ladder_retain_best_only l =
     (if length (ld_levels l) \<le> 1 then l
      else case ld_levels l of
        [] \<Rightarrow> l
      | (best_price, _) # _ \<Rightarrow>
          let levels = filter (\<lambda>(price, _). book_price_eq price best_price) (ld_levels l)
          in l \<lparr> ld_levels := levels, ld_cache := fold cache_level levels Map.empty \<rparr>)"

definition ladder_handle_l1_add :: "book_order \<Rightarrow> nat \<Rightarrow> book_ladder \<Rightarrow> bool \<times> book_ladder" where
  "ladder_handle_l1_add order flags l =
     (if \<not> quantity_is_positive (bo_size order) then (False, ladder_clear l)
      else
        let is_mbp = flag_matches F_MBP flags;
            is_snapshot = flag_matches F_SNAPSHOT flags;
            is_last = flag_matches F_LAST flags
        in if is_snapshot \<and> is_last then
             (True, if ld_batch_state l \<noteq> SnapshotBatch then ladder_clear l else l)
           else if is_snapshot then
             (True, if ld_batch_state l \<noteq> SnapshotBatch
                    then (ladder_clear l) \<lparr> ld_batch_state := SnapshotBatch \<rparr> else l)
           else if is_mbp \<and> is_last then
             (True, if ld_batch_state l \<noteq> MbpBatch then ladder_clear l else l)
           else if is_mbp then
             (True, (ladder_clear l) \<lparr> ld_batch_state := MbpBatch \<rparr>)
           else (True, ladder_clear l))"

definition ladder_place :: "book_env \<Rightarrow> book_order \<Rightarrow> book_ladder \<Rightarrow> book_ladder option" where
  "ladder_place E order l = do {
     book_price \<leftarrow> to_book_price E order;
     let l = l \<lparr> ld_cache := (ld_cache l)(bo_order_id order \<mapsto> book_price) \<rparr>;
     found \<leftarrow> bt_get book_price_cmp book_price (ld_levels l);
     level \<leftarrow> (case found of
         Some level \<Rightarrow> Some (level_add order level)
       | None \<Rightarrow> level_from_order E order);
     levels \<leftarrow> bt_insert book_price_cmp book_price level (ld_levels l);
     Some (l \<lparr> ld_levels := levels \<rparr>)
   }"

definition ladder_end_batch :: "nat \<Rightarrow> book_ladder \<Rightarrow> book_ladder" where
  "ladder_end_batch flags l =
     (let is_batch = flag_matches F_MBP flags \<or> flag_matches F_SNAPSHOT flags
      in if ld_book_type l = L1_MBP \<and> is_batch
         then let l = ladder_retain_best_only l
              in if flag_matches F_LAST flags then l \<lparr> ld_batch_state := NoBatch \<rparr> else l
         else l)"

definition ladder_add :: "book_env \<Rightarrow> book_order \<Rightarrow> nat \<Rightarrow> book_ladder \<Rightarrow> book_ladder option" where
  "ladder_add E order flags l =
     (let (continue, l) =
            (if ld_book_type l = L1_MBP then ladder_handle_l1_add order flags l else (True, l))
      in if \<not> continue then Some l
         else if ld_book_type l \<noteq> L1_MBP \<and> \<not> quantity_is_positive (bo_size order) then Some l
         else map_option (ladder_end_batch flags) (ladder_place E order l))"

section \<open>Updating and removing\<close>

definition ladder_hit :: "order_id \<Rightarrow> book_ladder \<Rightarrow> (book_price \<times> book_level) option option" where
  "ladder_hit order_id l =
     (case ld_cache l order_id of
        None \<Rightarrow> Some None
      | Some price \<Rightarrow>
          map_option (map_option (Pair price)) (bt_get book_price_cmp price (ld_levels l)))"

definition ladder_put_level :: "book_price \<Rightarrow> book_level \<Rightarrow> book_ladder \<Rightarrow> book_ladder option" where
  "ladder_put_level price level l = do {
     levels \<leftarrow> bt_insert book_price_cmp price level (ld_levels l);
     levels \<leftarrow> (if level_is_empty level then bt_remove book_price_cmp price levels else Some levels);
     Some (l \<lparr> ld_levels := levels \<rparr>)
   }"

abbreviation uncache :: "order_id \<Rightarrow> book_ladder \<Rightarrow> book_ladder" where
  "uncache order_id l \<equiv> l \<lparr> ld_cache := (ld_cache l)(order_id := None) \<rparr>"

definition ladder_update_add :: "book_env \<Rightarrow> book_order \<Rightarrow> nat \<Rightarrow> book_ladder \<Rightarrow> book_ladder option" where
  "ladder_update_add E order flags l =
     (if quantity_is_positive (bo_size order) then ladder_add E order flags l else Some l)"

definition ladder_update :: "book_env \<Rightarrow> book_order \<Rightarrow> nat \<Rightarrow> book_ladder \<Rightarrow> book_ladder option" where
  "ladder_update E order flags l = do {
     hit \<leftarrow> ladder_hit (bo_order_id order) l;
     case hit of
       None \<Rightarrow> ladder_update_add E order flags l
     | Some (price, level) \<Rightarrow>
         if p_raw (bo_price order) = p_raw (bp_value (bl_price level)) then
           ladder_put_level price (level_update order level)
             (if q_raw (bo_size order) = 0 then uncache (bo_order_id order) l else l)
         else do {
           l \<leftarrow> ladder_put_level price (level_delete order level) (uncache (bo_order_id order) l);
           ladder_update_add E order flags l
         }
   }"

definition ladder_remove_order :: "order_id \<Rightarrow> book_ladder \<Rightarrow> book_ladder option" where
  "ladder_remove_order order_id l = do {
     hit \<leftarrow> ladder_hit order_id l;
     case hit of
       None \<Rightarrow> Some l
     | Some (price, level) \<Rightarrow>
         if im_get (bl_orders level) order_id \<noteq> None
         then do {
           level \<leftarrow> level_remove_by_id order_id level;
           ladder_put_level price level (uncache order_id l)
         }
         else Some l
   }"

definition ladder_delete :: "book_order \<Rightarrow> book_ladder \<Rightarrow> book_ladder option" where
  "ladder_delete order l = ladder_remove_order (bo_order_id order) l"

definition ladder_remove_level :: "book_price \<Rightarrow> book_ladder \<Rightarrow> (book_level option \<times> book_ladder) option" where
  "ladder_remove_level price l = do {
     found \<leftarrow> bt_get book_price_cmp price (ld_levels l);
     case found of
       None \<Rightarrow> Some (None, l)
     | Some level \<Rightarrow> do {
         levels \<leftarrow> bt_remove book_price_cmp price (ld_levels l);
         Some (Some level, l \<lparr> ld_levels := levels,
           ld_cache := fold (\<lambda>order_id cache. cache(order_id := None)) (im_keys (bl_orders level)) (ld_cache l) \<rparr>)
       }
   }"

section \<open>Queries\<close>

definition ladder_exposures :: "'f f64_ops \<Rightarrow> book_ladder \<Rightarrow> 'f" where
  "ladder_exposures F l = f64_sum F (map (level_exposure F) (bt_values (ld_levels l)))"

definition ladder_top :: "book_ladder \<Rightarrow> book_level option" where
  "ladder_top l = bt_first (ld_levels l)"

text \<open>
  The inner loop of \<open>simulate_fills\<close>: \<open>Inl fills\<close> is the early return, \<open>Inr\<close> carries the
  accumulated quantity and fills on to the next level.
\<close>

fun simulate_level ::
    "quantity \<Rightarrow> book_order list \<Rightarrow> quantity \<Rightarrow> (price \<times> quantity) list \<Rightarrow>
     ((price \<times> quantity) list + quantity \<times> (price \<times> quantity) list) option" where
  "simulate_level target [] cumulative fills = Some (Inr (cumulative, fills))"
| "simulate_level target (book_order # orders) cumulative fills = do {
     sum \<leftarrow> quantity_add cumulative (bo_size book_order);
     if q_raw sum \<ge> q_raw target
     then do {
       remainder \<leftarrow> quantity_sub target cumulative;
       Some (Inl (if quantity_is_positive remainder
                  then fills @ [(bo_price book_order, remainder)] else fills))
     }
     else simulate_level target orders sum (fills @ [(bo_price book_order, bo_size book_order)])
   }"

fun simulate_levels ::
    "order_side_specified \<Rightarrow> price \<Rightarrow> quantity \<Rightarrow> book_level list \<Rightarrow> quantity \<Rightarrow>
     (price \<times> quantity) list \<Rightarrow> (price \<times> quantity) list option" where
  "simulate_levels side limit target [] cumulative fills = Some fills"
| "simulate_levels side limit target (level # levels) cumulative fills =
     (if side = BuySide \<and> p_raw (bp_value (bl_price level)) < p_raw limit \<or>
         side \<noteq> BuySide \<and> p_raw (bp_value (bl_price level)) > p_raw limit
      then Some fills
      else do {
        r \<leftarrow> simulate_level target (im_values (bl_orders level)) cumulative fills;
        case r of
          Inl fills \<Rightarrow> Some fills
        | Inr (cumulative, fills) \<Rightarrow> simulate_levels side limit target levels cumulative fills
      })"

definition ladder_simulate_fills :: "book_order \<Rightarrow> book_ladder \<Rightarrow> (price \<times> quantity) list option" where
  "ladder_simulate_fills order l = do {
     zero \<leftarrow> quantity_zero (q_prec (bo_size order));
     simulate_levels (ld_side l) (bo_price order) (bo_size order) (bt_values (ld_levels l)) zero []
   }"

section \<open>Specification\<close>

text \<open>
  A ladder stands for its queue, the orders in the order in which they trade, and for the set of
  those orders.  \<open>queue_insert\<close> is price-time priority: a new order goes behind all orders at its
  price or a better one.
\<close>

abbreviation rank_of :: "order_side_specified \<Rightarrow> book_order \<Rightarrow> int" where
  "rank_of s order \<equiv> price_rank s (bo_price order)"

definition ladder_queue :: "book_ladder \<Rightarrow> book_order list" where
  "ladder_queue l = concat (map (\<lambda>level. im_values (bl_orders level)) (bt_values (ld_levels l)))"

definition queue_insert :: "order_side_specified \<Rightarrow> book_order \<Rightarrow> book_order list \<Rightarrow> book_order list" where
  "queue_insert s order q =
     takeWhile (\<lambda>o'. rank_of s o' \<le> rank_of s order) q @ [order] @
     dropWhile (\<lambda>o'. rank_of s o' \<le> rank_of s order) q"

text \<open>
  The invariant, on the ladder seen as a map \<open>L\<close> from ranks to levels and a cache: no level is
  empty, each belongs to its rank and side, and the cache holds exactly the ids of the resting
  orders, each with the price of the one level its order rests on.
\<close>

definition levels_ok :: "order_side_specified \<Rightarrow> (int \<rightharpoonup> book_level) \<Rightarrow> (order_id \<rightharpoonup> book_price) \<Rightarrow> bool" where
  "levels_ok s L cache \<longleftrightarrow>
     (\<forall>r level. L r = Some level \<longrightarrow> level_inv level \<and> level_side level = s \<and>
        bp_rank (bl_price level) = r \<and> bl_orders level \<noteq> [] \<and>
        (\<forall>i \<in> set (im_keys (bl_orders level)). \<exists>bp. cache i = Some bp \<and> bp_rank bp = r)) \<and>
     (\<forall>i bp. cache i = Some bp \<longrightarrow> bp_side bp = s \<and>
        (\<exists>level. L (bp_rank bp) = Some level \<and> i \<in> set (im_keys (bl_orders level))))"

definition ladder_inv :: "book_ladder \<Rightarrow> bool" where
  "ladder_inv l \<longleftrightarrow> side.bt_wf (ld_side l) (ld_levels l) \<and>
     levels_ok (ld_side l) (side.lkp (ld_levels l)) (ld_cache l)"

definition resting :: "(int \<rightharpoonup> book_level) \<Rightarrow> book_order set" where
  "resting L = {order. \<exists>r level i. L r = Some level \<and> (i, order) \<in> set (bl_orders level)}"

abbreviation ladder_levels :: "book_ladder \<Rightarrow> int \<rightharpoonup> book_level" where
  "ladder_levels l \<equiv> side.lkp (ld_levels l)"

text \<open>An id is free for an order when it is unknown or already rests at the order's price.\<close>

definition id_free :: "book_order \<Rightarrow> book_ladder \<Rightarrow> bool" where
  "id_free order l \<longleftrightarrow>
     (\<forall>bp. ld_cache l (bo_order_id order) = Some bp \<longrightarrow> bp_rank bp = rank_of (ld_side l) order)"

text \<open>\<open>becomes l l' S\<close>: the ladder \<open>l\<close> was taken to \<open>l'\<close>, which is sound and rests the orders \<open>S\<close>.\<close>

definition becomes :: "book_ladder \<Rightarrow> book_ladder \<Rightarrow> book_order set \<Rightarrow> bool" where
  "becomes l l' S \<longleftrightarrow> ladder_inv l' \<and> ld_side l' = ld_side l \<and> ld_book_type l' = ld_book_type l \<and>
     set (ladder_queue l') = S"

abbreviation without :: "order_id \<Rightarrow> book_ladder \<Rightarrow> book_order set" where
  "without i l \<equiv> {x \<in> set (ladder_queue l). bo_order_id x \<noteq> i}"

section \<open>Levels by rank\<close>

lemma levels_okI:
  assumes "\<And>r level. L r = Some level \<Longrightarrow> level_inv level \<and> level_side level = s \<and>
      bp_rank (bl_price level) = r \<and> bl_orders level \<noteq> []"
    and "\<And>r level i. L r = Some level \<Longrightarrow> i \<in> set (im_keys (bl_orders level)) \<Longrightarrow>
      \<exists>bp. cache i = Some bp \<and> bp_rank bp = r"
    and "\<And>i bp. cache i = Some bp \<Longrightarrow> bp_side bp = s \<and>
        (\<exists>level. L (bp_rank bp) = Some level \<and> i \<in> set (im_keys (bl_orders level)))"
  shows "levels_ok s L cache"
  using assms unfolding levels_ok_def by blast

lemma levels_ok_level:
  assumes "levels_ok s L cache" and "L r = Some level"
  shows "level_inv level" and "level_side level = s" and "bp_rank (bl_price level) = r"
    and "bl_orders level \<noteq> []"
    and "i \<in> set (im_keys (bl_orders level)) \<Longrightarrow> \<exists>bp. cache i = Some bp \<and> bp_rank bp = r"
  using assms unfolding levels_ok_def by blast+

lemma levels_ok_cache:
  assumes "levels_ok s L cache" and "cache i = Some bp"
  obtains level where "bp_side bp = s" and "L (bp_rank bp) = Some level"
    and "i \<in> set (im_keys (bl_orders level))"
  using assms unfolding levels_ok_def by blast

lemma level_inv_wf: "level_inv level \<Longrightarrow> im_wf (bl_orders level)"
  by (simp add: level_inv_def)

lemma levels_ok_order:
  assumes "levels_ok s L cache" and "L r = Some level" and "(i, order) \<in> set (bl_orders level)"
  shows "bo_order_id order = i" and "rank_of s order = r" and "bo_side order = as_order_side s"
    and "quantity_is_positive (bo_size order)"
  using assms levels_ok_level [OF assms(1,2)] by (auto simp: level_inv_def order_at_def)

lemma levels_ok_empty: "levels_ok s Map.empty Map.empty"
  by (simp add: levels_ok_def)

text \<open>Replacing the entries of one level, with the cache of one id.\<close>

lemma levels_ok_put:
  assumes ok: "levels_ok s L cache"
    and lv: "level_inv level" "level_side level = s" "bp_rank (bl_price level) = r" "bl_orders level \<noteq> []"
    and keys: "set (im_keys (bl_orders level)) =
      insert i (case L r of None \<Rightarrow> {} | Some old \<Rightarrow> set (im_keys (bl_orders old)))"
    and here: "\<And>bp. cache i = Some bp \<Longrightarrow> bp_rank bp = r"
    and bp: "bp_side bp = s" "bp_rank bp = r"
  shows "levels_ok s (L(r \<mapsto> level)) (cache(i \<mapsto> bp))"
proof (rule levels_okI)
  fix r' level'
  assume "(L(r \<mapsto> level)) r' = Some level'"
  then show "level_inv level' \<and> level_side level' = s \<and> bp_rank (bl_price level') = r' \<and> bl_orders level' \<noteq> []"
    using lv levels_ok_level [OF ok] by (auto split: if_splits)
next
  fix r' level' j
  assume L: "(L(r \<mapsto> level)) r' = Some level'" and j: "j \<in> set (im_keys (bl_orders level'))"
  show "\<exists>b. (cache(i \<mapsto> bp)) j = Some b \<and> bp_rank b = r'"
  proof (cases "r' = r")
    case True
    then have "j = i \<or> (\<exists>old. L r = Some old \<and> j \<in> set (im_keys (bl_orders old)))"
      using L j keys by (auto split: option.splits)
    then show ?thesis using True bp levels_ok_level(5) [OF ok] by fastforce
  next
    case False
    then have "L r' = Some level'" using L by simp
    from levels_ok_level(5) [OF ok this j] False here show ?thesis by fastforce
  qed
next
  fix j b
  assume c: "(cache(i \<mapsto> bp)) j = Some b"
  show "bp_side b = s \<and> (\<exists>level'. (L(r \<mapsto> level)) (bp_rank b) = Some level' \<and>
      j \<in> set (im_keys (bl_orders level')))"
  proof (cases "j = i")
    case True
    then show ?thesis using c bp keys by auto
  next
    case False
    then have "cache j = Some b" using c by simp
    then obtain lv0 where "bp_side b = s" and b: "L (bp_rank b) = Some lv0" "j \<in> set (im_keys (bl_orders lv0))"
      using levels_ok_cache [OF ok] by blast
    moreover have "j \<in> set (im_keys (bl_orders level))" if "bp_rank b = r"
      using that b keys by simp
    ultimately show ?thesis by simp
  qed
qed

lemma levels_ok_drop:
  assumes ok: "levels_ok s L cache" and L: "L r = Some old" and i: "i \<in> set (im_keys (bl_orders old))"
    and lv: "level_inv level" "level_side level = s" "bp_rank (bl_price level) = r"
    and keys: "set (im_keys (bl_orders level)) = set (im_keys (bl_orders old)) - {i}"
  shows "levels_ok s (L(r := (if bl_orders level = [] then None else Some level))) (cache(i := None))"
proof (rule levels_okI)
  fix r' level'
  assume "(L(r := (if bl_orders level = [] then None else Some level))) r' = Some level'"
  then show "level_inv level' \<and> level_side level' = s \<and> bp_rank (bl_price level') = r' \<and> bl_orders level' \<noteq> []"
    using lv levels_ok_level [OF ok] by (auto split: if_splits)
next
  fix r' level' j
  assume L': "(L(r := (if bl_orders level = [] then None else Some level))) r' = Some level'"
    and j: "j \<in> set (im_keys (bl_orders level'))"
  show "\<exists>b. (cache(i := None)) j = Some b \<and> bp_rank b = r'"
  proof (cases "r' = r")
    case True
    then have "j \<noteq> i" and "j \<in> set (im_keys (bl_orders old))"
      using L' j keys by (auto split: if_splits)
    then show ?thesis using True levels_ok_level(5) [OF ok L] by simp
  next
    case False
    then have "L r' = Some level'" using L' by simp
    moreover have "j \<noteq> i"
      using False levels_ok_level(5) [OF ok L i] levels_ok_level(5) [OF ok calculation j] by auto
    ultimately show ?thesis using levels_ok_level(5) [OF ok _ j] by simp
  qed
next
  fix j b
  assume c: "(cache(i := None)) j = Some b"
  then have j: "j \<noteq> i" and "cache j = Some b" by (auto split: if_splits)
  then obtain lv0 where "bp_side b = s" and b: "L (bp_rank b) = Some lv0" "j \<in> set (im_keys (bl_orders lv0))"
    using levels_ok_cache [OF ok] by blast
  moreover have "bl_orders level \<noteq> [] \<and> j \<in> set (im_keys (bl_orders level))" if "bp_rank b = r"
    using that b L keys j by auto
  ultimately show "bp_side b = s \<and>
      (\<exists>level'. (L(r := (if bl_orders level = [] then None else Some level))) (bp_rank b) = Some level' \<and>
        j \<in> set (im_keys (bl_orders level')))"
    by auto
qed

text \<open>What the two changes do to the resting orders.\<close>

lemma resting_id_rank:
  assumes "levels_ok s L cache" and "order \<in> resting L"
  shows "\<exists>bp. cache (bo_order_id order) = Some bp \<and> bp_rank bp = rank_of s order"
    and "\<exists>level. L (rank_of s order) = Some level \<and> (bo_order_id order, order) \<in> set (bl_orders level)"
proof -
  obtain r level i where L: "L r = Some level" and m: "(i, order) \<in> set (bl_orders level)"
    using assms(2) by (auto simp: resting_def)
  note o' = levels_ok_order [OF assms(1) L m]
  have "i \<in> set (im_keys (bl_orders level))" using m by force
  from levels_ok_level(5) [OF assms(1) L this] o'
  show "\<exists>bp. cache (bo_order_id order) = Some bp \<and> bp_rank bp = rank_of s order" by simp
  show "\<exists>level. L (rank_of s order) = Some level \<and> (bo_order_id order, order) \<in> set (bl_orders level)"
    using o' L m by auto
qed

lemma resting_put:
  assumes ok: "levels_ok s L cache"
    and entries: "set (bl_orders level) = insert (bo_order_id order, order)
      {p \<in> (case L r of None \<Rightarrow> {} | Some old \<Rightarrow> set (bl_orders old)). fst p \<noteq> bo_order_id order}"
    and here: "\<And>bp. cache (bo_order_id order) = Some bp \<Longrightarrow> bp_rank bp = r"
  shows "resting (L(r \<mapsto> level)) = insert order {x \<in> resting L. bo_order_id x \<noteq> bo_order_id order}"
proof (rule set_eqI)
  fix x
  have new: "(\<exists>i. (i, x) \<in> set (bl_orders level)) \<longleftrightarrow> x = order \<or>
      (\<exists>old. L r = Some old \<and> (bo_order_id x, x) \<in> set (bl_orders old) \<and> bo_order_id x \<noteq> bo_order_id order)"
  proof (cases "L r")
    case None
    then show ?thesis by (simp add: entries)
  next
    case (Some lv)
    then have "(i, x) \<in> set (bl_orders lv) \<Longrightarrow> bo_order_id x = i" for i
      using levels_ok_order(1) [OF ok] by blast
    then show ?thesis using Some by (auto simp: entries)
  qed
  have old: "x \<in> resting L \<longleftrightarrow> (\<exists>r lv. L r = Some lv \<and> (bo_order_id x, x) \<in> set (bl_orders lv))"
    using levels_ok_order(1) [OF ok] unfolding resting_def by blast
  have away: "bo_order_id x \<noteq> bo_order_id order"
    if "L r' = Some lv" "(bo_order_id x, x) \<in> set (bl_orders lv)" "r' \<noteq> r" for r' lv
  proof -
    have "bo_order_id x \<in> set (im_keys (bl_orders lv))" using that(2) by force
    from levels_ok_level(5) [OF ok that(1) this] that(3) here show ?thesis by auto
  qed
  have split: "x \<in> resting (L(r \<mapsto> level)) \<longleftrightarrow> (\<exists>i. (i, x) \<in> set (bl_orders level)) \<or>
      (\<exists>r' lv. r' \<noteq> r \<and> L r' = Some lv \<and> (bo_order_id x, x) \<in> set (bl_orders lv))"
    using levels_ok_order(1) [OF ok] unfolding resting_def by (auto split: if_splits)
  show "x \<in> resting (L(r \<mapsto> level)) \<longleftrightarrow> x \<in> insert order {x \<in> resting L. bo_order_id x \<noteq> bo_order_id order}"
  proof -
    define P where "P r' \<longleftrightarrow> (\<exists>lv. L r' = Some lv \<and> (bo_order_id x, x) \<in> set (bl_orders lv))" for r'
    have "x \<in> resting (L(r \<mapsto> level)) \<longleftrightarrow>
        (x = order \<or> P r \<and> bo_order_id x \<noteq> bo_order_id order) \<or> (\<exists>r'. r' \<noteq> r \<and> P r')"
      unfolding split new P_def by blast
    moreover have "x \<in> resting L \<longleftrightarrow> (\<exists>r'. P r')" unfolding old P_def ..
    moreover have "P r' \<Longrightarrow> r' \<noteq> r \<Longrightarrow> bo_order_id x \<noteq> bo_order_id order" for r'
      using away by (auto simp: P_def)
    ultimately show ?thesis by (simp only: insert_iff mem_Collect_eq) metis
  qed
qed

lemma resting_drop:
  assumes ok: "levels_ok s L cache" and L: "L r = Some old" and i: "i \<in> set (im_keys (bl_orders old))"
    and entries: "set (bl_orders level) = {p \<in> set (bl_orders old). fst p \<noteq> i}"
  shows "resting (L(r := (if bl_orders level = [] then None else Some level))) =
    {x \<in> resting L. bo_order_id x \<noteq> i}"
proof (rule set_eqI)
  fix x
  have away: "bo_order_id x \<noteq> i" if "L r' = Some lv" "(j, x) \<in> set (bl_orders lv)" "r' \<noteq> r" for r' lv j
  proof -
    have "bo_order_id x \<in> set (im_keys (bl_orders lv))"
      using levels_ok_order(1) [OF ok that(1,2)] that(2) by force
    from levels_ok_level(5) [OF ok that(1) this] levels_ok_level(5) [OF ok L i] that(3)
    show ?thesis by auto
  qed
  have id: "bo_order_id x = j" if "(j, x) \<in> set (bl_orders old)" for j
    using levels_ok_order(1) [OF ok L that] .
  have new: "(j, x) \<in> set (bl_orders level) \<longleftrightarrow> (j, x) \<in> set (bl_orders old) \<and> bo_order_id x \<noteq> i" for j
    using entries id by auto
  have "x \<in> resting (L(r := (if bl_orders level = [] then None else Some level))) \<longleftrightarrow>
      (\<exists>j. (j, x) \<in> set (bl_orders level)) \<or>
      (\<exists>r' lv j. r' \<noteq> r \<and> L r' = Some lv \<and> (j, x) \<in> set (bl_orders lv))"
    unfolding resting_def by (auto split: if_splits)
  also have "\<dots> \<longleftrightarrow> x \<in> resting L \<and> bo_order_id x \<noteq> i"
    unfolding new resting_def mem_Collect_eq using L away
    by (metis option.inject)
  finally show "x \<in> resting (L(r := (if bl_orders level = [] then None else Some level))) \<longleftrightarrow>
      x \<in> {x \<in> resting L. bo_order_id x \<noteq> i}"
    by simp
qed

section \<open>Operations on the levels\<close>

lemma ladder_invD:
  assumes "ladder_inv l"
  shows "side.bt_wf (ld_side l) (ld_levels l)" and "levels_ok (ld_side l) (ladder_levels l) (ld_cache l)"
  using assms by (simp_all add: ladder_inv_def)

lemma ladder_invI:
  "side.bt_wf (ld_side l) (ld_levels l) \<Longrightarrow> levels_ok (ld_side l) (ladder_levels l) (ld_cache l) \<Longrightarrow> ladder_inv l"
  by (simp add: ladder_inv_def)

lemma set_ladder_queue:
  assumes "side.bt_wf (ld_side l) (ld_levels l)"
  shows "set (ladder_queue l) = resting (ladder_levels l)"
proof -
  have iff: "ladder_levels l r = Some lv \<longleftrightarrow> (\<exists>k. (k, lv) \<in> set (ld_levels l) \<and> bp_rank k = r)" for r lv
    using side.at_iff [OF assms] .
  show ?thesis
    unfolding ladder_queue_def resting_def iff by (force simp: image_iff)
qed

lemma ladder_hit_inv:
  assumes "ladder_inv l"
  shows "ladder_hit i l = Some (case ld_cache l i of
    None \<Rightarrow> None | Some bp \<Rightarrow> map_option (Pair bp) (ladder_levels l (bp_rank bp)))"
proof (cases "ld_cache l i")
  case None
  then show ?thesis by (simp add: ladder_hit_def)
next
  case (Some bp)
  then have "bp_side bp = ld_side l" using levels_ok_cache [OF ladder_invD(2) [OF assms]] by blast
  then show ?thesis using side.get_at [OF ladder_invD(1) [OF assms]] Some by (simp add: ladder_hit_def)
qed

lemma ladder_put_level_wf:
  assumes "side.bt_wf s (ld_levels l)" and "bp_side price = s"
  obtains levels where "ladder_put_level price level l = Some (l \<lparr> ld_levels := levels \<rparr>)"
    and "side.bt_wf s levels"
    and "side.lkp levels = (ladder_levels l)(bp_rank price :=
      (if bl_orders level = [] then None else Some level))"
proof -
  obtain m where m: "bt_insert book_price_cmp price level (ld_levels l) = Some m" "side.bt_wf s m"
    "side.lkp m = (ladder_levels l)(bp_rank price \<mapsto> level)"
    using side.insert_at [OF assms] .
  show thesis
  proof (cases "bl_orders level = []")
    case True
    obtain m' where "bt_remove book_price_cmp price m = Some m'" "side.bt_wf s m'"
      "side.lkp m' = (side.lkp m)(bp_rank price := None)"
      using side.remove_at [OF m(2) assms(2)] .
    then show thesis using that [of m'] True m by (simp add: ladder_put_level_def level_is_empty_def)
  next
    case False
    then show thesis using that [of m] m by (simp add: ladder_put_level_def level_is_empty_def)
  qed
qed

lemma level_add_entries:
  assumes "level_inv level" and "quantity_is_positive (bo_size order)"
  shows "set (bl_orders (level_add order level)) = insert (bo_order_id order, order)
      {p \<in> set (bl_orders level). fst p \<noteq> bo_order_id order}"
    and "set (im_keys (bl_orders (level_add order level))) =
      insert (bo_order_id order) (set (im_keys (bl_orders level)))"
    and "bl_orders (level_add order level) \<noteq> []"
  using assms by (auto simp: level_add_def set_im_insert level_inv_def im_insert_keys)

lemma ladder_place_levels:
  assumes E: "book_env_ok E" and inv: "ladder_inv l"
    and order: "bo_side order = as_order_side (ld_side l)" "quantity_is_positive (bo_size order)"
    and free: "id_free order l"
  obtains levels where
    "ladder_place E order l = Some (l \<lparr> ld_levels := levels,
       ld_cache := (ld_cache l)(bo_order_id order \<mapsto> book_price_new (bo_price order) (ld_side l)) \<rparr>)"
    and "ladder_inv (l \<lparr> ld_levels := levels,
       ld_cache := (ld_cache l)(bo_order_id order \<mapsto> book_price_new (bo_price order) (ld_side l)) \<rparr>)"
    and "resting (side.lkp levels) =
      insert order {x \<in> resting (ladder_levels l). bo_order_id x \<noteq> bo_order_id order}"
proof -
  let ?s = "ld_side l" and ?r = "rank_of (ld_side l) order"
  let ?bp = "book_price_new (bo_price order) ?s"
  note wf = ladder_invD(1) [OF inv] and ok = ladder_invD(2) [OF inv]
  have bp: "to_book_price E order = Some ?bp" using to_book_price_Some [OF E order(1)] .
  have side: "bp_side ?bp = ?s" and rank: "bp_rank ?bp = ?r" by simp_all
  define lv where "lv = (case ladder_levels l ?r of
    None \<Rightarrow> level_add order (level_new ?bp) | Some old \<Rightarrow> level_add order old)"
  have old: "level_inv old \<and> level_side old = ?s \<and> bp_rank (bl_price old) = ?r"
    if "ladder_levels l ?r = Some old" for old
    using levels_ok_level [OF ok that] by simp
  have lv: "level_inv lv" "level_side lv = ?s" "bp_rank (bl_price lv) = ?r"
    using old order by (auto simp: lv_def split: option.splits intro!: level_inv_add)
  have ent: "set (bl_orders lv) = insert (bo_order_id order, order)
      {p \<in> (case ladder_levels l ?r of None \<Rightarrow> {} | Some old \<Rightarrow> set (bl_orders old)). fst p \<noteq> bo_order_id order}"
    and keys: "set (im_keys (bl_orders lv)) = insert (bo_order_id order)
      (case ladder_levels l ?r of None \<Rightarrow> {} | Some old \<Rightarrow> set (im_keys (bl_orders old)))"
    and ne: "bl_orders lv \<noteq> []"
    using level_add_entries [OF _ order(2)] old order(2)
    by (auto simp: lv_def split: option.splits simp del: set_map)
  obtain levels where ins: "bt_insert book_price_cmp ?bp lv (ld_levels l) = Some levels"
    and wf': "side.bt_wf ?s levels" and lk: "side.lkp levels = (ladder_levels l)(?r \<mapsto> lv)"
    using side.insert_at [OF wf side] by (metis rank)
  show thesis
  proof (rule that [of levels])
    show "ladder_place E order l = Some (l \<lparr> ld_levels := levels,
       ld_cache := (ld_cache l)(bo_order_id order \<mapsto> ?bp) \<rparr>)"
      using side.get_at [OF wf side] bp ins
      by (cases "ladder_levels l ?r")
        (simp_all add: ladder_place_def Let_def lv_def level_from_order_def level_new_def)
    have here: "bp_rank b = ?r" if "ld_cache l (bo_order_id order) = Some b" for b
      using free that by (simp add: id_free_def)
    show "ladder_inv (l \<lparr> ld_levels := levels, ld_cache := (ld_cache l)(bo_order_id order \<mapsto> ?bp) \<rparr>)"
      using wf' levels_ok_put [OF ok lv ne keys here side rank] by (simp add: ladder_inv_def lk)
    show "resting (side.lkp levels) =
        insert order {x \<in> resting (ladder_levels l). bo_order_id x \<noteq> bo_order_id order}"
      unfolding lk by (rule resting_put [OF ok ent here])
  qed
qed

section \<open>What the operations promise\<close>

lemma ladder_queue_resting: "ladder_inv l \<Longrightarrow> set (ladder_queue l) = resting (ladder_levels l)"
  by (rule set_ladder_queue) (rule ladder_invD)

lemma becomesI:
  "ladder_inv l' \<Longrightarrow> ld_side l' = ld_side l \<Longrightarrow> ld_book_type l' = ld_book_type l \<Longrightarrow>
   resting (ladder_levels l') = S \<Longrightarrow> becomes l l' S"
  by (simp add: becomes_def ladder_queue_resting)

lemma becomes_refl: "ladder_inv l \<Longrightarrow> becomes l l (set (ladder_queue l))"
  by (simp add: becomes_def)

lemma without_absent:
  assumes "ladder_inv l" and "ld_cache l i = None"
  shows "without i l = set (ladder_queue l)"
  using resting_id_rank(1) [OF ladder_invD(2) [OF assms(1)]] assms
  by (fastforce simp: ladder_queue_resting)

lemma ladder_inv_new: "ladder_inv (ladder_new s t)"
  by (simp add: ladder_inv_def ladder_new_def levels_ok_def)

lemma ladder_inv_clear: "ladder_inv (ladder_clear l)"
  by (simp add: ladder_inv_def ladder_clear_def levels_ok_def)

lemma ladder_clear_becomes: "becomes l (ladder_clear l) {}"
  using ladder_inv_clear [of l]
  by (simp add: becomes_def ladder_clear_def ladder_queue_def)

lemma ladder_inv_batch [simp]: "ladder_inv (l \<lparr> ld_batch_state := b \<rparr>) = ladder_inv l"
  by (simp add: ladder_inv_def)

lemma becomes_batch [simp]: "becomes l (l' \<lparr> ld_batch_state := b \<rparr>) S = becomes l l' S"
  by (simp add: becomes_def ladder_queue_def)

lemma becomes_trans: "becomes l l' S \<Longrightarrow> becomes l' l'' T \<Longrightarrow> becomes l l'' T"
  by (simp add: becomes_def)

lemma ladder_place_becomes:
  assumes "book_env_ok E" and "ladder_inv l"
    and "bo_side order = as_order_side (ld_side l)" and "quantity_is_positive (bo_size order)"
    and "id_free order l"
  shows "\<exists>l'. ladder_place E order l = Some l' \<and>
    becomes l l' (insert order (without (bo_order_id order) l))"
proof (rule ladder_place_levels [OF assms])
  fix levels
  let ?l = "l \<lparr> ld_levels := levels,
    ld_cache := (ld_cache l)(bo_order_id order \<mapsto> book_price_new (bo_price order) (ld_side l)) \<rparr>"
  assume "ladder_place E order l = Some ?l" and "ladder_inv ?l"
    and "resting (side.lkp levels) =
      insert order {x \<in> resting (ladder_levels l). bo_order_id x \<noteq> bo_order_id order}"
  moreover from this have "becomes l ?l (insert order (without (bo_order_id order) l))"
    by (intro becomesI) (simp_all add: ladder_queue_resting [OF assms(2)])
  ultimately show ?thesis by blast
qed

lemma ladder_add_becomes:
  assumes "book_env_ok E" and "ladder_inv l" and "ld_book_type l \<noteq> L1_MBP"
    and "bo_side order = as_order_side (ld_side l)" and "id_free order l"
  shows "\<exists>l'. ladder_add E order flags l = Some l' \<and>
    becomes l l' (if quantity_is_positive (bo_size order)
      then insert order (without (bo_order_id order) l) else set (ladder_queue l))"
proof (cases "quantity_is_positive (bo_size order)")
  case False
  then show ?thesis using assms(2,3) by (simp add: ladder_add_def becomes_refl)
next
  case True
  obtain l' where l': "ladder_place E order l = Some l'"
    "becomes l l' (insert order (without (bo_order_id order) l))"
    using ladder_place_becomes [OF assms(1,2,4) True assms(5)] by blast
  moreover have "ladder_end_batch flags l' = l'"
    using l'(2) assms(3) by (simp add: becomes_def ladder_end_batch_def)
  ultimately show ?thesis using True assms(3) by (simp add: ladder_add_def)
qed

text \<open>Taking an order out of its level.\<close>

lemma ladder_drop_becomes:
  assumes inv: "ladder_inv l" and c: "ld_cache l i = Some price"
    and L: "ladder_levels l (bp_rank price) = Some old"
    and lv: "level = old \<lparr> bl_orders := im_shift_remove i (bl_orders old) \<rparr>"
  shows "\<exists>l'. ladder_put_level price level (uncache i l) = Some l' \<and> ld_cache l' = (ld_cache l)(i := None) \<and>
    becomes l l' (without i l)"
proof -
  note ok = ladder_invD(2) [OF inv] and wf = ladder_invD(1) [OF inv]
  have side: "bp_side price = ld_side l" and i: "i \<in> set (im_keys (bl_orders old))"
    using levels_ok_cache [OF ok c] L by auto
  note old = levels_ok_level [OF ok L]
  have imwf: "im_wf (bl_orders old)" using old(1) by (rule level_inv_wf)
  have ent: "set (bl_orders level) = {p \<in> set (bl_orders old). fst p \<noteq> i}"
    using imwf by (simp add: lv set_im_remove)
  have keys: "set (im_keys (bl_orders level)) = set (im_keys (bl_orders old)) - {i}"
    using ent by (auto simp: image_iff)
  have lvinv: "level_inv level" "level_side level = ld_side l" "bp_rank (bl_price level) = bp_rank price"
    using old level_inv_remove [of old i] by (simp_all add: lv)
  obtain levels where p: "ladder_put_level price level (uncache i l) = Some ((uncache i l) \<lparr> ld_levels := levels \<rparr>)"
    and wf': "side.bt_wf (ld_side l) levels"
    and lk: "side.lkp levels = (ladder_levels l)(bp_rank price := (if bl_orders level = [] then None else Some level))"
    using ladder_put_level_wf [of "ld_side l" "uncache i l" price level] wf side by auto
  have "becomes l ((uncache i l) \<lparr> ld_levels := levels \<rparr>) (without i l)"
  proof (rule becomesI)
    show "ladder_inv ((uncache i l) \<lparr> ld_levels := levels \<rparr>)"
      using wf' levels_ok_drop [OF ok L i lvinv keys] by (simp add: ladder_inv_def lk)
    show "resting (ladder_levels ((uncache i l) \<lparr> ld_levels := levels \<rparr>)) = without i l"
      using resting_drop [OF ok L i ent] by (simp add: lk ladder_queue_resting [OF inv])
  qed simp_all
  with p show ?thesis by auto
qed

lemma ladder_remove_order_becomes:
  assumes inv: "ladder_inv l"
  shows "\<exists>l'. ladder_remove_order i l = Some l' \<and> becomes l l' (without i l)"
proof (cases "ld_cache l i")
  case None
  then show ?thesis
    using inv without_absent [OF inv None] becomes_refl [OF inv]
    by (simp add: ladder_remove_order_def ladder_hit_inv)
next
  case (Some bp)
  obtain old where L: "ladder_levels l (bp_rank bp) = Some old" and i: "i \<in> set (im_keys (bl_orders old))"
    using levels_ok_cache [OF ladder_invD(2) [OF inv] Some] by blast
  have "im_get (bl_orders old) i \<noteq> None" using i by (auto simp: map_of_eq_None_iff)
  moreover from this obtain y where "im_get (bl_orders old) i = Some y" by blast
  ultimately show ?thesis
    using ladder_drop_becomes [OF inv Some L refl]
    by (auto simp: ladder_remove_order_def ladder_hit_inv [OF inv] Some L level_remove_by_id_def)
qed

text \<open>Replacing an order at its price.\<close>

lemma ladder_replace_becomes:
  assumes inv: "ladder_inv l" and c: "ld_cache l (bo_order_id order) = Some price"
    and L: "ladder_levels l (bp_rank price) = Some old"
    and order: "bo_side order = as_order_side (ld_side l)" "rank_of (ld_side l) order = bp_rank price"
      "quantity_is_positive (bo_size order)"
  shows "\<exists>l'. ladder_put_level price (level_update order old) l = Some l' \<and>
    becomes l l' (insert order (without (bo_order_id order) l))"
proof -
  note ok = ladder_invD(2) [OF inv] and wf = ladder_invD(1) [OF inv]
  have side: "bp_side price = ld_side l" using levels_ok_cache [OF ok c] by blast
  note old = levels_ok_level [OF ok L]
  have upd: "level_update order old = level_add order old"
    using order(3) by (simp add: level_update_def level_add_def quantity_is_positive_def)
  note ent = level_add_entries [OF old(1) order(3)]
  have lv: "level_inv (level_add order old)" "level_side (level_add order old) = ld_side l"
    "bp_rank (bl_price (level_add order old)) = bp_rank price"
    using old order by (auto intro!: level_inv_add)
  obtain levels where p: "ladder_put_level price (level_update order old) l = Some (l \<lparr> ld_levels := levels \<rparr>)"
    and wf': "side.bt_wf (ld_side l) levels"
    and lk: "side.lkp levels = (ladder_levels l)(bp_rank price \<mapsto> level_add order old)"
    using ladder_put_level_wf [OF wf side, of "level_add order old"] ent(3) unfolding upd by auto
  have same: "(ld_cache l)(bo_order_id order \<mapsto> price) = ld_cache l"
    using c by auto
  have "becomes l (l \<lparr> ld_levels := levels \<rparr>) (insert order (without (bo_order_id order) l))"
  proof (rule becomesI)
    have "levels_ok (ld_side l) ((ladder_levels l)(bp_rank price \<mapsto> level_add order old))
        ((ld_cache l)(bo_order_id order \<mapsto> price))"
      by (rule levels_ok_put [OF ok lv ent(3)]) (use ent(2) L c side in auto)
    then show "ladder_inv (l \<lparr> ld_levels := levels \<rparr>)"
      using wf' by (simp add: ladder_inv_def lk same)
    have "resting ((ladder_levels l)(bp_rank price \<mapsto> level_add order old)) =
        insert order {x \<in> resting (ladder_levels l). bo_order_id x \<noteq> bo_order_id order}"
      by (rule resting_put [OF ok]) (use ent(1) L c in auto)
    then show "resting (ladder_levels (l \<lparr> ld_levels := levels \<rparr>)) = insert order (without (bo_order_id order) l)"
      by (simp add: lk ladder_queue_resting [OF inv])
  qed simp_all
  with p show ?thesis by auto
qed

lemma ladder_update_add_becomes:
  assumes "book_env_ok E" and "ladder_inv l" and "ld_book_type l \<noteq> L1_MBP"
    and "bo_side order = as_order_side (ld_side l)" and "ld_cache l (bo_order_id order) = None"
  shows "\<exists>l'. ladder_update_add E order flags l = Some l' \<and>
    becomes l l' (if quantity_is_positive (bo_size order)
      then insert order (set (ladder_queue l)) else set (ladder_queue l))"
  using ladder_add_becomes [OF assms(1-4)] assms(2,5) without_absent [OF assms(2,5)] becomes_refl [OF assms(2)]
  by (auto simp: ladder_update_add_def id_free_def)

lemma becomes_without: "becomes l l' (without i l) \<Longrightarrow> without i l' = without i l"
  by (auto simp: becomes_def)

lemma rank_of_level_price:
  assumes "ladder_inv l" and "ladder_levels l r = Some level"
  shows "p_raw (bo_price order) = p_raw (bp_value (bl_price level)) \<longleftrightarrow> rank_of (ld_side l) order = r"
  using levels_ok_level [OF ladder_invD(2) [OF assms(1)] assms(2)]
  by (auto simp: bp_rank_def level_side_def price_rank_eq_iff)

lemma ladder_update_becomes:
  assumes E: "book_env_ok E" and inv: "ladder_inv l" and t: "ld_book_type l \<noteq> L1_MBP"
    and order: "bo_side order = as_order_side (ld_side l)" "q_raw (bo_size order) \<noteq> QUANTITY_UNDEF"
  shows "\<exists>l'. ladder_update E order flags l = Some l' \<and>
    becomes l l' (if quantity_is_positive (bo_size order)
      then insert order (without (bo_order_id order) l) else without (bo_order_id order) l)"
proof (cases "ld_cache l (bo_order_id order)")
  case None
  then show ?thesis
    using ladder_update_add_becomes [OF E inv t order(1) None, of flags] without_absent [OF inv None]
    by (simp add: ladder_update_def ladder_hit_inv [OF inv] cong: if_cong)
next
  case (Some price)
  let ?i = "bo_order_id order"
  obtain old where L: "ladder_levels l (bp_rank price) = Some old"
    using levels_ok_cache [OF ladder_invD(2) [OF inv] Some] by blast
  have hit: "ladder_hit ?i l = Some (Some (price, old))" by (simp add: ladder_hit_inv [OF inv] Some L)
  show ?thesis
  proof (cases "rank_of (ld_side l) order = bp_rank price")
    case True
    then have same: "p_raw (bo_price order) = p_raw (bp_value (bl_price old))"
      using rank_of_level_price [OF inv L] by simp
    show ?thesis
    proof (cases "quantity_is_positive (bo_size order)")
      case pos: True
      then have "q_raw (bo_size order) \<noteq> 0" by (simp add: quantity_is_positive_def)
      then show ?thesis
        using ladder_replace_becomes [OF inv Some L order(1) True pos] pos
        by (simp add: ladder_update_def hit same)
    next
      case False
      then have "q_raw (bo_size order) = 0" using order(2) by (simp add: quantity_is_positive_def)
      then show ?thesis
        using ladder_drop_becomes [OF inv Some L refl] False
        by (auto simp: ladder_update_def hit same level_update_def)
    qed
  next
    case False
    then have other: "p_raw (bo_price order) \<noteq> p_raw (bp_value (bl_price old))"
      using rank_of_level_price [OF inv L] by simp
    obtain l1 where l1: "ladder_put_level price (level_delete order old) (uncache ?i l) = Some l1"
      and c1: "ld_cache l1 = (ld_cache l)(?i := None)" and b1: "becomes l l1 (without ?i l)"
      using ladder_drop_becomes [OF inv Some L refl] by (auto simp: level_delete_def)
    have inv1: "ladder_inv l1" "ld_book_type l1 \<noteq> L1_MBP" "bo_side order = as_order_side (ld_side l1)"
      and q1: "set (ladder_queue l1) = without ?i l"
      using b1 t order(1) by (simp_all add: becomes_def)
    have "ld_cache l1 ?i = None" by (simp add: c1)
    then obtain l2 where l2: "ladder_update_add E order flags l1 = Some l2"
      and b2: "becomes l1 l2 (if quantity_is_positive (bo_size order)
        then insert order (without ?i l) else without ?i l)"
      using ladder_update_add_becomes [OF E inv1] unfolding q1 by blast
    then show ?thesis using becomes_trans [OF b1 b2] by (simp add: ladder_update_def hit other l1)
  qed
qed

text \<open>Removing a whole level.\<close>

lemma fold_uncache: "fold (\<lambda>i cache. cache(i := None)) is cache = (\<lambda>i. if i \<in> set is then None else cache i)"
  by (induction "is" arbitrary: cache) (auto simp: fun_eq_iff)

lemma levels_ok_remove:
  assumes ok: "levels_ok s L cache" and L: "L r = Some old"
  shows "levels_ok s (L(r := None)) (\<lambda>i. if i \<in> set (im_keys (bl_orders old)) then None else cache i)"
proof (rule levels_okI)
  fix r' level
  assume "(L(r := None)) r' = Some level"
  then show "level_inv level \<and> level_side level = s \<and> bp_rank (bl_price level) = r' \<and> bl_orders level \<noteq> []"
    using levels_ok_level [OF ok] by (auto split: if_splits)
next
  fix r' level i
  assume "(L(r := None)) r' = Some level" and i: "i \<in> set (im_keys (bl_orders level))"
  then have L': "L r' = Some level" and "r' \<noteq> r" by (auto split: if_splits)
  moreover have "i \<notin> set (im_keys (bl_orders old))"
  proof
    assume "i \<in> set (im_keys (bl_orders old))"
    from levels_ok_level(5) [OF ok L this] levels_ok_level(5) [OF ok L' i] \<open>r' \<noteq> r\<close>
    show False by auto
  qed
  ultimately show "\<exists>bp. (if i \<in> set (im_keys (bl_orders old)) then None else cache i) = Some bp \<and> bp_rank bp = r'"
    using levels_ok_level(5) [OF ok L' i] by simp
next
  fix i bp
  assume "(if i \<in> set (im_keys (bl_orders old)) then None else cache i) = Some bp"
  then have i: "i \<notin> set (im_keys (bl_orders old))" and c: "cache i = Some bp" by (auto split: if_splits)
  obtain level where "bp_side bp = s" "L (bp_rank bp) = Some level" "i \<in> set (im_keys (bl_orders level))"
    using levels_ok_cache [OF ok c] by blast
  moreover from this i L have "bp_rank bp \<noteq> r" by auto
  ultimately show "bp_side bp = s \<and>
      (\<exists>level. (L(r := None)) (bp_rank bp) = Some level \<and> i \<in> set (im_keys (bl_orders level)))"
    by simp
qed

lemma resting_remove:
  assumes "levels_ok s L cache" and "L r = Some old"
  shows "resting (L(r := None)) = {x \<in> resting L. rank_of s x \<noteq> r}"
proof (rule set_eqI)
  fix x
  have rank: "rank_of s x = r'" if "L r' = Some lv" "(i, x) \<in> set (bl_orders lv)" for r' lv i
    using levels_ok_order(2) [OF assms(1) that] .
  show "x \<in> resting (L(r := None)) \<longleftrightarrow> x \<in> {x \<in> resting L. rank_of s x \<noteq> r}"
    unfolding resting_def mem_Collect_eq fun_upd_apply using rank by (metis option.distinct(1))
qed

lemma ladder_remove_level_becomes:
  assumes inv: "ladder_inv l" and side: "bp_side price = ld_side l"
  shows "\<exists>l'. ladder_remove_level price l = Some (ladder_levels l (bp_rank price), l') \<and>
    becomes l l' {x \<in> set (ladder_queue l). rank_of (ld_side l) x \<noteq> bp_rank price} \<and>
    ld_levels l' = filter (\<lambda>p. bp_rank (fst p) \<noteq> bp_rank price) (ld_levels l)"
proof (cases "ladder_levels l (bp_rank price)")
  case None
  have "{x \<in> resting (ladder_levels l). rank_of (ld_side l) x \<noteq> bp_rank price} = resting (ladder_levels l)"
    using resting_id_rank(2) [OF ladder_invD(2) [OF inv]] None by fastforce
  moreover have "filter (\<lambda>p. bp_rank (fst p) \<noteq> bp_rank price) (ld_levels l) = ld_levels l"
    using None by (intro filter_True) (auto simp: side.dom_at [of "ld_levels l", symmetric] domIff
        dest: side.at_in_set [OF ladder_invD(1) [OF inv]])
  ultimately show ?thesis
    using becomes_refl [OF inv] side.get_at [OF ladder_invD(1) [OF inv] side] None
    by (simp add: ladder_remove_level_def ladder_queue_resting [OF inv])
next
  case (Some old)
  note wf = ladder_invD(1) [OF inv] and ok = ladder_invD(2) [OF inv]
  obtain m where m: "bt_remove book_price_cmp price (ld_levels l) = Some m"
    and wf': "side.bt_wf (ld_side l) m" and lk: "side.lkp m = (ladder_levels l)(bp_rank price := None)"
    and fm: "m = filter (\<lambda>p. bp_rank (fst p) \<noteq> bp_rank price) (ld_levels l)"
    using side.remove_at [OF wf side] .
  let ?l = "l \<lparr> ld_levels := m,
    ld_cache := (\<lambda>i. if i \<in> set (im_keys (bl_orders old)) then None else ld_cache l i) \<rparr>"
  have "ladder_remove_level price l = Some (Some old, ?l)"
    using side.get_at [OF wf side] Some m by (simp add: ladder_remove_level_def fold_uncache)
  moreover have "becomes l ?l {x \<in> set (ladder_queue l). rank_of (ld_side l) x \<noteq> bp_rank price}"
    using wf' levels_ok_remove [OF ok Some] resting_remove [OF ok Some]
    by (intro becomesI) (simp_all add: ladder_inv_def lk ladder_queue_resting [OF inv])
  ultimately show ?thesis using Some fm by auto
qed

end
