(* ===== verification/Ladder_Queue.thy ===== *)
theory Ladder_Queue
  imports Book_Ladder
begin

text \<open>
  The queue of a ladder: an order that joins goes behind all orders at its price or a better one
  (price-time priority), the queue is ordered by price and holds each id once, its head is the
  top level, and \<open>simulate_fills\<close> takes from the queue exactly what a reference walk takes.
\<close>

definition level_queue :: "book_level list \<Rightarrow> book_order list" where
  "level_queue levels = concat (map (\<lambda>level. im_values (bl_orders level)) levels)"

text \<open>
  The reference: walk the queue up to the first price beyond the limit and take from each order
  what is still wanted.
\<close>

fun take_fills :: "nat \<Rightarrow> book_order list \<Rightarrow> (int \<times> nat) list" where
  "take_fills want [] = []"
| "take_fills want (x # q) =
     (if want = 0 then []
      else if want \<le> q_raw (bo_size x) then [(p_raw (bo_price x), want)]
      else (p_raw (bo_price x), q_raw (bo_size x)) # take_fills (want - q_raw (bo_size x)) q)"

abbreviation raw_fills :: "(price \<times> quantity) list \<Rightarrow> (int \<times> nat) list" where
  "raw_fills fills \<equiv> map (\<lambda>(p, q). (p_raw p, q_raw q)) fills"

definition queue_total :: "book_order list \<Rightarrow> nat" where
  "queue_total q = (\<Sum>x \<leftarrow> q. q_raw (bo_size x))"

section \<open>Price-time priority\<close>

lemma level_queue_simps [simp]:
  "level_queue [] = []" "level_queue (lv # lvs) = im_values (bl_orders lv) @ level_queue lvs"
  "level_queue (lvs @ lvs') = level_queue lvs @ level_queue lvs'"
  by (simp_all add: level_queue_def)

lemma set_level_queue:
  "x \<in> set (level_queue (map snd m)) \<longleftrightarrow> (\<exists>k lv i. (k, lv) \<in> set m \<and> (i, x) \<in> set (bl_orders lv))"
proof (induction m)
  case (Cons p m)
  have "x \<in> snd ` set (bl_orders (snd p)) \<longleftrightarrow> (\<exists>i. (i, x) \<in> set (bl_orders (snd p)))" by force
  then show ?case using Cons by (cases p) (simp, blast)
qed simp

lemma ladder_queue_levels: "ladder_queue l = level_queue (bt_values (ld_levels l))"
  by (simp add: ladder_queue_def level_queue_def)

lemma ladder_level_in:
  assumes "ladder_inv l" and "(k, lv) \<in> set (ld_levels l)"
  shows "ladder_levels l (bp_rank k) = Some lv"
  using side.at_in_set [OF ladder_invD(1) [OF assms(1)] assms(2)] .

lemma level_queue_ranks:
  assumes inv: "ladder_inv l" and sub: "set ps \<subseteq> set (ld_levels l)"
    and x: "x \<in> set (level_queue (map snd ps))"
  shows "\<exists>p \<in> set ps. rank_of (ld_side l) x = bp_rank (fst p)"
proof -
  obtain k lv i where p: "(k, lv) \<in> set ps" and m: "(i, x) \<in> set (bl_orders lv)"
    using x unfolding set_level_queue by blast
  then have "ladder_levels l (bp_rank k) = Some lv"
    using side.at_in_set [OF ladder_invD(1) [OF inv]] sub by blast
  from levels_ok_order(2) [OF ladder_invD(2) [OF inv] this m] p show ?thesis by force
qed

lemma takeWhile_dropWhile_split:
  assumes "\<forall>x \<in> set xs. P x" and "\<forall>x \<in> set ys. \<not> P x"
  shows "takeWhile P (xs @ ys) = xs \<and> dropWhile P (xs @ ys) = ys"
  using assms by (cases ys) (simp_all add: takeWhile_append2 dropWhile_append2)

text \<open>The queue of a ladder in three parts: before, at and behind a rank.\<close>

lemma ladder_queue_split:
  fixes r :: int
  assumes inv: "ladder_inv l"
  defines "before \<equiv> takeWhile (\<lambda>p. bp_rank (fst p) < r) (ld_levels l)"
    and "behind \<equiv> dropWhile (\<lambda>p. bp_rank (fst p) \<le> r) (ld_levels l)"
  shows "ladder_queue l = level_queue (map snd before) @
      (case ladder_levels l r of None \<Rightarrow> [] | Some lv \<Rightarrow> im_values (bl_orders lv)) @ level_queue (map snd behind)"
    and "x \<in> set (level_queue (map snd before)) \<Longrightarrow> rank_of (ld_side l) x < r"
    and "x \<in> set (level_queue (map snd behind)) \<Longrightarrow> r < rank_of (ld_side l) x"
proof -
  note wf = ladder_invD(1) [OF inv]
  show "ladder_queue l = level_queue (map snd before) @
      (case ladder_levels l r of None \<Rightarrow> [] | Some lv \<Rightarrow> im_values (bl_orders lv)) @ level_queue (map snd behind)"
    using arg_cong [OF side.split_at [OF wf, of r], of level_queue]
    unfolding ladder_queue_levels before_def behind_def by (simp split: option.splits)
  show "rank_of (ld_side l) x < r" if "x \<in> set (level_queue (map snd before))"
    using level_queue_ranks [OF inv _ that] side.ranks_below set_takeWhileD
    unfolding before_def by (metis (no_types, lifting) subsetI)
  show "r < rank_of (ld_side l) x" if "x \<in> set (level_queue (map snd behind))"
    using level_queue_ranks [OF inv _ that] side.ranks_above [OF wf] set_dropWhileD
    unfolding behind_def by (metis (no_types, lifting) subsetI)
qed

lemma ladder_place_queue:
  assumes E: "book_env_ok E" and inv: "ladder_inv l"
    and order: "bo_side order = as_order_side (ld_side l)" "quantity_is_positive (bo_size order)"
    and new: "ld_cache l (bo_order_id order) = None" and p: "ladder_place E order l = Some l'"
  shows "ladder_queue l' = queue_insert (ld_side l) order (ladder_queue l)"
proof -
  let ?s = "ld_side l" and ?r = "rank_of (ld_side l) order"
  let ?bp = "book_price_new (bo_price order) ?s"
  note wf = ladder_invD(1) [OF inv] and ok = ladder_invD(2) [OF inv]
  define before behind where "before = level_queue (map snd (takeWhile (\<lambda>p. bp_rank (fst p) < ?r) (ld_levels l)))"
    and "behind = level_queue (map snd (dropWhile (\<lambda>p. bp_rank (fst p) \<le> ?r) (ld_levels l)))"
  define mid where "mid = (case ladder_levels l ?r of None \<Rightarrow> [] | Some lv \<Rightarrow> im_values (bl_orders lv))"
  define lv where "lv = (case ladder_levels l ?r of
    None \<Rightarrow> level_add order (level_new ?bp) | Some old \<Rightarrow> level_add order old)"
  have q: "ladder_queue l = before @ mid @ behind"
    and lt: "\<forall>x \<in> set before. rank_of ?s x < ?r" and gt: "\<forall>x \<in> set behind. ?r < rank_of ?s x"
    using ladder_queue_split [OF inv, where r = ?r] by (simp_all add: before_def behind_def mid_def)
  have eq: "\<forall>x \<in> set mid. rank_of ?s x = ?r"
  proof (cases "ladder_levels l ?r")
    case (Some old)
    then show ?thesis using levels_ok_order(2) [OF ok Some] by (auto simp: mid_def)
  qed (simp add: mid_def)
  have fresh: "bo_order_id order \<notin> set (im_keys (bl_orders old))" if "ladder_levels l ?r = Some old" for old
    using levels_ok_level(5) [OF ok that] new by fastforce
  have app: "im_insert i x m = m @ [(i, x)]" if "i \<notin> set (im_keys m)" for i and x :: book_order and m
    using that by (induction i x m rule: im_insert.induct) auto
  have lvq: "im_values (bl_orders lv) = mid @ [order]"
    using order(2) fresh by (auto simp: lv_def mid_def level_add_def app split: option.splits)
  have bp: "to_book_price E order = Some ?bp" using to_book_price_Some [OF E order(1)] .
  have "bt_insert book_price_cmp ?bp lv (ld_levels l) = Some (ld_levels l')"
    using p side.get_at [OF wf, of ?bp] bp
    by (cases "ladder_levels l ?r")
      (auto simp: ladder_place_def Let_def lv_def level_from_order_def level_new_def split: bind_splits)
  from side.insert_values [OF wf _ this]
  have "ladder_queue l' = before @ im_values (bl_orders lv) @ behind"
    by (simp add: ladder_queue_levels before_def behind_def)
  then have "ladder_queue l' = (before @ mid) @ [order] @ behind" by (simp add: lvq)
  moreover have "rank_of ?s x \<le> ?r" if "x \<in> set (before @ mid)" for x
    using that lt [rule_format, of x] eq [rule_format, of x] by (cases "x \<in> set before") simp_all
  moreover have "\<not> rank_of ?s x \<le> ?r" if "x \<in> set behind" for x
    using gt [rule_format, OF that] by simp
  ultimately have "ladder_queue l' = (before @ mid) @ [order] @ behind" and
    "takeWhile (\<lambda>x. rank_of ?s x \<le> ?r) ((before @ mid) @ behind) = before @ mid \<and>
      dropWhile (\<lambda>x. rank_of ?s x \<le> ?r) ((before @ mid) @ behind) = behind"
    using takeWhile_dropWhile_split [of "before @ mid" "\<lambda>x. rank_of ?s x \<le> ?r" behind] by blast+
  then show ?thesis by (simp add: queue_insert_def q)
qed

text \<open>The queue is ordered by price, best first, and holds each id once.\<close>

lemma level_queue_sorted:
  assumes "side.bt_wf s m" and "\<And>k lv i x. (k, lv) \<in> set m \<Longrightarrow> (i, x) \<in> set (bl_orders lv) \<Longrightarrow> rank_of s x = bp_rank k"
  shows "sorted_wrt (\<lambda>a b. rank_of s a \<le> rank_of s b) (level_queue (map snd m))"
  using assms
proof (induction m)
  case (Cons p m)
  obtain k lv where p: "p = (k, lv)" by (cases p)
  have here: "rank_of s x = bp_rank k" if "x \<in> set (im_values (bl_orders lv))" for x
    using Cons.prems(2) [of k lv _ x] that by (auto simp: p)
  have later: "bp_rank k \<le> rank_of s x" if x: "x \<in> set (level_queue (map snd m))" for x
  proof -
    obtain k' lv' i where m: "(k', lv') \<in> set m" "(i, x) \<in> set (bl_orders lv')"
      using x unfolding set_level_queue by blast
    then have "rank_of s x = bp_rank k'" using Cons.prems(2) [of k' lv' i x] by simp
    moreover have "bp_rank k < bp_rank k'" using Cons.prems(1) m(1) by (auto simp: p side.bt_wf_Cons_iff)
    ultimately show ?thesis by simp
  qed
  have "sorted_wrt (\<lambda>a b. rank_of s a \<le> rank_of s b) (im_values (bl_orders lv))"
    using here by (auto simp: sorted_wrt_iff_nth_less)
  moreover have "sorted_wrt (\<lambda>a b. rank_of s a \<le> rank_of s b) (level_queue (map snd m))"
    using Cons.IH Cons.prems by (auto simp: p side.bt_wf_Cons_iff)
  ultimately show ?case using here later by (auto simp: p sorted_wrt_append)
qed simp

lemma ladder_queue_sorted:
  assumes inv: "ladder_inv l"
  shows "sorted_wrt (\<lambda>a b. rank_of (ld_side l) a \<le> rank_of (ld_side l) b) (ladder_queue l)"
  unfolding ladder_queue_levels
proof (rule level_queue_sorted [OF ladder_invD(1) [OF inv]])
  fix k lv i x
  assume "(k, lv) \<in> set (ld_levels l)" and x: "(i, x) \<in> set (bl_orders lv)"
  then have "ladder_levels l (bp_rank k) = Some lv" using side.at_in_set [OF ladder_invD(1) [OF inv]] by blast
  from levels_ok_order(2) [OF ladder_invD(2) [OF inv] this x] show "rank_of (ld_side l) x = bp_rank k" .
qed

lemma ladder_queue_Nil_iff:
  assumes inv: "ladder_inv l"
  shows "ladder_queue l = [] \<longleftrightarrow> ld_levels l = []"
proof (cases "ld_levels l")
  case (Cons p m)
  then have "ladder_levels l (bp_rank (fst p)) = Some (snd p)" by (cases p) simp
  then have "bl_orders (snd p) \<noteq> []" using levels_ok_level(4) [OF ladder_invD(2) [OF inv]] by blast
  then show ?thesis using Cons by (simp add: ladder_queue_levels)
qed (simp add: ladder_queue_levels)

lemma ladder_top_head:
  assumes inv: "ladder_inv l"
  shows "ladder_top l = None \<longleftrightarrow> ladder_queue l = []"
    and "ladder_top l = Some lv \<Longrightarrow> \<exists>q. ladder_queue l = im_values (bl_orders lv) @ q \<and> bl_orders lv \<noteq> [] \<and>
      level_side lv = ld_side l \<and>
      (\<forall>x \<in> set (im_values (bl_orders lv)). rank_of (ld_side l) x = bp_rank (bl_price lv)) \<and>
      (\<forall>x \<in> set (ladder_queue l). bp_rank (bl_price lv) \<le> rank_of (ld_side l) x)"
proof -
  show "ladder_top l = None \<longleftrightarrow> ladder_queue l = []"
    unfolding ladder_queue_Nil_iff [OF inv] by (simp add: ladder_top_def split: list.splits)
  assume top: "ladder_top l = Some lv"
  then obtain k m where m: "ld_levels l = (k, lv) # m" by (auto simp: ladder_top_def split: list.splits)
  have L: "ladder_levels l (bp_rank k) = Some lv" by (simp add: m)
  note lv = levels_ok_level [OF ladder_invD(2) [OF inv] L]
  have q: "ladder_queue l = im_values (bl_orders lv) @ level_queue (map snd m)" by (simp add: ladder_queue_levels m)
  obtain x where "x \<in> set (im_values (bl_orders lv))" using lv(4) by (cases "bl_orders lv") auto
  moreover have here: "rank_of (ld_side l) x = bp_rank k" if "x \<in> set (im_values (bl_orders lv))" for x
    using levels_ok_order(2) [OF ladder_invD(2) [OF inv] L] that by auto
  ultimately have "\<forall>y \<in> set (level_queue (map snd m)). bp_rank k \<le> rank_of (ld_side l) y"
    using ladder_queue_sorted [OF inv] by (force simp: q sorted_wrt_append)
  then show "\<exists>q. ladder_queue l = im_values (bl_orders lv) @ q \<and> bl_orders lv \<noteq> [] \<and>
      level_side lv = ld_side l \<and>
      (\<forall>x \<in> set (im_values (bl_orders lv)). rank_of (ld_side l) x = bp_rank (bl_price lv)) \<and>
      (\<forall>x \<in> set (ladder_queue l). bp_rank (bl_price lv) \<le> rank_of (ld_side l) x)"
    using lv(2-4) here unfolding q by (intro exI [of _ "level_queue (map snd m)"]) fastforce
qed

section \<open>Simulated fills\<close>

lemma take_fills_zero [simp]: "take_fills 0 q = []"
  by (cases q) simp_all

lemma simulate_level_fills:
  assumes "q_raw cumulative \<le> q_raw target" and "q_raw target < U64_MAX"
    and "q_raw cumulative + queue_total os \<le> U64_MAX" and "\<forall>x \<in> set os. 0 < q_raw (bo_size x)"
  shows "\<exists>r. simulate_level target os cumulative fills = Some r \<and>
    (case r of
       Inl fs \<Rightarrow> q_raw target - q_raw cumulative \<le> queue_total os \<and> os \<noteq> [] \<and>
         raw_fills fs = raw_fills fills @ take_fills (q_raw target - q_raw cumulative) os
     | Inr (cum, fs) \<Rightarrow> (os = [] \<or> queue_total os < q_raw target - q_raw cumulative) \<and>
         q_raw cum = q_raw cumulative + queue_total os \<and>
         raw_fills fs = raw_fills fills @ take_fills (q_raw target - q_raw cumulative) os)"
  using assms
proof (induction os arbitrary: cumulative fills)
  case Nil
  then show ?case by (simp add: queue_total_def)
next
  case (Cons x os)
  define sum where "sum = \<lparr> q_raw = q_raw cumulative + q_raw (bo_size x),
    q_prec = max (q_prec cumulative) (q_prec (bo_size x)) \<rparr>"
  have add: "quantity_add cumulative (bo_size x) = Some sum"
    using Cons.prems(3) by (simp add: quantity_add_def u64_checked_add_def sum_def queue_total_def)
  show ?case
  proof (cases "q_raw target \<le> q_raw sum")
    case True
    have "quantity_sub target cumulative =
        Some \<lparr> q_raw = q_raw target - q_raw cumulative, q_prec = max (q_prec target) (q_prec cumulative) \<rparr>"
      using Cons.prems(1) by (simp add: quantity_sub_def u64_checked_sub_def)
    then show ?thesis using True Cons.prems(1,2)
      by (auto simp: add quantity_is_positive_def QUANTITY_UNDEF_def sum_def queue_total_def)
  next
    case False
    have "\<exists>r. simulate_level target os sum (fills @ [(bo_price x, bo_size x)]) = Some r \<and>
      (case r of
         Inl fs \<Rightarrow> q_raw target - q_raw sum \<le> queue_total os \<and> os \<noteq> [] \<and>
           raw_fills fs = raw_fills (fills @ [(bo_price x, bo_size x)]) @ take_fills (q_raw target - q_raw sum) os
       | Inr (cum, fs) \<Rightarrow> (os = [] \<or> queue_total os < q_raw target - q_raw sum) \<and>
           q_raw cum = q_raw sum + queue_total os \<and>
           raw_fills fs = raw_fills (fills @ [(bo_price x, bo_size x)]) @ take_fills (q_raw target - q_raw sum) os)"
      by (rule Cons.IH) (use False Cons.prems in \<open>auto simp: sum_def queue_total_def\<close>)
    then obtain r where r: "simulate_level target os sum (fills @ [(bo_price x, bo_size x)]) = Some r"
      and sp: "case r of
         Inl fs \<Rightarrow> q_raw target - q_raw sum \<le> queue_total os \<and> os \<noteq> [] \<and>
           raw_fills fs = raw_fills (fills @ [(bo_price x, bo_size x)]) @ take_fills (q_raw target - q_raw sum) os
       | Inr (cum, fs) \<Rightarrow> (os = [] \<or> queue_total os < q_raw target - q_raw sum) \<and>
           q_raw cum = q_raw sum + queue_total os \<and>
           raw_fills fs = raw_fills (fills @ [(bo_price x, bo_size x)]) @ take_fills (q_raw target - q_raw sum) os"
      by blast
    have tk: "take_fills (q_raw target - q_raw cumulative) (x # os) =
        (p_raw (bo_price x), q_raw (bo_size x)) # take_fills (q_raw target - q_raw sum) os"
      using False by (auto simp: sum_def diff_diff_left)
    show ?thesis
      using False r sp tk
      by (auto simp: add sum_def queue_total_def simp del: take_fills.simps split: sum.splits)
  qed
qed

lemma take_fills_append:
  "take_fills want (xs @ ys) =
     (if want \<le> queue_total xs \<and> xs \<noteq> [] then take_fills want xs
      else take_fills want xs @ take_fills (want - queue_total xs) ys)"
proof (induction want xs rule: take_fills.induct)
  case (2 want x q)
  show ?case
  proof (cases "want = 0 \<or> want \<le> q_raw (bo_size x)")
    case True
    then show ?thesis by (auto simp: queue_total_def)
  next
    case False
    then show ?thesis using 2 by (cases q) (auto simp: queue_total_def)
  qed
qed (simp add: queue_total_def)

lemma queue_total_append [simp]: "queue_total (xs @ ys) = queue_total xs + queue_total ys"
  by (simp add: queue_total_def)

lemma simulate_levels_fills:
  assumes "q_raw cumulative \<le> q_raw target" and "q_raw target < U64_MAX"
    and "q_raw cumulative + queue_total (level_queue lvs) \<le> U64_MAX"
    and "\<forall>lv \<in> set lvs. level_side lv = s \<and> bl_orders lv \<noteq> []"
    and "\<forall>x \<in> set (level_queue lvs). 0 < q_raw (bo_size x)"
  shows "\<exists>fs. simulate_levels s limit target lvs cumulative fills = Some fs \<and>
    raw_fills fs = raw_fills fills @ take_fills (q_raw target - q_raw cumulative)
      (level_queue (takeWhile (\<lambda>lv. bp_rank (bl_price lv) \<le> price_rank s limit) lvs))"
  using assms
proof (induction lvs arbitrary: cumulative fills)
  case Nil
  then show ?case by simp
next
  case (Cons lv lvs)
  let ?os = "im_values (bl_orders lv)"
  have stop: "(s = BuySide \<and> p_raw (bp_value (bl_price lv)) < p_raw limit \<or>
      s \<noteq> BuySide \<and> p_raw (bp_value (bl_price lv)) > p_raw limit) \<longleftrightarrow>
      \<not> bp_rank (bl_price lv) \<le> price_rank s limit"
    using Cons.prems(4) by (cases s) (auto simp: bp_rank_def price_rank_def level_side_def)
  show ?case
  proof (cases "bp_rank (bl_price lv) \<le> price_rank s limit")
    case False
    then show ?thesis unfolding simulate_levels.simps stop by simp
  next
    case True
    have os: "q_raw cumulative + queue_total ?os \<le> U64_MAX" "\<forall>x \<in> set ?os. 0 < q_raw (bo_size x)" "?os \<noteq> []"
      using Cons.prems(3,4,5) by simp_all
    obtain r where r: "simulate_level target ?os cumulative fills = Some r"
      and sp: "case r of
       Inl fs \<Rightarrow> q_raw target - q_raw cumulative \<le> queue_total ?os \<and> ?os \<noteq> [] \<and>
         raw_fills fs = raw_fills fills @ take_fills (q_raw target - q_raw cumulative) ?os
     | Inr (cum, fs) \<Rightarrow> (?os = [] \<or> queue_total ?os < q_raw target - q_raw cumulative) \<and>
         q_raw cum = q_raw cumulative + queue_total ?os \<and>
         raw_fills fs = raw_fills fills @ take_fills (q_raw target - q_raw cumulative) ?os"
      using simulate_level_fills [OF Cons.prems(1,2) os(1,2)] by blast
    show ?thesis
    proof (cases r)
      case (Inl fs)
      then show ?thesis using True r sp unfolding simulate_levels.simps stop
        by (auto simp: take_fills_append)
    next
      case (Inr cf)
      obtain cum fs where cf: "cf = (cum, fs)" by (cases cf)
      have cum: "q_raw cum = q_raw cumulative + queue_total ?os" and lt: "queue_total ?os < q_raw target - q_raw cumulative"
        and fs: "raw_fills fs = raw_fills fills @ take_fills (q_raw target - q_raw cumulative) ?os"
        using sp os(3) by (simp_all add: Inr cf)
      obtain fs' where fs': "simulate_levels s limit target lvs cum fs = Some fs'"
        "raw_fills fs' = raw_fills fs @ take_fills (q_raw target - q_raw cum)
          (level_queue (takeWhile (\<lambda>lv. bp_rank (bl_price lv) \<le> price_rank s limit) lvs))"
      proof -
        have "q_raw cum \<le> q_raw target" "q_raw cum + queue_total (level_queue lvs) \<le> U64_MAX"
          using Cons.prems(1,3) cum lt by simp_all
        from Cons.IH [OF this(1) Cons.prems(2) this(2), of fs] Cons.prems(4,5) that show thesis by auto
      qed
      show ?thesis using True r fs' fs lt cum unfolding simulate_levels.simps stop
        by (simp add: Inr cf take_fills_append diff_diff_left)
    qed
  qed
qed

lemma level_queue_takeWhile:
  assumes "\<forall>lv \<in> set lvs. bl_orders lv \<noteq> [] \<and> (\<forall>x \<in> set (im_values (bl_orders lv)). rank_of s x = bp_rank (bl_price lv))"
  shows "level_queue (takeWhile (\<lambda>lv. bp_rank (bl_price lv) \<le> c) lvs) = takeWhile (\<lambda>x. rank_of s x \<le> c) (level_queue lvs)"
  using assms
proof (induction lvs)
  case (Cons lv lvs)
  let ?os = "im_values (bl_orders lv)"
  have ranks: "\<forall>x \<in> set ?os. rank_of s x = bp_rank (bl_price lv)" and ne: "?os \<noteq> []" using Cons.prems by simp_all
  show ?case
  proof (cases "bp_rank (bl_price lv) \<le> c")
    case True
    then have "takeWhile (\<lambda>x. rank_of s x \<le> c) (?os @ level_queue lvs) = ?os @ takeWhile (\<lambda>x. rank_of s x \<le> c) (level_queue lvs)"
      using ranks by (intro takeWhile_append2) auto
    then show ?thesis using True Cons by simp
  next
    case False
    then show ?thesis using ranks ne by (cases ?os) (auto simp: takeWhile_append)
  qed
qed simp

lemma ladder_simulate_fills_queue:
  assumes inv: "ladder_inv l" and prec: "q_prec (bo_size order) \<le> FIXED_PRECISION"
    and "q_raw (bo_size order) < U64_MAX" and "queue_total (ladder_queue l) \<le> U64_MAX"
  shows "\<exists>fs. ladder_simulate_fills order l = Some fs \<and>
    raw_fills fs = take_fills (q_raw (bo_size order))
      (takeWhile (\<lambda>x. rank_of (ld_side l) x \<le> price_rank (ld_side l) (bo_price order)) (ladder_queue l))"
proof -
  let ?lvs = "bt_values (ld_levels l)"
  have lv: "level_side lv = ld_side l \<and> bl_orders lv \<noteq> [] \<and>
      (\<forall>x \<in> set (im_values (bl_orders lv)). rank_of (ld_side l) x = bp_rank (bl_price lv) \<and> 0 < q_raw (bo_size x))"
    if mem: "lv \<in> set ?lvs" for lv
  proof -
    obtain k where "(k, lv) \<in> set (ld_levels l)" using mem by auto
    then have L: "ladder_levels l (bp_rank k) = Some lv" by (rule ladder_level_in [OF inv])
    note a = levels_ok_level [OF ladder_invD(2) [OF inv] L]
    have "rank_of (ld_side l) x = bp_rank (bl_price lv) \<and> 0 < q_raw (bo_size x)"
      if "x \<in> set (im_values (bl_orders lv))" for x
      using levels_ok_order [OF ladder_invD(2) [OF inv] L] a(3) that
      by (auto simp: quantity_is_positive_def)
    then show ?thesis using a by simp
  qed
  have pos: "\<forall>x \<in> set (level_queue ?lvs). 0 < q_raw (bo_size x)"
    using lv by (auto simp: level_queue_def)
  have zero: "quantity_zero (q_prec (bo_size order)) = Some \<lparr> q_raw = 0, q_prec = q_prec (bo_size order) \<rparr>"
    using prec by (simp add: quantity_zero_def check_fixed_precision_def)
  obtain fs where fs: "simulate_levels (ld_side l) (bo_price order) (bo_size order) ?lvs
      \<lparr> q_raw = 0, q_prec = q_prec (bo_size order) \<rparr> [] = Some fs"
    "raw_fills fs = take_fills (q_raw (bo_size order))
      (level_queue (takeWhile (\<lambda>lv. bp_rank (bl_price lv) \<le> price_rank (ld_side l) (bo_price order)) ?lvs))"
    using simulate_levels_fills [of "\<lparr> q_raw = 0, q_prec = q_prec (bo_size order) \<rparr>" "bo_size order" ?lvs
        "ld_side l" "bo_price order" "[]"] assms(3,4) lv pos
    by (auto simp: ladder_queue_levels)
  have "level_queue (takeWhile (\<lambda>lv. bp_rank (bl_price lv) \<le> price_rank (ld_side l) (bo_price order)) ?lvs) =
      takeWhile (\<lambda>x. rank_of (ld_side l) x \<le> price_rank (ld_side l) (bo_price order)) (ladder_queue l)"
    unfolding ladder_queue_levels by (rule level_queue_takeWhile) (use lv in blast)
  then show ?thesis using fs zero by (simp add: ladder_simulate_fills_def)
qed

lemma take_fills_total: "(\<Sum>(p, n) \<leftarrow> take_fills want q. n) = min want (queue_total q)"
  by (induction want q rule: take_fills.induct) (auto simp: queue_total_def)

end
