(* ===== verification/Ladder_L1.thy ===== *)
theory Ladder_L1
  imports Ladder_Queue
begin

text \<open>
  Ladders of top-of-book books (\<open>BookType::L1_MBP\<close>): they never hold more than one order, a
  single update replaces it, and a batch keeps the better of the prices it brings.
\<close>

text \<open>
  An L1 ladder keeps at most one level, and its orders all carry the id of their side.  A batch
  (a snapshot or a multi-level update) goes on when the flags and the batch state say so;
  otherwise an incoming order replaces what is there.
\<close>

definition l1_ok :: "book_ladder \<Rightarrow> bool" where
  "l1_ok l \<longleftrightarrow> ladder_inv l \<and> ld_book_type l = L1_MBP \<and> length (ld_levels l) \<le> 1 \<and>
     (\<forall>x \<in> set (ladder_queue l). bo_order_id x = order_side_as_u64 (as_order_side (ld_side l)))"

definition l1_continues :: "nat \<Rightarrow> book_ladder \<Rightarrow> bool" where
  "l1_continues flags l \<longleftrightarrow>
     (if flag_matches F_SNAPSHOT flags then ld_batch_state l = SnapshotBatch
      else flag_matches F_MBP flags \<and> flag_matches F_LAST flags \<and> ld_batch_state l = MbpBatch)"

section \<open>Top-of-book ladders\<close>

lemma level_queue_length:
  "(\<And>lv. lv \<in> set lvs \<Longrightarrow> bl_orders lv \<noteq> []) \<Longrightarrow> length lvs \<le> length (level_queue lvs)"
proof (induction lvs)
  case (Cons lv lvs)
  then have "bl_orders lv \<noteq> []" by simp
  then have "Suc 0 \<le> length (bl_orders lv)" by (cases "bl_orders lv") simp_all
  moreover have "length lvs \<le> length (level_queue lvs)" using Cons by simp
  ultimately show ?case by simp
qed simp

lemma ladder_len_queue:
  assumes "ladder_inv l"
  shows "length (ld_levels l) \<le> length (ladder_queue l)"
proof -
  have "bl_orders lv \<noteq> []" if lv: "lv \<in> set (bt_values (ld_levels l))" for lv
  proof -
    obtain k where "(k, lv) \<in> set (ld_levels l)" using lv by auto
    from levels_ok_level(4) [OF ladder_invD(2) [OF assms] ladder_level_in [OF assms this]] show ?thesis .
  qed
  then have "length (bt_values (ld_levels l)) \<le> length (level_queue (bt_values (ld_levels l)))"
    by (rule level_queue_length)
  then show ?thesis by (simp add: ladder_queue_levels)
qed

lemma level_queue_distinct:
  assumes "side.bt_wf s m" and "\<And>k lv. (k, lv) \<in> set m \<Longrightarrow> L (bp_rank k) = Some lv" and "levels_ok s L cache"
  shows "distinct (map bo_order_id (level_queue (map snd m)))"
  using assms
proof (induction m)
  case (Cons p m)
  obtain k lv where p: "p = (k, lv)" by (cases p)
  have L: "L (bp_rank k) = Some lv" using Cons.prems(2) by (simp add: p)
  note ok = Cons.prems(3)
  have ids: "map bo_order_id (im_values (bl_orders lv)) = im_keys (bl_orders lv)"
    using levels_ok_order(1) [OF ok L] by auto
  have "distinct (im_keys (bl_orders lv))"
    using level_inv_wf [OF levels_ok_level(1) [OF ok L]] by (simp add: im_wf_def)
  moreover have "distinct (map bo_order_id (level_queue (map snd m)))"
    using Cons by (auto simp: p side.bt_wf_Cons_iff)
  moreover have False if i: "i \<in> set (im_keys (bl_orders lv))"
    and x: "x \<in> set (level_queue (map snd m))" "bo_order_id x = i" for i x
  proof -
    obtain k' lv' j where m: "(k', lv') \<in> set m" "(j, x) \<in> set (bl_orders lv')"
      using x(1) unfolding set_level_queue by blast
    have L': "L (bp_rank k') = Some lv'" using Cons.prems(2) m by (simp add: p)
    have "i \<in> set (im_keys (bl_orders lv'))"
      using levels_ok_order(1) [OF ok L' m(2)] m(2) x(2) by force
    from levels_ok_level(5) [OF ok L' this] levels_ok_level(5) [OF ok L i]
    have "bp_rank k' = bp_rank k" by auto
    moreover have "bp_rank k < bp_rank k'" using Cons.prems(1) m(1) by (auto simp: p side.bt_wf_Cons_iff)
    ultimately show False by simp
  qed
  then have "set (im_keys (bl_orders lv)) \<inter> bo_order_id ` set (level_queue (map snd m)) = {}" by blast
  ultimately show ?case by (simp add: p ids del: map_map)
qed simp

lemma ladder_queue_distinct:
  assumes "ladder_inv l"
  shows "distinct (map bo_order_id (ladder_queue l))"
  unfolding ladder_queue_levels
  by (rule level_queue_distinct [OF ladder_invD(1) [OF assms] _ ladder_invD(2) [OF assms]])
    (rule ladder_level_in [OF assms])

lemma distinct_singleton: "distinct (map f xs) \<Longrightarrow> set xs = {x} \<Longrightarrow> xs = [x]"
  by (cases xs rule: list.exhaust; cases "tl xs") (auto split: list.splits)

lemma becomes_single: "becomes l l' {x} \<Longrightarrow> ladder_queue l' = [x] \<and> length (ld_levels l') \<le> 1"
  using ladder_queue_distinct [of l'] ladder_len_queue [of l']
  by (auto simp: becomes_def dest: distinct_singleton)

lemma l1_queue:
  assumes "l1_ok l"
  shows "ladder_queue l = [] \<or> (\<exists>x. ladder_queue l = [x] \<and> bo_order_id x = order_side_as_u64 (as_order_side (ld_side l)))"
proof -
  have "length (ladder_queue l) \<le> 1"
  proof -
    have "distinct (map bo_order_id (ladder_queue l))"
      using ladder_queue_distinct assms by (simp add: l1_ok_def)
    then have "length (ladder_queue l) = card (bo_order_id ` set (ladder_queue l))"
      by (metis distinct_card length_map list.set_map)
    also have "\<dots> \<le> card {order_side_as_u64 (as_order_side (ld_side l))}"
      using assms by (intro card_mono) (auto simp: l1_ok_def)
    finally show ?thesis by simp
  qed
  then show ?thesis using assms by (cases "ladder_queue l") (auto simp: l1_ok_def)
qed

lemma l1_okI:
  assumes "ladder_inv l" and "ld_book_type l = L1_MBP" and "length (ladder_queue l) \<le> 1"
    and "\<forall>x \<in> set (ladder_queue l). bo_order_id x = order_side_as_u64 (as_order_side (ld_side l))"
  shows "l1_ok l"
  using assms ladder_len_queue [OF assms(1)] by (simp add: l1_ok_def)

lemma handle_l1_add_cases:
  assumes "quantity_is_positive (bo_size order)"
  shows "l1_continues flags l \<Longrightarrow> ladder_handle_l1_add order flags l = (True, l)"
    and "\<not> l1_continues flags l \<Longrightarrow>
      \<exists>b. ladder_handle_l1_add order flags l = (True, (ladder_clear l) \<lparr> ld_batch_state := b \<rparr>)"
proof -
  have clear: "ladder_clear l = (ladder_clear l) \<lparr> ld_batch_state := NoBatch \<rparr>" by (simp add: ladder_clear_def)
  show "l1_continues flags l \<Longrightarrow> ladder_handle_l1_add order flags l = (True, l)"
    using assms by (auto simp: ladder_handle_l1_add_def l1_continues_def Let_def split: if_splits)
  show "\<exists>b. ladder_handle_l1_add order flags l = (True, (ladder_clear l) \<lparr> ld_batch_state := b \<rparr>)"
    if "\<not> l1_continues flags l"
    using that assms clear by (auto simp: ladder_handle_l1_add_def l1_continues_def Let_def split: if_splits)
qed

lemma retain_best_few: "length (ld_levels l) \<le> 1 \<Longrightarrow> ladder_retain_best_only l = l"
  by (simp add: ladder_retain_best_only_def)

lemma end_batch_few:
  "length (ld_levels l) \<le> 1 \<Longrightarrow> \<exists>b. ladder_end_batch flags l = l \<lparr> ld_batch_state := b \<rparr>"
proof -
  assume few: "length (ld_levels l) \<le> 1"
  have "\<exists>b. l = l \<lparr> ld_batch_state := b \<rparr>" by (rule exI [of _ "ld_batch_state l"]) simp
  then show ?thesis using few by (auto simp: ladder_end_batch_def Let_def retain_best_few)
qed

text \<open>A ladder with one order.\<close>

lemma single_inv:
  assumes "ld_levels l = [(k, lv)]" and "bp_side k = ld_side l" and "level_inv lv" and "level_side lv = ld_side l"
    and "bp_rank (bl_price lv) = bp_rank k" and "bl_orders lv = [(i, x)]" and "ld_cache l = [i \<mapsto> k]"
  shows "ladder_inv l \<and> ladder_queue l = [x]"
proof -
  have "levels_ok (ld_side l) (ladder_levels l) (ld_cache l)"
    by (rule levels_okI) (use assms in \<open>auto split: if_splits\<close>)
  then show ?thesis using assms by (simp add: ladder_inv_def side.bt_wf_Cons_iff ladder_queue_def)
qed

lemma l1_place_free:
  assumes E: "book_env_ok E" and ok: "l1_ok l"
    and order: "bo_side order = as_order_side (ld_side l)" "quantity_is_positive (bo_size order)"
      "bo_order_id order = order_side_as_u64 (as_order_side (ld_side l))"
    and free: "id_free order l"
  shows "\<exists>l'. ladder_place E order l = Some l' \<and> becomes l l' {order}"
proof -
  have inv: "ladder_inv l" using ok by (simp add: l1_ok_def)
  have "without (bo_order_id order) l = {}" using ok order(3) by (auto simp: l1_ok_def)
  then show ?thesis using ladder_place_becomes [OF E inv order(1,2) free] by (simp only:)
qed

lemma l1_becomes_single:
  assumes "becomes l l' {order}" and "ld_book_type l = L1_MBP"
    and "bo_order_id order = order_side_as_u64 (as_order_side (ld_side l))"
  shows "l1_ok l' \<and> ladder_queue l' = [order] \<and> length (ld_levels l') \<le> 1"
  using becomes_single [OF assms(1)] assms
  by (auto simp: becomes_def intro!: l1_okI)

lemma cache_level_single:
  "bl_orders lv = [(i, x)] \<Longrightarrow> fold cache_level [(k, lv)] Map.empty = [i \<mapsto> k]"
  by (simp add: cache_level_def)

text \<open>The one level of a non-empty L1 ladder.\<close>

lemma l1_level:
  assumes ok: "l1_ok l" and q: "ladder_queue l = [x]"
  obtains k lv where "ld_levels l = [(k, lv)]" and "bp_side k = ld_side l" and "level_inv lv"
    and "level_side lv = ld_side l" and "bp_rank (bl_price lv) = bp_rank k"
    and "bl_orders lv = [(bo_order_id x, x)]" and "rank_of (ld_side l) x = bp_rank k"
proof -
  have inv: "ladder_inv l" and len: "length (ld_levels l) \<le> 1" using ok by (simp_all add: l1_ok_def)
  have "ld_levels l \<noteq> []" using q by (auto simp: ladder_queue_def)
  then obtain k lv where m: "ld_levels l = [(k, lv)]" using len by (cases "ld_levels l") auto
  then have L: "ladder_levels l (bp_rank k) = Some lv" by simp
  note lv = levels_ok_level [OF ladder_invD(2) [OF inv] L]
  have "im_values (bl_orders lv) = [x]" using q by (simp add: ladder_queue_def m)
  then obtain i where os: "bl_orders lv = [(i, x)]" by (cases "bl_orders lv") auto
  have "bo_order_id x = i" "rank_of (ld_side l) x = bp_rank k"
    using levels_ok_order [OF ladder_invD(2) [OF inv] L, of i x] by (simp_all add: os)
  moreover have "bp_side k = ld_side l" using ladder_invD(1) [OF inv] by (simp add: m side.bt_wf_Cons_iff)
  ultimately show thesis using that m lv os by auto
qed

text \<open>A batch that brings a second price keeps the better of the two.\<close>

lemma l1_place_two:
  assumes E: "book_env_ok E" and ok: "l1_ok l" and q: "ladder_queue l = [x]"
    and order: "bo_side order = as_order_side (ld_side l)" "quantity_is_positive (bo_size order)"
    and id: "bo_order_id order = order_side_as_u64 (as_order_side (ld_side l))"
    and ne: "rank_of (ld_side l) x \<noteq> rank_of (ld_side l) order"
    and best: "best = (if rank_of (ld_side l) x < rank_of (ld_side l) order then x else order)"
  shows "\<exists>l'. ladder_place E order l = Some l' \<and> ld_book_type l' = L1_MBP \<and> ld_side l' = ld_side l \<and>
    ladder_inv (ladder_retain_best_only l') \<and> ladder_queue (ladder_retain_best_only l') = [best] \<and>
    ld_side (ladder_retain_best_only l') = ld_side l \<and> ld_book_type (ladder_retain_best_only l') = L1_MBP"
proof -
  let ?s = "ld_side l" and ?r = "rank_of (ld_side l) order"
  let ?bp = "book_price_new (bo_price order) ?s"
  obtain k lv where m: "ld_levels l = [(k, lv)]" and k: "bp_side k = ?s" and lv: "level_inv lv"
    "level_side lv = ?s" "bp_rank (bl_price lv) = bp_rank k" and os: "bl_orders lv = [(bo_order_id x, x)]"
    and rx: "rank_of ?s x = bp_rank k"
    using l1_level [OF ok q] .
  have bp: "to_book_price E order = Some ?bp" using to_book_price_Some [OF E order(1)] .
  define nl where "nl = level_add order (level_new ?bp)"
  have nl: "level_inv nl" "level_side nl = ?s" "bp_rank (bl_price nl) = ?r"
    using order by (auto simp: nl_def intro!: level_inv_add)
  have "bl_orders nl = [(bo_order_id order, order)]" using order by (simp add: nl_def level_add_def)
  note nl = nl this
  have c: "book_price_cmp ?bp k = Some (cmp_int ?r (bp_rank k))" using book_price_cmp_rank [of ?bp ?s k] k by simp
  define levels where "levels = (if ?r < bp_rank k then [(?bp, nl), (k, lv)] else [(k, lv), (?bp, nl)])"
  define l' where "l' = l \<lparr> ld_levels := levels, ld_cache := (ld_cache l)(bo_order_id order \<mapsto> ?bp) \<rparr>"
  have place: "ladder_place E order l = Some l'"
    using ne rx c bp by (auto simp: ladder_place_def Let_def m level_from_order_def nl_def level_new_def
        l'_def levels_def cmp_int_def)
  have eq: "book_price_eq k ?bp \<longleftrightarrow> False" "book_price_eq ?bp k \<longleftrightarrow> False" "book_price_eq k k" "book_price_eq ?bp ?bp"
    using k ne rx book_price_eq_rank [of k ?bp] book_price_eq_rank [of ?bp k] by (simp_all add: book_price_eq_def)
  define hd where "hd = (if ?r < bp_rank k then (?bp, nl) else (k, lv))"
  have keep: "ladder_retain_best_only l' = l' \<lparr> ld_levels := [hd], ld_cache := fold cache_level [hd] Map.empty \<rparr>"
    using eq by (simp add: ladder_retain_best_only_def l'_def levels_def hd_def Let_def)
  have "ladder_inv (ladder_retain_best_only l') \<and> ladder_queue (ladder_retain_best_only l') = [best]"
  proof (cases "?r < bp_rank k")
    case True
    then have b: "best = order" using best rx by simp
    show ?thesis unfolding keep b
      by (rule single_inv [of _ ?bp nl]) (use True nl in \<open>simp_all add: hd_def l'_def cache_level_def\<close>)
  next
    case False
    then have b: "best = x" using best rx ne by simp
    show ?thesis unfolding keep b
      by (rule single_inv [of _ k lv]) (use False k lv os in \<open>simp_all add: hd_def l'_def cache_level_def\<close>)
  qed
  moreover have "ld_book_type l = L1_MBP" using ok by (simp add: l1_ok_def)
  ultimately show ?thesis using place by (simp add: keep) (simp add: l'_def)
qed

lemma l1_ok_clear: "ld_book_type l = L1_MBP \<Longrightarrow> l1_ok ((ladder_clear l) \<lparr> ld_batch_state := b \<rparr>)"
  using ladder_inv_clear [of l] by (simp add: l1_ok_def ladder_clear_def ladder_queue_def)

lemma l1_ok_batch [simp]: "l1_ok (l \<lparr> ld_batch_state := b \<rparr>) = l1_ok l"
  by (simp add: l1_ok_def ladder_queue_def)

lemma ladder_queue_batch [simp]: "ladder_queue (l \<lparr> ld_batch_state := b \<rparr>) = ladder_queue l"
  by (simp add: ladder_queue_def)

lemma id_free_cached:
  assumes "l1_ok l" and "bo_order_id order = order_side_as_u64 (as_order_side (ld_side l))"
    and "\<And>x. ladder_queue l = [x] \<Longrightarrow> rank_of (ld_side l) x = rank_of (ld_side l) order"
  shows "id_free order l"
  unfolding id_free_def
proof (intro allI impI)
  fix bp
  assume c: "ld_cache l (bo_order_id order) = Some bp"
  have inv: "ladder_inv l" using assms(1) by (simp add: l1_ok_def)
  obtain lv x where L: "ladder_levels l (bp_rank bp) = Some lv" and x: "(bo_order_id order, x) \<in> set (bl_orders lv)"
  proof (rule levels_ok_cache [OF ladder_invD(2) [OF inv] c])
    fix level
    assume "ladder_levels l (bp_rank bp) = Some level" and "bo_order_id order \<in> set (im_keys (bl_orders level))"
    then show thesis using that by auto
  qed
  have "x \<in> resting (ladder_levels l)" using L x by (auto simp: resting_def)
  then have "x \<in> set (ladder_queue l)" by (simp add: ladder_queue_resting [OF inv])
  then have "ladder_queue l = [x]" using l1_queue [OF assms(1)] by auto
  then have "rank_of (ld_side l) x = rank_of (ld_side l) order" by (rule assms(3))
  then show "bp_rank bp = rank_of (ld_side l) order"
    using levels_ok_order(2) [OF ladder_invD(2) [OF inv] L x] by simp
qed

text \<open>Adding to an L1 ladder.\<close>

lemma l1_place:
  assumes E: "book_env_ok E" and ok: "l1_ok l"
    and order: "bo_side order = as_order_side (ld_side l)" "quantity_is_positive (bo_size order)"
      "bo_order_id order = order_side_as_u64 (as_order_side (ld_side l))"
    and batch: "ladder_queue l = [] \<or> flag_matches F_MBP flags \<or> flag_matches F_SNAPSHOT flags"
  shows "\<exists>l'. map_option (ladder_end_batch flags) (ladder_place E order l) = Some l' \<and> l1_ok l' \<and>
    ld_side l' = ld_side l \<and>
    ladder_queue l' = (case ladder_queue l of
      [] \<Rightarrow> [order] | x # _ \<Rightarrow> [if rank_of (ld_side l) x < rank_of (ld_side l) order then x else order])"
proof (cases "\<exists>x. ladder_queue l = [x] \<and> rank_of (ld_side l) x \<noteq> rank_of (ld_side l) order")
  case True
  then obtain x where q: "ladder_queue l = [x]" and ne: "rank_of (ld_side l) x \<noteq> rank_of (ld_side l) order"
    by blast
  define best where "best = (if rank_of (ld_side l) x < rank_of (ld_side l) order then x else order)"
  obtain l1 where l1: "ladder_place E order l = Some l1" "ld_book_type l1 = L1_MBP"
    and r: "ladder_inv (ladder_retain_best_only l1)" "ladder_queue (ladder_retain_best_only l1) = [best]"
      "ld_side (ladder_retain_best_only l1) = ld_side l" "ld_book_type (ladder_retain_best_only l1) = L1_MBP"
    using l1_place_two [OF E ok q order ne best_def] by blast
  have "\<exists>b. ladder_end_batch flags l1 = (ladder_retain_best_only l1) \<lparr> ld_batch_state := b \<rparr>"
  proof -
    have "\<exists>b. ladder_retain_best_only l1 = (ladder_retain_best_only l1) \<lparr> ld_batch_state := b \<rparr>"
      by (rule exI [of _ "ld_batch_state (ladder_retain_best_only l1)"]) simp
    then show ?thesis using batch q l1(2) by (auto simp: ladder_end_batch_def Let_def)
  qed
  moreover have "bo_order_id best = order_side_as_u64 (as_order_side (ld_side l))"
    using ok order(3) q by (auto simp: best_def l1_ok_def)
  then have "l1_ok (ladder_retain_best_only l1)" using r by (intro l1_okI) simp_all
  ultimately show ?thesis using l1(1) r q by (auto simp: best_def)
next
  case False
  then have free: "id_free order l" using id_free_cached [OF ok order(3)] by blast
  obtain l1 where l1: "ladder_place E order l = Some l1" and b: "becomes l l1 {order}"
    using l1_place_free [OF E ok order free] by blast
  have t: "ld_book_type l = L1_MBP" using ok by (simp add: l1_ok_def)
  have l1': "l1_ok l1" "ladder_queue l1 = [order]" "length (ld_levels l1) \<le> 1"
    using l1_becomes_single [OF b t order(3)] by simp_all
  obtain bs where eb: "ladder_end_batch flags l1 = l1 \<lparr> ld_batch_state := bs \<rparr>"
    using end_batch_few [OF l1'(3)] by blast
  have "(case ladder_queue l of [] \<Rightarrow> [order]
      | x # _ \<Rightarrow> [if rank_of (ld_side l) x < rank_of (ld_side l) order then x else order]) = [order]"
    using False l1_queue [OF ok] by auto
  then show ?thesis using l1 l1' eb b by (simp add: becomes_def)
qed

lemma l1_add:
  assumes E: "book_env_ok E" and ok: "l1_ok l"
    and order: "bo_side order = as_order_side (ld_side l)"
      "bo_order_id order = order_side_as_u64 (as_order_side (ld_side l))"
  shows "\<exists>l'. ladder_add E order flags l = Some l' \<and> l1_ok l' \<and> ld_side l' = ld_side l \<and>
    ladder_queue l' =
      (if \<not> quantity_is_positive (bo_size order) then []
       else if l1_continues flags l \<and> (\<exists>x. ladder_queue l = [x] \<and> rank_of (ld_side l) x < rank_of (ld_side l) order)
       then ladder_queue l else [order])"
proof (cases "quantity_is_positive (bo_size order)")
  case False
  have t: "ld_book_type l = L1_MBP" using ok by (simp add: l1_ok_def)
  have "l1_ok (ladder_clear l)" using l1_ok_clear [OF t, of NoBatch] by (simp add: ladder_clear_def)
  then show ?thesis using False t
    by (simp add: ladder_add_def ladder_handle_l1_add_def) (simp add: ladder_clear_def ladder_queue_def)
next
  case pos: True
  have t: "ld_book_type l = L1_MBP" using ok by (simp add: l1_ok_def)
  show ?thesis
  proof (cases "l1_continues flags l")
    case True
    then have "flag_matches F_MBP flags \<or> flag_matches F_SNAPSHOT flags"
      by (auto simp: l1_continues_def split: if_splits)
    then show ?thesis
      using l1_place [OF E ok order(1) pos order(2), of flags] handle_l1_add_cases(1) [OF pos True] t pos True
        l1_queue [OF ok]
      by (auto simp: ladder_add_def)
  next
    case False
    then obtain b where h: "ladder_handle_l1_add order flags l = (True, (ladder_clear l) \<lparr> ld_batch_state := b \<rparr>)"
      using handle_l1_add_cases(2) [OF pos] by blast
    let ?l = "(ladder_clear l) \<lparr> ld_batch_state := b \<rparr>"
    have side: "ld_side ?l = ld_side l" and q: "ladder_queue ?l = []" and tt: "ld_book_type ?l = L1_MBP"
      using t by (simp_all add: ladder_clear_def ladder_queue_def)
    obtain l' where "map_option (ladder_end_batch flags) (ladder_place E order ?l) = Some l'" "l1_ok l'"
        "ld_side l' = ld_side l" "ladder_queue l' = [order]"
      using l1_place [OF E l1_ok_clear [OF t], of order b flags] order pos side q by auto
    then show ?thesis using False pos h t tt by (auto simp: ladder_add_def)
  qed
qed

lemma l1_remove_order:
  assumes ok: "l1_ok l"
  shows "\<exists>l'. ladder_remove_order i l = Some l' \<and> l1_ok l' \<and> ld_side l' = ld_side l \<and>
    set (ladder_queue l') = without i l"
proof -
  have inv: "ladder_inv l" using ok by (simp add: l1_ok_def)
  obtain l' where l': "ladder_remove_order i l = Some l'" "becomes l l' (without i l)"
    using ladder_remove_order_becomes [OF inv] by blast
  have "length (ladder_queue l') \<le> 1"
  proof -
    have "distinct (ladder_queue l')"
      using ladder_queue_distinct [of l'] l'(2) by (simp add: becomes_def distinct_map)
    then have "length (ladder_queue l') = card (set (ladder_queue l'))" by (simp add: distinct_card)
    also have "\<dots> \<le> card (set (ladder_queue l))" using l'(2) by (intro card_mono) (auto simp: becomes_def)
    also have "\<dots> \<le> 1" using l1_queue [OF ok] by auto
    finally show ?thesis .
  qed
  then have "l1_ok l'" using l'(2) ok by (intro l1_okI) (auto simp: becomes_def l1_ok_def)
  then show ?thesis using l' by (auto simp: becomes_def)
qed

lemma l1_becomes_empty: "becomes l l' {} \<Longrightarrow> ld_book_type l = L1_MBP \<Longrightarrow> l1_ok l' \<and> ladder_queue l' = []"
  by (auto simp: becomes_def intro: l1_okI)

lemma l1_update:
  assumes E: "book_env_ok E" and ok: "l1_ok l"
    and order: "bo_side order = as_order_side (ld_side l)" "q_raw (bo_size order) \<noteq> QUANTITY_UNDEF"
      "bo_order_id order = order_side_as_u64 (as_order_side (ld_side l))"
  shows "\<exists>l'. ladder_update E order flags l = Some l' \<and> l1_ok l' \<and> ld_side l' = ld_side l \<and>
    ladder_queue l' = (if quantity_is_positive (bo_size order) then [order] else [])"
proof -
  let ?i = "bo_order_id order"
  have inv: "ladder_inv l" and t: "ld_book_type l = L1_MBP" using ok by (simp_all add: l1_ok_def)
  have none: "without ?i l = {}" using ok order(3) by (auto simp: l1_ok_def)
  have addq: "\<exists>l2. ladder_update_add E order flags l1 = Some l2 \<and> l1_ok l2 \<and> ld_side l2 = ld_side l \<and>
      ladder_queue l2 = (if quantity_is_positive (bo_size order) then [order] else [])"
    if "l1_ok l1" "ladder_queue l1 = []" "ld_side l1 = ld_side l" for l1
    using l1_add [OF E that(1), of order flags] order that by (auto simp: ladder_update_add_def)
  show ?thesis
  proof (cases "ld_cache l ?i")
    case None
    then have "ladder_queue l = []" using without_absent [OF inv None] none by simp
    then show ?thesis using addq [OF ok] None by (simp add: ladder_update_def ladder_hit_inv [OF inv])
  next
    case (Some price)
    obtain old where L: "ladder_levels l (bp_rank price) = Some old"
      using levels_ok_cache [OF ladder_invD(2) [OF inv] Some] by blast
    have hit: "ladder_hit ?i l = Some (Some (price, old))" by (simp add: ladder_hit_inv [OF inv] Some L)
    obtain l1 where drop: "ladder_put_level price (old \<lparr> bl_orders := im_shift_remove ?i (bl_orders old) \<rparr>) (uncache ?i l) = Some l1"
      and b1: "becomes l l1 {}"
      using ladder_drop_becomes [OF inv Some L refl] none by auto
    have l1: "l1_ok l1" "ladder_queue l1 = []" "ld_side l1 = ld_side l"
      using l1_becomes_empty [OF b1 t] b1 by (simp_all add: becomes_def)
    show ?thesis
    proof (cases "rank_of (ld_side l) order = bp_rank price")
      case False
      then have "p_raw (bo_price order) \<noteq> p_raw (bp_value (bl_price old))"
        using rank_of_level_price [OF inv L] by simp
      then show ?thesis using addq [OF l1] drop by (simp add: ladder_update_def hit level_delete_def)
    next
      case True
      then have same: "p_raw (bo_price order) = p_raw (bp_value (bl_price old))"
        using rank_of_level_price [OF inv L] by simp
      show ?thesis
      proof (cases "quantity_is_positive (bo_size order)")
        case pos: True
        then have "q_raw (bo_size order) \<noteq> 0" by (simp add: quantity_is_positive_def)
        moreover obtain l2 where "ladder_put_level price (level_update order old) l = Some l2" "becomes l l2 {order}"
          using ladder_replace_becomes [OF inv Some L order(1) True pos] none by auto
        moreover from this have "l1_ok l2 \<and> ladder_queue l2 = [order] \<and> ld_side l2 = ld_side l"
          using l1_becomes_single [of l l2 order] t order(3) by (simp add: becomes_def)
        ultimately show ?thesis using pos by (simp add: ladder_update_def hit same)
      next
        case zero: False
        then have "q_raw (bo_size order) = 0" using order(2) by (simp add: quantity_is_positive_def)
        then show ?thesis using drop l1 zero by (simp add: ladder_update_def hit same level_update_def)
      qed
    qed
  qed
qed

end
