(* ===== verification/Order_Book.thy ===== *)
theory Order_Book
  imports Ladder_L1
begin

text \<open>
  \<open>OrderBook\<close> of \<open>model/src/orderbook/book.rs\<close>: two ladders with the sequence number, the last
  timestamp and the update count, and the operations that maintain them from market data.

  \<open>OrderBookDelta\<close>, \<open>OrderBookDepth10\<close>, \<open>QuoteTick\<close> and \<open>TradeTick\<close> are the structs of the C header
  \<open>nautilus_trader/core/includes/model.h\<close>; of \<open>OrderBookDeltas\<close> the fields the book reads are kept.
  Their constructors belong to the module \<open>data\<close>, which is not part of the sources: those that
  \<open>to_deltas\<close> and \<open>deltas_to_quotes\<close> call are fields of the environment \<open>data_env\<close>.

  An operation that can both fail and panic returns an \<open>option\<close> of the error, if any, and the book.
\<close>

section \<open>Market data\<close>

record order_book_delta =
  obd_instrument_id :: string
  obd_action :: book_action
  obd_order :: book_order
  obd_flags :: nat
  obd_sequence :: nat
  obd_ts_event :: nat
  obd_ts_init :: nat

record order_book_deltas =
  obds_instrument_id :: string
  obds_deltas :: "order_book_delta list"

record order_book_depth10 =
  dep_instrument_id :: string
  dep_bids :: "book_order list"
  dep_asks :: "book_order list"
  dep_flags :: nat
  dep_sequence :: nat
  dep_ts_event :: nat
  dep_ts_init :: nat

record quote_tick =
  qt_instrument_id :: string
  qt_bid_price :: price
  qt_ask_price :: price
  qt_bid_size :: quantity
  qt_ask_size :: quantity
  qt_ts_event :: nat
  qt_ts_init :: nat

record trade_tick =
  tt_instrument_id :: string
  tt_price :: price
  tt_size :: quantity
  tt_ts_event :: nat
  tt_ts_init :: nat

record data_env =
  delta_clear :: "string \<Rightarrow> nat \<Rightarrow> nat \<Rightarrow> nat \<Rightarrow> order_book_delta"
  delta_new :: "string \<Rightarrow> book_action \<Rightarrow> book_order \<Rightarrow> nat \<Rightarrow> nat \<Rightarrow> nat \<Rightarrow> nat \<Rightarrow> order_book_delta option"
  deltas_new :: "string \<Rightarrow> order_book_delta list \<Rightarrow> order_book_deltas option"
  quote_new :: "string \<Rightarrow> price \<Rightarrow> price \<Rightarrow> quantity \<Rightarrow> quantity \<Rightarrow> nat \<Rightarrow> nat \<Rightarrow> quote_tick option"

section \<open>Errors\<close>

datatype invalid_book_operation = PreProcessOrder book_type | AddOperation book_type | UpdateOperation book_type

datatype book_integrity_error =
    OrderNotFound nat nat nat
  | NoOrderSideInBook
  | OrderNotFoundForSideResolution nat
  | OrdersCrossed book_price book_price
  | TooManyOrders order_side nat
  | TooManyLevels order_side nat
  | InstrumentMismatch string string

section \<open>The book\<close>

record order_book =
  ob_instrument_id :: string
  ob_book_type :: book_type
  ob_sequence :: nat
  ob_ts_last :: nat
  ob_update_count :: nat
  ob_bids :: book_ladder
  ob_asks :: book_ladder

definition book_new :: "string \<Rightarrow> book_type \<Rightarrow> order_book" where
  "book_new instrument_id book_type =
     \<lparr> ob_instrument_id = instrument_id, ob_book_type = book_type, ob_sequence = 0, ob_ts_last = 0,
       ob_update_count = 0, ob_bids = ladder_new BuySide book_type, ob_asks = ladder_new SellSide book_type \<rparr>"

definition book_reset :: "order_book \<Rightarrow> order_book" where
  "book_reset b = b \<lparr> ob_bids := ladder_clear (ob_bids b), ob_asks := ladder_clear (ob_asks b),
     ob_sequence := 0, ob_ts_last := 0, ob_update_count := 0 \<rparr>"

definition book_increment :: "nat \<Rightarrow> nat \<Rightarrow> order_book \<Rightarrow> order_book" where
  "book_increment sequence ts_event b =
     b \<lparr> ob_sequence := max sequence (ob_sequence b), ob_ts_last := max ts_event (ob_ts_last b),
         ob_update_count := u64_saturating_add (ob_update_count b) 1 \<rparr>"

text \<open>The \<open>match order.side.as_specified()\<close> that chooses the ladder.\<close>

definition on_side ::
    "order_side \<Rightarrow> (book_ladder \<Rightarrow> book_ladder option) \<Rightarrow> order_book \<Rightarrow> order_book option" where
  "on_side side f b = do {
     s \<leftarrow> as_specified side;
     case s of
       BuySide \<Rightarrow> map_option (\<lambda>l. b \<lparr> ob_bids := l \<rparr>) (f (ob_bids b))
     | SellSide \<Rightarrow> map_option (\<lambda>l. b \<lparr> ob_asks := l \<rparr>) (f (ob_asks b))
   }"

definition book_add :: "book_env \<Rightarrow> book_order \<Rightarrow> nat \<Rightarrow> nat \<Rightarrow> nat \<Rightarrow> order_book \<Rightarrow> order_book option" where
  "book_add E order flags sequence ts_event b =
     (let order = pre_process_order E (ob_book_type b) order flags
      in map_option (book_increment sequence ts_event)
           (on_side (bo_side order) (ladder_add E order flags) b))"

definition book_update :: "book_env \<Rightarrow> book_order \<Rightarrow> nat \<Rightarrow> nat \<Rightarrow> nat \<Rightarrow> order_book \<Rightarrow> order_book option" where
  "book_update E order flags sequence ts_event b =
     (let order = pre_process_order E (ob_book_type b) order flags
      in map_option (book_increment sequence ts_event)
           (on_side (bo_side order) (ladder_update E order flags) b))"

definition book_delete :: "book_env \<Rightarrow> book_order \<Rightarrow> nat \<Rightarrow> nat \<Rightarrow> nat \<Rightarrow> order_book \<Rightarrow> order_book option" where
  "book_delete E order flags sequence ts_event b =
     (let order = pre_process_order E (ob_book_type b) order flags
      in map_option (book_increment sequence ts_event)
           (on_side (bo_side order) (ladder_delete order) b))"

definition book_clear :: "nat \<Rightarrow> nat \<Rightarrow> order_book \<Rightarrow> order_book" where
  "book_clear sequence ts_event b = book_increment sequence ts_event
     (b \<lparr> ob_bids := ladder_clear (ob_bids b), ob_asks := ladder_clear (ob_asks b) \<rparr>)"

definition book_clear_bids :: "nat \<Rightarrow> nat \<Rightarrow> order_book \<Rightarrow> order_book" where
  "book_clear_bids sequence ts_event b =
     book_increment sequence ts_event (b \<lparr> ob_bids := ladder_clear (ob_bids b) \<rparr>)"

definition book_clear_asks :: "nat \<Rightarrow> nat \<Rightarrow> order_book \<Rightarrow> order_book" where
  "book_clear_asks sequence ts_event b =
     book_increment sequence ts_event (b \<lparr> ob_asks := ladder_clear (ob_asks b) \<rparr>)"

section \<open>Queries\<close>

definition best_bid_price :: "order_book \<Rightarrow> price option" where
  "best_bid_price b = map_option (\<lambda>level. bp_value (bl_price level)) (ladder_top (ob_bids b))"

definition best_ask_price :: "order_book \<Rightarrow> price option" where
  "best_ask_price b = map_option (\<lambda>level. bp_value (bl_price level)) (ladder_top (ob_asks b))"

definition best_bid_size :: "order_book \<Rightarrow> quantity option" where
  "best_bid_size b = Option.bind (ladder_top (ob_bids b)) (\<lambda>level. map_option bo_size (level_first level))"

definition best_ask_size :: "order_book \<Rightarrow> quantity option" where
  "best_ask_size b = Option.bind (ladder_top (ob_asks b)) (\<lambda>level. map_option bo_size (level_first level))"

definition book_spread :: "'f f64_ops \<Rightarrow> order_book \<Rightarrow> 'f option" where
  "book_spread F b =
     (case (best_ask_price b, best_bid_price b) of
        (Some ask, Some bid) \<Rightarrow> Some (f64_sub F (price_as_f64 F ask) (price_as_f64 F bid))
      | _ \<Rightarrow> None)"

definition take_depth :: "nat option \<Rightarrow> book_level list \<Rightarrow> book_level list" where
  "take_depth depth levels = (case depth of None \<Rightarrow> levels | Some n \<Rightarrow> take n levels)"

definition book_bids :: "nat option \<Rightarrow> order_book \<Rightarrow> book_level list" where
  "book_bids depth b = take_depth depth (bt_values (ld_levels (ob_bids b)))"

definition book_asks :: "nat option \<Rightarrow> order_book \<Rightarrow> book_level list" where
  "book_asks depth b = take_depth depth (bt_values (ld_levels (ob_asks b)))"

definition book_simulate_fills :: "book_order \<Rightarrow> order_book \<Rightarrow> (price \<times> quantity) list option" where
  "book_simulate_fills order b = do {
     s \<leftarrow> as_specified (bo_side order);
     case s of
       BuySide \<Rightarrow> ladder_simulate_fills order (ob_asks b)
     | SellSide \<Rightarrow> ladder_simulate_fills order (ob_bids b)
   }"

definition get_quantity_at_level :: "price \<Rightarrow> order_side \<Rightarrow> nat \<Rightarrow> order_book \<Rightarrow> quantity option" where
  "get_quantity_at_level price order_side size_precision b = do {
     s \<leftarrow> as_specified order_side;
     let (levels, book_side) = (case s of
         BuySide \<Rightarrow> (ld_levels (ob_asks b), SellSide)
       | SellSide \<Rightarrow> (ld_levels (ob_bids b), BuySide));
     found \<leftarrow> bt_get book_price_cmp (book_price_new price book_side) levels;
     case found of
       None \<Rightarrow> quantity_zero size_precision
     | Some level \<Rightarrow> quantity_from_raw (level_size_raw level) size_precision
   }"

section \<open>Crossed levels\<close>

fun remove_levels :: "book_price list \<Rightarrow> book_ladder \<Rightarrow> (book_level list \<times> book_ladder) option" where
  "remove_levels [] l = Some ([], l)"
| "remove_levels (price # prices) l = do {
     (removed, l) \<leftarrow> ladder_remove_level price l;
     (rest, l) \<leftarrow> remove_levels prices l;
     Some ((case removed of Some level \<Rightarrow> level # rest | None \<Rightarrow> rest), l)
   }"

definition clear_stale_levels :: "order_side option \<Rightarrow> order_book \<Rightarrow> (book_level list option \<times> order_book) option" where
  "clear_stale_levels side b =
     (if ob_book_type b = L1_MBP then Some (None, b)
      else case (best_bid_price b, best_ask_price b) of
        (Some best_bid, Some best_ask) \<Rightarrow>
          if p_raw best_bid \<le> p_raw best_ask then Some (None, b)
          else
            let (clear_bids, clear_asks) = (case side of
                    Some Buy \<Rightarrow> (True, False) | Some Sell \<Rightarrow> (False, True) | _ \<Rightarrow> (True, True));
                ask_prices_to_remove = (if clear_asks
                    then takeWhile (\<lambda>bp. p_raw (bp_value bp) \<le> p_raw best_bid) (bt_keys (ld_levels (ob_asks b)))
                    else []);
                bid_prices_to_remove = (if clear_bids
                    then takeWhile (\<lambda>bp. p_raw (bp_value bp) \<ge> p_raw best_ask) (bt_keys (ld_levels (ob_bids b)))
                    else [])
            in if ask_prices_to_remove = [] \<and> bid_prices_to_remove = [] then Some (None, b)
               else do {
                 (removed_bids, bids) \<leftarrow> remove_levels bid_prices_to_remove (ob_bids b);
                 (removed_asks, asks) \<leftarrow> remove_levels ask_prices_to_remove (ob_asks b);
                 let b = book_increment (ob_sequence b) (ob_ts_last b) (b \<lparr> ob_bids := bids, ob_asks := asks \<rparr>);
                 Some (if removed_bids @ removed_asks = [] then None else Some (removed_bids @ removed_asks), b)
               }
      | _ \<Rightarrow> Some (None, b))"

section \<open>Deltas\<close>

definition resolve_no_side_order :: "order_book \<Rightarrow> book_order \<Rightarrow> book_integrity_error + book_order" where
  "resolve_no_side_order b order =
     (case (case ld_cache (ob_bids b) (bo_order_id order) of
              Some bp \<Rightarrow> Some bp
            | None \<Rightarrow> ld_cache (ob_asks b) (bo_order_id order)) of
        None \<Rightarrow> Inl (OrderNotFoundForSideResolution (bo_order_id order))
      | Some bp \<Rightarrow> Inr (order \<lparr> bo_side := as_order_side (bp_side bp) \<rparr>))"

definition book_run_action ::
    "book_env \<Rightarrow> order_book_delta \<Rightarrow> book_order \<Rightarrow> order_book \<Rightarrow> (book_integrity_error option \<times> order_book) option" where
  "book_run_action E delta order b =
     (if bo_side order = NoOrderSide \<and> obd_action delta \<noteq> Clear then Some (Some NoOrderSideInBook, b)
      else map_option (Pair None)
        (case obd_action delta of
           Add \<Rightarrow> book_add E order (obd_flags delta) (obd_sequence delta) (obd_ts_event delta) b
         | Update \<Rightarrow> book_update E order (obd_flags delta) (obd_sequence delta) (obd_ts_event delta) b
         | Delete \<Rightarrow> book_delete E order (obd_flags delta) (obd_sequence delta) (obd_ts_event delta) b
         | Clear \<Rightarrow> Some (book_clear (obd_sequence delta) (obd_ts_event delta) b)))"

definition apply_delta_unchecked ::
    "book_env \<Rightarrow> order_book_delta \<Rightarrow> order_book \<Rightarrow> (book_integrity_error option \<times> order_book) option" where
  "apply_delta_unchecked E delta b =
     (let order = obd_order delta
      in if bo_side order = NoOrderSide \<and> bo_order_id order \<noteq> 0
         then (case resolve_no_side_order b order of
             Inr resolved \<Rightarrow> book_run_action E delta resolved b
           | Inl (OrderNotFoundForSideResolution _) \<Rightarrow>
               (case obd_action delta of
                  Add \<Rightarrow> Some (Some NoOrderSideInBook, b)
                | Update \<Rightarrow> Some (None, b)
                | Delete \<Rightarrow> Some (None, b)
                | Clear \<Rightarrow> book_run_action E delta order b)
           | Inl e \<Rightarrow> Some (Some e, b))
         else book_run_action E delta order b)"

definition apply_delta ::
    "book_env \<Rightarrow> order_book_delta \<Rightarrow> order_book \<Rightarrow> (book_integrity_error option \<times> order_book) option" where
  "apply_delta E delta b =
     (if obd_instrument_id delta \<noteq> ob_instrument_id b
      then Some (Some (InstrumentMismatch (ob_instrument_id b) (obd_instrument_id delta)), b)
      else apply_delta_unchecked E delta b)"

fun apply_deltas_list ::
    "book_env \<Rightarrow> order_book_delta list \<Rightarrow> order_book \<Rightarrow> (book_integrity_error option \<times> order_book) option" where
  "apply_deltas_list E [] b = Some (None, b)"
| "apply_deltas_list E (delta # deltas) b = do {
     (err, b) \<leftarrow> apply_delta_unchecked E delta b;
     case err of Some e \<Rightarrow> Some (Some e, b) | None \<Rightarrow> apply_deltas_list E deltas b
   }"

definition apply_deltas_unchecked ::
    "book_env \<Rightarrow> order_book_deltas \<Rightarrow> order_book \<Rightarrow> (book_integrity_error option \<times> order_book) option" where
  "apply_deltas_unchecked E deltas b = apply_deltas_list E (obds_deltas deltas) b"

definition apply_deltas ::
    "book_env \<Rightarrow> order_book_deltas \<Rightarrow> order_book \<Rightarrow> (book_integrity_error option \<times> order_book) option" where
  "apply_deltas E deltas b =
     (if obds_instrument_id deltas \<noteq> ob_instrument_id b
      then Some (Some (InstrumentMismatch (ob_instrument_id b) (obds_instrument_id deltas)), b)
      else apply_deltas_unchecked E deltas b)"

text \<open>The two loops of \<open>to_deltas\<close>: every order becomes an \<open>Add\<close>, the last one carries \<open>F_LAST\<close>.\<close>

fun snapshot_adds ::
    "data_env \<Rightarrow> order_book \<Rightarrow> nat \<Rightarrow> nat \<Rightarrow> nat \<Rightarrow> nat \<Rightarrow> book_order list \<Rightarrow> order_book_delta list option" where
  "snapshot_adds D b ts_event ts_init total_orders order_count [] = Some []"
| "snapshot_adds D b ts_event ts_init total_orders order_count (order # orders) = do {
     let order_count = order_count + 1;
     let flags = (if order_count = total_orders then flag_value F_SNAPSHOT + flag_value F_LAST else flag_value F_SNAPSHOT);
     delta \<leftarrow> delta_new D (ob_instrument_id b) Add order flags (ob_sequence b) ts_event ts_init;
     deltas \<leftarrow> snapshot_adds D b ts_event ts_init total_orders order_count orders;
     Some (delta # deltas)
   }"

definition to_deltas :: "data_env \<Rightarrow> nat \<Rightarrow> nat \<Rightarrow> order_book \<Rightarrow> order_book_deltas option" where
  "to_deltas D ts_event ts_init b = do {
     let bid_orders = concat (map level_get_orders (book_bids None b));
     let ask_orders = concat (map level_get_orders (book_asks None b));
     let total_orders = (\<Sum>level \<leftarrow> book_bids None b. level_len level) + (\<Sum>level \<leftarrow> book_asks None b. level_len level);
     let clear = delta_clear D (ob_instrument_id b) (ob_sequence b) ts_event ts_init;
     let clear = (if total_orders = 0 \<and> \<not> flag_matches F_LAST (obd_flags clear)
                  then clear \<lparr> obd_flags := obd_flags clear + flag_value F_LAST \<rparr> else clear);
     adds \<leftarrow> snapshot_adds D b ts_event ts_init total_orders 0 (bid_orders @ ask_orders);
     deltas_new D (ob_instrument_id b) (clear # adds)
   }"

section \<open>Depth snapshots\<close>

fun depth_side ::
    "book_env \<Rightarrow> book_type \<Rightarrow> order_side \<Rightarrow> nat \<Rightarrow> book_order list \<Rightarrow> book_ladder \<Rightarrow> book_ladder option" where
  "depth_side E t side flags [] l = Some l"
| "depth_side E t side flags (order # orders) l =
     (if bo_side order = NoOrderSide \<or> \<not> quantity_is_positive (bo_size order) then depth_side E t side flags orders l
      else if bo_side order \<noteq> side then depth_side E t side flags orders l
      else do {
        l \<leftarrow> ladder_add E (pre_process_order E t order flags) flags l;
        depth_side E t side flags orders l
      })"

definition apply_depth_unchecked :: "book_env \<Rightarrow> order_book_depth10 \<Rightarrow> order_book \<Rightarrow> order_book option" where
  "apply_depth_unchecked E depth b = do {
     bids \<leftarrow> depth_side E (ob_book_type b) Buy (dep_flags depth) (dep_bids depth) (ladder_clear (ob_bids b));
     asks \<leftarrow> depth_side E (ob_book_type b) Sell (dep_flags depth) (dep_asks depth) (ladder_clear (ob_asks b));
     Some (book_increment (dep_sequence depth) (dep_ts_event depth) (b \<lparr> ob_bids := bids, ob_asks := asks \<rparr>))
   }"

definition apply_depth ::
    "book_env \<Rightarrow> order_book_depth10 \<Rightarrow> order_book \<Rightarrow> (book_integrity_error option \<times> order_book) option" where
  "apply_depth E depth b =
     (if dep_instrument_id depth \<noteq> ob_instrument_id b
      then Some (Some (InstrumentMismatch (ob_instrument_id b) (dep_instrument_id depth)), b)
      else map_option (Pair None) (apply_depth_unchecked E depth b))"

section \<open>Ticks\<close>

definition replace_top :: "book_env \<Rightarrow> book_order \<Rightarrow> book_ladder \<Rightarrow> book_ladder option" where
  "replace_top E order l = do {
     l \<leftarrow> (case ladder_top l of
         None \<Rightarrow> Some l
       | Some level \<Rightarrow> (case level_first level of None \<Rightarrow> Some l | Some first \<Rightarrow> ladder_remove_order (bo_order_id first) l));
     ladder_add E order 0 l
   }"

definition update_book_bid :: "book_env \<Rightarrow> book_order \<Rightarrow> order_book \<Rightarrow> order_book option" where
  "update_book_bid E order b = map_option (\<lambda>l. b \<lparr> ob_bids := l \<rparr>) (replace_top E order (ob_bids b))"

definition update_book_ask :: "book_env \<Rightarrow> book_order \<Rightarrow> order_book \<Rightarrow> order_book option" where
  "update_book_ask E order b = map_option (\<lambda>l. b \<lparr> ob_asks := l \<rparr>) (replace_top E order (ob_asks b))"

definition book_order_new :: "order_side \<Rightarrow> price \<Rightarrow> quantity \<Rightarrow> order_id \<Rightarrow> book_order" where
  "book_order_new side price sz order_id =
     \<lparr> bo_side = side, bo_price = price, bo_size = sz, bo_order_id = order_id \<rparr>"

definition update_top :: "book_env \<Rightarrow> book_order \<Rightarrow> book_order \<Rightarrow> nat \<Rightarrow> order_book \<Rightarrow> order_book option" where
  "update_top E bid ask ts_event b = do {
     b \<leftarrow> update_book_bid E bid b;
     b \<leftarrow> update_book_ask E ask b;
     Some (book_increment (u64_saturating_add (ob_sequence b) 1) ts_event b)
   }"

definition update_quote_tick ::
    "book_env \<Rightarrow> quote_tick \<Rightarrow> order_book \<Rightarrow> (invalid_book_operation option \<times> order_book) option" where
  "update_quote_tick E quote b =
     (if ob_book_type b \<noteq> L1_MBP then Some (Some (UpdateOperation (ob_book_type b)), b)
      else if qt_ts_event quote < ob_ts_last b then Some (None, b)
      else map_option (Pair None)
        (update_top E
           (book_order_new Buy (qt_bid_price quote) (qt_bid_size quote) (order_side_as_u64 Buy))
           (book_order_new Sell (qt_ask_price quote) (qt_ask_size quote) (order_side_as_u64 Sell))
           (qt_ts_event quote) b))"

definition update_trade_tick ::
    "book_env \<Rightarrow> trade_tick \<Rightarrow> order_book \<Rightarrow> (invalid_book_operation option \<times> order_book) option" where
  "update_trade_tick E trade b =
     (if ob_book_type b \<noteq> L1_MBP then Some (Some (UpdateOperation (ob_book_type b)), b)
      else if tt_ts_event trade < ob_ts_last b then Some (None, b)
      else map_option (Pair None)
        (update_top E
           (book_order_new Buy (tt_price trade) (tt_size trade) (order_side_as_u64 Buy))
           (book_order_new Sell (tt_price trade) (tt_size trade) (order_side_as_u64 Sell))
           (tt_ts_event trade) b))"

section \<open>Quotes from deltas\<close>

definition price_opt_eq :: "price option \<Rightarrow> price option \<Rightarrow> bool" where
  "price_opt_eq a b \<longleftrightarrow> map_option p_raw a = map_option p_raw b"

fun quotes_loop ::
    "book_env \<Rightarrow> data_env \<Rightarrow> string \<Rightarrow> order_book_delta list \<Rightarrow> order_book \<Rightarrow> price option \<Rightarrow> price option \<Rightarrow>
     quote_tick list option" where
  "quotes_loop E D instrument_id [] b last_bid last_ask = Some []"
| "quotes_loop E D instrument_id (delta # deltas) b last_bid last_ask = do {
     (err, b) \<leftarrow> apply_delta E delta b;
     assert_that (err = None);
     let bid = best_bid_price b;
     let ask = best_ask_price b;
     let gone = (bid = None \<or> ask = None);
     let last_bid = (if gone then None else last_bid);
     let last_ask = (if gone then None else last_ask);
     case (bid, ask) of
       (Some bid_px, Some ask_px) \<Rightarrow>
         if \<not> price_opt_eq bid last_bid \<or> \<not> price_opt_eq ask last_ask
         then do {
           bid_level \<leftarrow> ladder_top (ob_bids b);
           ask_level \<leftarrow> ladder_top (ob_asks b);
           first \<leftarrow> level_first bid_level;
           bid_sz \<leftarrow> quantity_from_raw (level_size_raw bid_level) (q_prec (bo_size first));
           ask_sz \<leftarrow> quantity_from_raw (level_size_raw ask_level) (q_prec (bo_size first));
           quote \<leftarrow> quote_new D instrument_id bid_px ask_px bid_sz ask_sz (obd_ts_event delta) (obd_ts_init delta);
           quotes \<leftarrow> quotes_loop E D instrument_id deltas b bid ask;
           Some (quote # quotes)
         }
         else quotes_loop E D instrument_id deltas b last_bid last_ask
     | _ \<Rightarrow> quotes_loop E D instrument_id deltas b last_bid last_ask
   }"

definition deltas_to_quotes ::
    "book_env \<Rightarrow> data_env \<Rightarrow> book_type \<Rightarrow> order_book_delta list \<Rightarrow> quote_tick list option" where
  "deltas_to_quotes E D book_type deltas =
     (case deltas of
        [] \<Rightarrow> None
      | delta # _ \<Rightarrow>
          quotes_loop E D (obd_instrument_id delta) deltas (book_new (obd_instrument_id delta) book_type) None None)"

end
