(* ===== verification/Book_Invariant.thy ===== *)
theory Book_Invariant
  imports Order_Book
begin

text \<open>
  The invariant of an order book and what each operation does under it: both ladders are sound for
  the type of the book, no operation panics, and the orders that rest afterwards are those the
  operation describes.
\<close>

text \<open>
  A sound side of a book: an L1 ladder holds at most one order, the orders of an L2 ladder carry
  the id of their price, and an L3 ladder is any sound ladder.
\<close>

definition side_ok :: "book_env \<Rightarrow> book_type \<Rightarrow> book_ladder \<Rightarrow> bool" where
  "side_ok E t l \<longleftrightarrow> ladder_inv l \<and> ld_book_type l = t \<and> (t = L1_MBP \<longrightarrow> l1_ok l) \<and>
     (t = L2_MBP \<longrightarrow> (\<forall>x \<in> set (ladder_queue l).
        bo_order_id x = price_based_order_id E x \<and> in_i64 (p_raw (bo_price x))))"

definition book_inv :: "book_env \<Rightarrow> order_book \<Rightarrow> bool" where
  "book_inv E b \<longleftrightarrow> ld_side (ob_bids b) = BuySide \<and> ld_side (ob_asks b) = SellSide \<and>
     side_ok E (ob_book_type b) (ob_bids b) \<and> side_ok E (ob_book_type b) (ob_asks b)"

definition ladder_of :: "order_side_specified \<Rightarrow> order_book \<Rightarrow> book_ladder" where
  "ladder_of s b = (case s of BuySide \<Rightarrow> ob_bids b | SellSide \<Rightarrow> ob_asks b)"

definition set_ladder :: "order_side_specified \<Rightarrow> book_ladder \<Rightarrow> order_book \<Rightarrow> order_book" where
  "set_ladder s l b = (case s of BuySide \<Rightarrow> b \<lparr> ob_bids := l \<rparr> | SellSide \<Rightarrow> b \<lparr> ob_asks := l \<rparr>)"

text \<open>
  What is asked of an incoming order: a side, a defined size and a price that fits its type; in a
  book that keeps order ids, an id that is not already used at another price.
\<close>

definition order_typed :: "book_order \<Rightarrow> bool" where
  "order_typed order \<longleftrightarrow> q_raw (bo_size order) \<noteq> QUANTITY_UNDEF \<and> in_i64 (p_raw (bo_price order))"

definition id_usable :: "book_env \<Rightarrow> book_order \<Rightarrow> nat \<Rightarrow> book_ladder \<Rightarrow> bool" where
  "id_usable E order flags l \<longleftrightarrow>
     ld_book_type l = L3_MBO \<longrightarrow> id_free (pre_process_order E L3_MBO order flags) l"

text \<open>A batch of an L1 ladder may keep the old order; everywhere else the new one is in the book.\<close>

definition kept_better :: "book_order \<Rightarrow> nat \<Rightarrow> book_ladder \<Rightarrow> bool" where
  "kept_better order flags l \<longleftrightarrow> ld_book_type l = L1_MBP \<and> l1_continues flags l \<and>
     (\<exists>x. ladder_queue l = [x] \<and> rank_of (ld_side l) x < rank_of (ld_side l) order)"

definition delta_ok :: "book_env \<Rightarrow> order_book_delta \<Rightarrow> order_book \<Rightarrow> bool" where
  "delta_ok E delta b \<longleftrightarrow> order_typed (obd_order delta) \<and>
     (obd_action delta = Add \<longrightarrow> (\<forall>s. bo_side (obd_order delta) \<in> {as_order_side s, NoOrderSide} \<longrightarrow>
        id_usable E ((obd_order delta) \<lparr> bo_side := as_order_side s \<rparr>) (obd_flags delta) (ladder_of s b)))"

definition depth_ok :: "book_env \<Rightarrow> book_type \<Rightarrow> nat \<Rightarrow> book_order list \<Rightarrow> bool" where
  "depth_ok E t flags orders \<longleftrightarrow> (\<forall>x \<in> set orders. order_typed x) \<and>
     (t = L3_MBO \<longrightarrow> distinct (map (\<lambda>x. bo_order_id (pre_process_order E t x flags)) orders))"

section \<open>The invariant of a book\<close>

lemma side_okD:
  assumes "side_ok E t l"
  shows "ladder_inv l" and "ld_book_type l = t" and "t = L1_MBP \<Longrightarrow> l1_ok l"
  using assms by (simp_all add: side_ok_def)

lemma ladder_of_set [simp]:
  "ladder_of s (set_ladder s l b) = l" "ladder_of s (set_ladder (opposite s) l b) = ladder_of s b"
  "ladder_of (opposite s) (set_ladder s l b) = ladder_of (opposite s) b"
  "ob_book_type (set_ladder s l b) = ob_book_type b" "ob_instrument_id (set_ladder s l b) = ob_instrument_id b"
  by (cases s; simp add: ladder_of_def set_ladder_def)+

lemma book_inv_sides:
  "book_inv E b \<longleftrightarrow> (\<forall>s. ld_side (ladder_of s b) = s \<and> side_ok E (ob_book_type b) (ladder_of s b))"
proof
  assume "book_inv E b"
  then show "\<forall>s. ld_side (ladder_of s b) = s \<and> side_ok E (ob_book_type b) (ladder_of s b)"
    by (auto simp: book_inv_def ladder_of_def split: order_side_specified.splits)
next
  assume all: "\<forall>s. ld_side (ladder_of s b) = s \<and> side_ok E (ob_book_type b) (ladder_of s b)"
  show "book_inv E b"
    using all [rule_format, of BuySide] all [rule_format, of SellSide] by (simp add: book_inv_def ladder_of_def)
qed

lemma book_inv_set_ladder:
  assumes "book_inv E b" and "ld_side l = s" and "side_ok E (ob_book_type b) l"
  shows "book_inv E (set_ladder s l b)"
  using assms by (cases s) (simp_all add: book_inv_def set_ladder_def)

lemma book_increment_simps [simp]:
  "ob_bids (book_increment q t b) = ob_bids b" "ob_asks (book_increment q t b) = ob_asks b"
  "ob_book_type (book_increment q t b) = ob_book_type b"
  "ob_instrument_id (book_increment q t b) = ob_instrument_id b"
  "book_inv E (book_increment q t b) = book_inv E b"
  "ladder_of s (book_increment q t b) = ladder_of s b"
  by (simp_all add: book_increment_def book_inv_def ladder_of_def split: order_side_specified.split)

lemma on_side_eq:
  "on_side (as_order_side s) f b = map_option (\<lambda>l. set_ladder s l b) (f (ladder_of s b))"
  by (cases s) (simp_all add: on_side_def set_ladder_def ladder_of_def)

section \<open>One side\<close>

text \<open>In an L2 book a price determines the id and, the hash being collision free, an id the price.\<close>

lemma l2_id_free:
  assumes ok: "side_ok E L2_MBP l" and hash: "hash_collision_free E"
    and order: "bo_order_id order = price_based_order_id E order" "in_i64 (p_raw (bo_price order))"
  shows "id_free order l"
  unfolding id_free_def
proof (intro allI impI)
  fix bp
  assume c: "ld_cache l (bo_order_id order) = Some bp"
  note inv = side_okD(1) [OF ok]
  from levels_ok_cache [OF ladder_invD(2) [OF inv] c] obtain lv x where
    L: "ladder_levels l (bp_rank bp) = Some lv" and x: "(bo_order_id order, x) \<in> set (bl_orders lv)"
    by (metis (no_types, lifting) imageE list.set_map prod.collapse)
  have "x \<in> resting (ladder_levels l)" using L x by (auto simp: resting_def)
  then have "x \<in> set (ladder_queue l)" by (simp add: ladder_queue_resting [OF inv])
  then have "bo_order_id x = hash_one E (p_raw (bo_price x))" and "in_i64 (p_raw (bo_price x))"
    using ok by (auto simp: side_ok_def price_based_order_id_def price_to_order_id_def)
  moreover have "bo_order_id x = bo_order_id order" "rank_of (ld_side l) x = bp_rank bp"
    using levels_ok_order [OF ladder_invD(2) [OF inv] L x] by simp_all
  ultimately have "hash_one E (p_raw (bo_price x)) = hash_one E (p_raw (bo_price order))"
    using order(1) by (simp add: price_based_order_id_def price_to_order_id_def)
  then have "p_raw (bo_price x) = p_raw (bo_price order)"
    using hash order(2) \<open>in_i64 (p_raw (bo_price x))\<close>
    by (auto simp: hash_collision_free_def inj_on_def in_i64_def)
  then show "bp_rank bp = rank_of (ld_side l) order"
    using \<open>rank_of (ld_side l) x = bp_rank bp\<close> price_rank_eq_iff by metis
qed

lemma pre_process_id:
  "bo_order_id (pre_process_order E L1_MBP order flags) = order_side_as_u64 (bo_side order)"
  "bo_order_id (pre_process_order E L2_MBP order flags) = price_based_order_id E order"
  by (simp_all add: pre_process_order_def)

lemma price_based_order_id_pre [simp]:
  "price_based_order_id E (pre_process_order E t order flags) = price_based_order_id E order"
  by (simp add: price_based_order_id_def)

lemma side_ok_becomes:
  assumes "becomes l l' S" and "side_ok E t l" and "t \<noteq> L1_MBP"
    and "t = L2_MBP \<Longrightarrow> \<forall>x \<in> S. bo_order_id x = price_based_order_id E x \<and> in_i64 (p_raw (bo_price x))"
  shows "side_ok E t l'"
  using assms by (auto simp: side_ok_def becomes_def)

lemma l1_side_ok: "l1_ok l \<Longrightarrow> side_ok E L1_MBP l"
  by (simp add: side_ok_def l1_ok_def)

lemma side_add:
  assumes E: "book_env_ok E" "hash_collision_free E" and ok: "side_ok E t l"
    and order: "bo_side order = as_order_side (ld_side l)" "order_typed order" and free: "id_usable E order flags l"
  defines "order' \<equiv> pre_process_order E t order flags"
  shows "\<exists>l'. ladder_add E order' flags l = Some l' \<and> side_ok E t l' \<and> ld_side l' = ld_side l \<and>
    set (ladder_queue l') =
      (if \<not> quantity_is_positive (bo_size order) then (if t = L1_MBP then {} else set (ladder_queue l))
       else if kept_better order' flags l then set (ladder_queue l)
       else insert order' (without (bo_order_id order') l))"
proof (cases "t = L1_MBP")
  case True
  have id: "bo_order_id order' = order_side_as_u64 (as_order_side (ld_side l))"
    and sd: "bo_side order' = as_order_side (ld_side l)" and sz: "bo_size order' = bo_size order"
    using order(1) by (simp_all add: order'_def True pre_process_id)
  have none: "without (bo_order_id order') l = {}"
    using side_okD(3) [OF ok True] by (auto simp: id l1_ok_def)
  have t: "ld_book_type l = L1_MBP" using side_okD(2) [OF ok] True by simp
  obtain l' where l': "ladder_add E order' flags l = Some l'" "l1_ok l'" "ld_side l' = ld_side l"
    "ladder_queue l' = (if \<not> quantity_is_positive (bo_size order') then []
       else if l1_continues flags l \<and> (\<exists>x. ladder_queue l = [x] \<and> rank_of (ld_side l) x < rank_of (ld_side l) order')
       then ladder_queue l else [order'])"
    using l1_add [OF E(1) side_okD(3) [OF ok True] sd id] by blast
  then show ?thesis
    using l1_side_ok [OF l'(2)] True t unfolding none kept_better_def sz
    by (intro exI [of _ l']) auto
next
  case False
  have sd: "bo_side order' = as_order_side (ld_side l)" using order(1) by (simp add: order'_def)
  have t: "ld_book_type l = t" using side_okD(2) [OF ok] .
  have new: "bo_order_id order' = price_based_order_id E order' \<and> in_i64 (p_raw (bo_price order'))" if "t = L2_MBP"
    using order(2) that by (simp add: order'_def pre_process_id order_typed_def)
  have "id_free order' l"
  proof (cases t)
    case L2_MBP
    then show ?thesis using l2_id_free [of E l order'] ok E(2) new by simp
  next
    case L3_MBO
    then show ?thesis using free t by (simp add: id_usable_def order'_def)
  qed (use False in simp)
  then obtain l' where l': "ladder_add E order' flags l = Some l'"
    "becomes l l' (if quantity_is_positive (bo_size order')
      then insert order' (without (bo_order_id order') l) else set (ladder_queue l))"
    using ladder_add_becomes [OF E(1) side_okD(1) [OF ok] _ sd] False t by blast
  moreover have "side_ok E t l'"
    by (rule side_ok_becomes [OF l'(2) ok False]) (use new ok in \<open>auto simp: side_ok_def\<close>)
  moreover have "\<not> kept_better order' flags l" using False t by (simp add: kept_better_def)
  ultimately show ?thesis using False by (auto simp: becomes_def order'_def)
qed

lemma side_update:
  fixes flags :: nat
  assumes E: "book_env_ok E" "hash_collision_free E" and ok: "side_ok E t l"
    and order: "bo_side order = as_order_side (ld_side l)" "order_typed order"
  defines "order' \<equiv> pre_process_order E t order flags"
  shows "\<exists>l'. ladder_update E order' flags l = Some l' \<and> side_ok E t l' \<and> ld_side l' = ld_side l \<and>
    set (ladder_queue l') =
      (if quantity_is_positive (bo_size order) then insert order' (without (bo_order_id order') l)
       else without (bo_order_id order') l)"
proof -
  have sd: "bo_side order' = as_order_side (ld_side l)" and sz: "q_raw (bo_size order') \<noteq> QUANTITY_UNDEF"
    using order by (simp_all add: order'_def order_typed_def)
  show ?thesis
  proof (cases "t = L1_MBP")
    case True
    have id: "bo_order_id order' = order_side_as_u64 (as_order_side (ld_side l))"
      using order(1) by (simp add: order'_def True pre_process_id)
    have none: "without (bo_order_id order') l = {}"
      using side_okD(3) [OF ok True] by (auto simp: id l1_ok_def)
    obtain l' where l': "ladder_update E order' flags l = Some l'" "l1_ok l'" "ld_side l' = ld_side l"
      "ladder_queue l' = (if quantity_is_positive (bo_size order') then [order'] else [])"
      using l1_update [OF E(1) side_okD(3) [OF ok True] sd sz id] by blast
    moreover have "bo_size order' = bo_size order" by (simp add: order'_def)
    ultimately show ?thesis
      using l1_side_ok [OF l'(2)] True unfolding none by (intro exI [of _ l']) simp
  next
    case False
    have new: "bo_order_id order' = price_based_order_id E order' \<and> in_i64 (p_raw (bo_price order'))" if "t = L2_MBP"
      using order(2) that by (simp add: order'_def pre_process_id order_typed_def)
    obtain l' where l': "ladder_update E order' flags l = Some l'"
      "becomes l l' (if quantity_is_positive (bo_size order')
        then insert order' (without (bo_order_id order') l) else without (bo_order_id order') l)"
      using ladder_update_becomes [OF E(1) side_okD(1) [OF ok] _ sd sz] False side_okD(2) [OF ok] by blast
    moreover have "side_ok E t l'"
      by (rule side_ok_becomes [OF l'(2) ok False]) (use new ok in \<open>auto simp: side_ok_def\<close>)
    ultimately show ?thesis by (auto simp: becomes_def order'_def)
  qed
qed

lemma side_remove_order:
  assumes ok: "side_ok E t l"
  shows "\<exists>l'. ladder_remove_order i l = Some l' \<and> side_ok E t l' \<and> ld_side l' = ld_side l \<and>
    set (ladder_queue l') = without i l"
proof (cases "t = L1_MBP")
  case True
  then show ?thesis using l1_remove_order [OF side_okD(3) [OF ok True]] l1_side_ok by blast
next
  case False
  obtain l' where l': "ladder_remove_order i l = Some l'" "becomes l l' (without i l)"
    using ladder_remove_order_becomes [OF side_okD(1) [OF ok]] by blast
  moreover have "side_ok E t l'"
    by (rule side_ok_becomes [OF l'(2) ok False]) (use ok in \<open>auto simp: side_ok_def\<close>)
  ultimately show ?thesis by (auto simp: becomes_def)
qed

lemma ladder_clear_fields [simp]:
  "ld_side (ladder_clear l) = ld_side l" "ld_book_type (ladder_clear l) = ld_book_type l"
  "ladder_queue (ladder_clear l) = []"
  by (simp_all add: ladder_clear_def ladder_queue_def)

lemma side_ok_clear [simp]: "side_ok E t l \<Longrightarrow> side_ok E t (ladder_clear l)"
  using l1_ok_clear [of l NoBatch] ladder_inv_clear [of l]
  by (auto simp: side_ok_def ladder_clear_def ladder_queue_def)

section \<open>Operations of the book\<close>

lemma book_side_op:
  assumes inv: "book_inv E b"
    and op: "\<exists>l'. f (ladder_of s b) = Some l' \<and> side_ok E (ob_book_type b) l' \<and> ld_side l' = s \<and>
      set (ladder_queue l') = S"
  shows "\<exists>b'. map_option (book_increment q t) (on_side (as_order_side s) f b) = Some b' \<and> book_inv E b' \<and>
    set (ladder_queue (ladder_of s b')) = S \<and>
    ladder_of (opposite s) b' = ladder_of (opposite s) b \<and> ob_book_type b' = ob_book_type b \<and>
    ob_instrument_id b' = ob_instrument_id b"
proof -
  obtain l' where l': "f (ladder_of s b) = Some l'" "side_ok E (ob_book_type b) l'" "ld_side l' = s"
    "set (ladder_queue l') = S"
    using op by blast
  then show ?thesis
    using book_inv_set_ladder [OF inv l'(3,2)]
    by (intro exI [of _ "book_increment q t (set_ladder s l' b)"]) (simp add: on_side_eq)
qed

lemma book_invD: "book_inv E b \<Longrightarrow> ld_side (ladder_of s b) = s \<and> side_ok E (ob_book_type b) (ladder_of s b)"
  by (simp add: book_inv_sides)

lemma book_add_spec:
  assumes E: "book_env_ok E" "hash_collision_free E" and inv: "book_inv E b"
    and order: "bo_side order = as_order_side s" "order_typed order" "id_usable E order flags (ladder_of s b)"
  defines "order' \<equiv> pre_process_order E (ob_book_type b) order flags"
  shows "\<exists>b'. book_add E order flags q t b = Some b' \<and> book_inv E b' \<and>
    set (ladder_queue (ladder_of s b')) =
      (if \<not> quantity_is_positive (bo_size order)
       then (if ob_book_type b = L1_MBP then {} else set (ladder_queue (ladder_of s b)))
       else if kept_better order' flags (ladder_of s b) then set (ladder_queue (ladder_of s b))
       else insert order' (without (bo_order_id order') (ladder_of s b))) \<and>
    ladder_of (opposite s) b' = ladder_of (opposite s) b \<and> ob_book_type b' = ob_book_type b \<and>
    ob_instrument_id b' = ob_instrument_id b"
proof -
  have "ld_side (ladder_of s b) = s" and ok: "side_ok E (ob_book_type b) (ladder_of s b)"
    using book_invD [OF inv] by simp_all
  then have "\<exists>l'. ladder_add E order' flags (ladder_of s b) = Some l' \<and> side_ok E (ob_book_type b) l' \<and> ld_side l' = s \<and>
    set (ladder_queue l') =
      (if \<not> quantity_is_positive (bo_size order)
       then (if ob_book_type b = L1_MBP then {} else set (ladder_queue (ladder_of s b)))
       else if kept_better order' flags (ladder_of s b) then set (ladder_queue (ladder_of s b))
       else insert order' (without (bo_order_id order') (ladder_of s b)))"
    using side_add [OF E ok] order unfolding order'_def by simp
  from book_side_op [where f = "ladder_add E order' flags" and s = s and q = q and t = t, OF inv this] show ?thesis
    using order(1) by (simp add: book_add_def Let_def order'_def)
qed

lemma book_update_spec:
  fixes flags :: nat
  assumes E: "book_env_ok E" "hash_collision_free E" and inv: "book_inv E b"
    and order: "bo_side order = as_order_side s" "order_typed order"
  defines "order' \<equiv> pre_process_order E (ob_book_type b) order flags"
  shows "\<exists>b'. book_update E order flags q t b = Some b' \<and> book_inv E b' \<and>
    set (ladder_queue (ladder_of s b')) =
      (if quantity_is_positive (bo_size order) then insert order' (without (bo_order_id order') (ladder_of s b))
       else without (bo_order_id order') (ladder_of s b)) \<and>
    ladder_of (opposite s) b' = ladder_of (opposite s) b \<and> ob_book_type b' = ob_book_type b \<and>
    ob_instrument_id b' = ob_instrument_id b"
proof -
  have "ld_side (ladder_of s b) = s" and ok: "side_ok E (ob_book_type b) (ladder_of s b)"
    using book_invD [OF inv] by simp_all
  then have "\<exists>l'. ladder_update E order' flags (ladder_of s b) = Some l' \<and> side_ok E (ob_book_type b) l' \<and> ld_side l' = s \<and>
    set (ladder_queue l') =
      (if quantity_is_positive (bo_size order) then insert order' (without (bo_order_id order') (ladder_of s b))
       else without (bo_order_id order') (ladder_of s b))"
    using side_update [OF E ok] order unfolding order'_def by simp
  from book_side_op [where f = "ladder_update E order' flags" and s = s and q = q and t = t, OF inv this] show ?thesis
    using order(1) by (simp add: book_update_def Let_def order'_def)
qed

lemma book_delete_spec:
  fixes flags :: nat
  assumes inv: "book_inv E b" and order: "bo_side order = as_order_side s"
  defines "i \<equiv> bo_order_id (pre_process_order E (ob_book_type b) order flags)"
  shows "\<exists>b'. book_delete E order flags q t b = Some b' \<and> book_inv E b' \<and>
    set (ladder_queue (ladder_of s b')) = without i (ladder_of s b) \<and>
    ladder_of (opposite s) b' = ladder_of (opposite s) b \<and> ob_book_type b' = ob_book_type b \<and>
    ob_instrument_id b' = ob_instrument_id b"
proof -
  have "ld_side (ladder_of s b) = s" and ok: "side_ok E (ob_book_type b) (ladder_of s b)"
    using book_invD [OF inv] by simp_all
  then have "\<exists>l'. ladder_delete (pre_process_order E (ob_book_type b) order flags) (ladder_of s b) = Some l' \<and>
      side_ok E (ob_book_type b) l' \<and> ld_side l' = s \<and> set (ladder_queue l') = without i (ladder_of s b)"
    using side_remove_order [OF ok, of i] by (simp add: ladder_delete_def i_def)
  from book_side_op [where f = "ladder_delete (pre_process_order E (ob_book_type b) order flags)" and s = s and q = q and t = t, OF inv this] show ?thesis
    using order(1) by (simp add: book_delete_def Let_def)
qed

lemma book_inv_new: "book_inv E (book_new i t)"
  using ladder_inv_new by (simp add: book_inv_def book_new_def side_ok_def l1_ok_def) (simp add: ladder_new_def ladder_queue_def)

lemma book_inv_clear: "book_inv E b \<Longrightarrow> book_inv E (book_clear q t b)"
  by (simp add: book_inv_def book_clear_def)

lemma book_inv_clear_sides:
  "book_inv E b \<Longrightarrow> book_inv E (book_clear_bids q t b)" "book_inv E b \<Longrightarrow> book_inv E (book_clear_asks q t b)"
  "book_inv E b \<Longrightarrow> book_inv E (book_reset b)"
  by (simp_all add: book_inv_def book_clear_bids_def book_clear_asks_def book_reset_def)

section \<open>Deltas, ticks and depth snapshots\<close>

lemma book_run_action_ok:
  assumes E: "book_env_ok E" "hash_collision_free E" and inv: "book_inv E b"
    and side: "bo_side order = as_order_side s \<or> bo_side order = NoOrderSide" and typed: "order_typed order"
    and free: "obd_action delta = Add \<Longrightarrow> bo_side order = as_order_side s \<Longrightarrow>
      id_usable E order (obd_flags delta) (ladder_of s b)"
  shows "\<exists>e b'. book_run_action E delta order b = Some (e, b') \<and> book_inv E b' \<and> (e \<noteq> None \<longrightarrow> b' = b)"
proof (cases "bo_side order = NoOrderSide")
  case True
  then show ?thesis using inv book_inv_clear [OF inv]
    by (cases "obd_action delta") (auto simp: book_run_action_def)
next
  case False
  then have sd: "bo_side order = as_order_side s" using side by simp
  show ?thesis
  proof (cases "obd_action delta")
    case Add
    then show ?thesis using book_add_spec [OF E inv sd typed free [OF Add sd], of "obd_sequence delta" "obd_ts_event delta"]
      by (auto simp: book_run_action_def sd)
  next
    case Update
    then show ?thesis using book_update_spec [OF E inv sd typed, of "obd_flags delta" "obd_sequence delta" "obd_ts_event delta"]
      by (auto simp: book_run_action_def sd)
  next
    case Delete
    then show ?thesis using book_delete_spec [OF inv sd, of "obd_flags delta" "obd_sequence delta" "obd_ts_event delta"]
      by (auto simp: book_run_action_def sd)
  next
    case Clear
    then show ?thesis using book_inv_clear [OF inv] by (simp add: book_run_action_def)
  qed
qed

lemma resolve_side:
  assumes "book_inv E b" and "resolve_no_side_order b order = Inr order'"
  shows "\<exists>s. order' = order \<lparr> bo_side := as_order_side s \<rparr> \<and> ld_cache (ladder_of s b) (bo_order_id order) \<noteq> None"
proof -
  have side: "bp_side bp = s" if "ld_cache (ladder_of s b) (bo_order_id order) = Some bp" for s bp
    using book_invD [OF assms(1), of s] levels_ok_cache [OF ladder_invD(2) that] side_okD(1) by metis
  show ?thesis
  proof (cases "ld_cache (ob_bids b) (bo_order_id order)")
    case (Some bp)
    then show ?thesis using assms(2) side [of BuySide bp]
      by (intro exI [of _ BuySide]) (auto simp: resolve_no_side_order_def ladder_of_def)
  next
    case None
    then show ?thesis using assms(2) side [of SellSide]
      by (intro exI [of _ SellSide]) (auto simp: resolve_no_side_order_def ladder_of_def split: option.splits)
  qed
qed

lemma resolve_error:
  "resolve_no_side_order b order = Inl e \<Longrightarrow> e = OrderNotFoundForSideResolution (bo_order_id order)"
  by (auto simp: resolve_no_side_order_def split: option.splits)

lemma order_typed_side [simp]: "order_typed (order \<lparr> bo_side := x \<rparr>) = order_typed order"
  by (simp add: order_typed_def)

lemma apply_delta_unchecked_ok:
  assumes E: "book_env_ok E" "hash_collision_free E" and inv: "book_inv E b" and ok: "delta_ok E delta b"
  shows "\<exists>e b'. apply_delta_unchecked E delta b = Some (e, b') \<and> book_inv E b' \<and> (e \<noteq> None \<longrightarrow> b' = b)"
proof -
  have typed: "order_typed (obd_order delta)" using ok by (simp add: delta_ok_def)
  have free: "id_usable E ((obd_order delta) \<lparr> bo_side := as_order_side s \<rparr>) (obd_flags delta) (ladder_of s b)"
    if "obd_action delta = Add" "bo_side (obd_order delta) \<in> {as_order_side s, NoOrderSide}" for s
    using ok that unfolding delta_ok_def by blast
  show ?thesis
  proof (cases "bo_side (obd_order delta) = NoOrderSide \<and> bo_order_id (obd_order delta) \<noteq> 0")
    case False
    obtain s where s: "bo_side (obd_order delta) = as_order_side s \<or> bo_side (obd_order delta) = NoOrderSide"
      by (metis as_order_side.simps order_side.exhaust)
    have same: "(obd_order delta) \<lparr> bo_side := as_order_side s \<rparr> = obd_order delta"
      if "bo_side (obd_order delta) = as_order_side s"
      using that by simp
    have "\<exists>e b'. book_run_action E delta (obd_order delta) b = Some (e, b') \<and> book_inv E b' \<and> (e \<noteq> None \<longrightarrow> b' = b)"
    proof (rule book_run_action_ok [OF E inv s typed])
      assume a: "obd_action delta = Add" and sd: "bo_side (obd_order delta) = as_order_side s"
      show "id_usable E (obd_order delta) (obd_flags delta) (ladder_of s b)"
        using free [OF a, of s] same [OF sd] sd by simp
    qed
    moreover have "apply_delta_unchecked E delta b = book_run_action E delta (obd_order delta) b"
      unfolding apply_delta_unchecked_def Let_def using False by (rule if_not_P)
    ultimately show ?thesis by simp
  next
    case True
    show ?thesis
    proof (cases "resolve_no_side_order b (obd_order delta)")
      case (Inr order')
      obtain s where s: "order' = (obd_order delta) \<lparr> bo_side := as_order_side s \<rparr>"
        using resolve_side [OF inv Inr] by blast
      have "\<exists>e b'. book_run_action E delta order' b = Some (e, b') \<and> book_inv E b' \<and> (e \<noteq> None \<longrightarrow> b' = b)"
        by (rule book_run_action_ok [OF E inv, of _ s]) (use typed free [of s] True in \<open>simp_all add: s\<close>)
      then show ?thesis using True Inr by (simp add: apply_delta_unchecked_def)
    next
      case (Inl e)
      have "\<exists>e b'. book_run_action E delta (obd_order delta) b = Some (e, b') \<and> book_inv E b' \<and> (e \<noteq> None \<longrightarrow> b' = b)"
        if "obd_action delta = Clear"
        by (rule book_run_action_ok [OF E inv]) (use typed True that in simp_all)
      then show ?thesis using True Inl resolve_error [OF Inl] inv
        by (cases "obd_action delta") (simp_all add: apply_delta_unchecked_def)
    qed
  qed
qed

text \<open>Ticks replace the top of an L1 book.\<close>

lemma flag_matches_zero [simp]: "flag_matches f 0 = False"
  by (simp add: flag_matches_def)

lemma replace_top_l1:
  assumes E: "book_env_ok E" and ok: "l1_ok l"
    and order: "bo_side order = as_order_side (ld_side l)"
      "bo_order_id order = order_side_as_u64 (as_order_side (ld_side l))"
  shows "\<exists>l'. replace_top E order l = Some l' \<and> l1_ok l' \<and> ld_side l' = ld_side l \<and>
    ladder_queue l' = (if quantity_is_positive (bo_size order) then [order] else [])"
proof -
  have step: "\<exists>l'. ladder_add E order 0 l1 = Some l' \<and> l1_ok l' \<and> ld_side l' = ld_side l \<and>
      ladder_queue l' = (if quantity_is_positive (bo_size order) then [order] else [])"
    if "l1_ok l1" "ld_side l1 = ld_side l" for l1
    using l1_add [OF E that(1), of order 0] order that(2) by (auto simp: l1_continues_def)
  obtain l1 where "(case ladder_top l of
         None \<Rightarrow> Some l
       | Some level \<Rightarrow> (case level_first level of None \<Rightarrow> Some l | Some first \<Rightarrow> ladder_remove_order (bo_order_id first) l)) = Some l1"
    and "l1_ok l1" "ld_side l1 = ld_side l"
  proof (cases "\<exists>level first. ladder_top l = Some level \<and> level_first level = Some first")
    case False
    then have "(case ladder_top l of
         None \<Rightarrow> Some l
       | Some level \<Rightarrow> (case level_first level of None \<Rightarrow> Some l | Some first \<Rightarrow> ladder_remove_order (bo_order_id first) l)) = Some l"
      by (simp split: option.split)
    then show thesis using that ok by simp
  next
    case True
    then obtain level first where "ladder_top l = Some level" "level_first level = Some first" by blast
    then show thesis using that l1_remove_order [OF ok, of "bo_order_id first"] by auto
  qed
  then show ?thesis using step [of l1] by (simp add: replace_top_def)
qed

lemma update_top_ok:
  assumes E: "book_env_ok E" and inv: "book_inv E b" and t: "ob_book_type b = L1_MBP"
    and bid: "bo_side bid = Buy" "bo_order_id bid = order_side_as_u64 Buy"
    and ask: "bo_side ask = Sell" "bo_order_id ask = order_side_as_u64 Sell"
  shows "\<exists>b'. update_top E bid ask ts b = Some b' \<and> book_inv E b' \<and>
    ladder_queue (ob_bids b') = (if quantity_is_positive (bo_size bid) then [bid] else []) \<and>
    ladder_queue (ob_asks b') = (if quantity_is_positive (bo_size ask) then [ask] else []) \<and>
    ob_ts_last b' = max ts (ob_ts_last b) \<and> ob_sequence b' = max (u64_saturating_add (ob_sequence b) 1) (ob_sequence b)"
proof -
  have l1: "l1_ok (ob_bids b)" "l1_ok (ob_asks b)" and sides: "ld_side (ob_bids b) = BuySide" "ld_side (ob_asks b) = SellSide"
    using inv t by (simp_all add: book_inv_def side_ok_def)
  obtain lb where lb: "replace_top E bid (ob_bids b) = Some lb" "l1_ok lb" "ld_side lb = BuySide"
      "ladder_queue lb = (if quantity_is_positive (bo_size bid) then [bid] else [])"
    using replace_top_l1 [OF E l1(1), of bid] bid sides(1) by auto
  obtain la where la: "replace_top E ask (ob_asks b) = Some la" "l1_ok la" "ld_side la = SellSide"
      "ladder_queue la = (if quantity_is_positive (bo_size ask) then [ask] else [])"
    using replace_top_l1 [OF E l1(2), of ask] ask sides(2) by auto
  show ?thesis
    using lb la t l1_side_ok
    by (auto simp: update_top_def update_book_bid_def update_book_ask_def book_increment_def book_inv_def)
qed

lemma cached_in_queue:
  assumes inv: "ladder_inv l" and c: "ld_cache l i = Some bp"
  shows "\<exists>x \<in> set (ladder_queue l). bo_order_id x = i"
proof (rule ccontr)
  assume "\<not> ?thesis"
  moreover obtain level where L: "ladder_levels l (bp_rank bp) = Some level" and i: "i \<in> set (im_keys (bl_orders level))"
    using levels_ok_cache [OF ladder_invD(2) [OF inv] c] by blast
  moreover obtain x where x: "(i, x) \<in> set (bl_orders level)" using i by auto
  moreover have "x \<in> resting (ladder_levels l)" using L x by (auto simp: resting_def)
  ultimately show False
    using levels_ok_order(1) [OF ladder_invD(2) [OF inv] L x] by (auto simp: ladder_queue_resting [OF inv])
qed

lemma depth_side_ok:
  assumes E: "book_env_ok E" "hash_collision_free E" and ok: "side_ok E t l" and sd: "ld_side l = s"
    and d: "depth_ok E t flags orders"
    and new: "t = L3_MBO \<Longrightarrow> (\<forall>x \<in> set orders. \<forall>y \<in> set (ladder_queue l).
      bo_order_id y \<noteq> bo_order_id (pre_process_order E t x flags))"
  shows "\<exists>l'. depth_side E t (as_order_side s) flags orders l = Some l' \<and> side_ok E t l' \<and> ld_side l' = s"
  using ok sd d new
proof (induction orders arbitrary: l)
  case Nil
  then show ?case by simp
next
  case (Cons x orders)
  have rest: "depth_ok E t flags orders" using Cons.prems(3) by (simp add: depth_ok_def)
  show ?case
  proof (cases "bo_side x = as_order_side s \<and> quantity_is_positive (bo_size x)")
    case False
    have "\<exists>l'. depth_side E t (as_order_side s) flags orders l = Some l' \<and> side_ok E t l' \<and> ld_side l' = s"
      by (rule Cons.IH [OF Cons.prems(1,2) rest]) (use Cons.prems(4) in simp)
    then show ?thesis using False by auto
  next
    case True
    let ?x = "pre_process_order E t x flags"
    have typed: "order_typed x" using Cons.prems(3) by (simp add: depth_ok_def)
    have t: "ld_book_type l = t" using side_okD(2) [OF Cons.prems(1)] .
    have "id_usable E x flags l"
      unfolding id_usable_def id_free_def
    proof (intro impI allI)
      fix bp
      assume l3: "ld_book_type l = L3_MBO" and "ld_cache l (bo_order_id (pre_process_order E L3_MBO x flags)) = Some bp"
      then obtain y where "y \<in> set (ladder_queue l)" "bo_order_id y = bo_order_id ?x"
        using cached_in_queue [OF side_okD(1) [OF Cons.prems(1)]] t by metis
      then have False using Cons.prems(4) l3 t by auto
      then show "bp_rank bp = rank_of (ld_side l) (pre_process_order E L3_MBO x flags)" ..
    qed
    then obtain l1 where l1: "ladder_add E ?x flags l = Some l1" "side_ok E t l1" "ld_side l1 = ld_side l"
      and q: "set (ladder_queue l1) = (if kept_better ?x flags l then set (ladder_queue l)
        else insert ?x (without (bo_order_id ?x) l))"
      using side_add [OF E Cons.prems(1) _ typed, of flags] True Cons.prems(2) by auto
    have fresh: "bo_order_id ?x \<noteq> bo_order_id (pre_process_order E t y flags)" if "t = L3_MBO" "y \<in> set orders" for y
      using Cons.prems(3) that by (auto simp: depth_ok_def)
    have "\<exists>l'. depth_side E t (as_order_side s) flags orders l1 = Some l' \<and> side_ok E t l' \<and> ld_side l' = s"
    proof (rule Cons.IH [OF l1(2) _ rest])
      show "ld_side l1 = s" using l1(3) Cons.prems(2) by simp
      assume "t = L3_MBO"
      then show "\<forall>y \<in> set orders. \<forall>z \<in> set (ladder_queue l1). bo_order_id z \<noteq> bo_order_id (pre_process_order E t y flags)"
        using q fresh Cons.prems(4) by (auto split: if_splits)
    qed
    then show ?thesis using True l1(1) by simp
  qed
qed

lemma apply_depth_unchecked_ok:
  assumes E: "book_env_ok E" "hash_collision_free E" and inv: "book_inv E b"
    and bids: "depth_ok E (ob_book_type b) (dep_flags depth) (dep_bids depth)"
    and asks: "depth_ok E (ob_book_type b) (dep_flags depth) (dep_asks depth)"
  shows "\<exists>b'. apply_depth_unchecked E depth b = Some b' \<and> book_inv E b'"
proof -
  have s: "side_ok E (ob_book_type b) (ladder_clear (ob_bids b))" "side_ok E (ob_book_type b) (ladder_clear (ob_asks b))"
    "ld_side (ob_bids b) = BuySide" "ld_side (ob_asks b) = SellSide"
    using inv by (simp_all add: book_inv_def)
  obtain lb where lb: "depth_side E (ob_book_type b) Buy (dep_flags depth) (dep_bids depth) (ladder_clear (ob_bids b)) = Some lb"
    "side_ok E (ob_book_type b) lb" "ld_side lb = BuySide"
    using depth_side_ok [OF E s(1) _ bids, of BuySide] s(3) by auto
  obtain la where la: "depth_side E (ob_book_type b) Sell (dep_flags depth) (dep_asks depth) (ladder_clear (ob_asks b)) = Some la"
    "side_ok E (ob_book_type b) la" "ld_side la = SellSide"
    using depth_side_ok [OF E s(2) _ asks, of SellSide] s(4) by auto
  show ?thesis using lb la by (simp add: apply_depth_unchecked_def book_inv_def)
qed

end
