(* ===== verification/Book_Snapshot.thy ===== *)
theory Book_Snapshot
  imports Book_Invariant
begin

text \<open>
  Uncrossing a book (\<open>clear_stale_levels\<close>) and taking and replaying its snapshot (\<open>to_deltas\<close>,
  \<open>apply_deltas\<close>).
\<close>

definition price_of :: "book_order \<Rightarrow> int" where
  "price_of order = p_raw (bo_price order)"

text \<open>
  What uncrossing leaves: the bids below every ask when bids are cleared, the asks above every bid when
  asks are cleared.
\<close>

definition clears :: "order_side option \<Rightarrow> order_side_specified \<Rightarrow> bool" where
  "clears side s \<longleftrightarrow> (case side of Some Buy \<Rightarrow> s = BuySide | Some Sell \<Rightarrow> s = SellSide | _ \<Rightarrow> True)"

definition crossed :: "order_book \<Rightarrow> bool" where
  "crossed b \<longleftrightarrow> (\<exists>x \<in> set (ladder_queue (ob_bids b)). \<exists>y \<in> set (ladder_queue (ob_asks b)). price_of y < price_of x)"

text \<open>An order in the form in which a book of the type stores it.\<close>

definition settled :: "book_env \<Rightarrow> book_type \<Rightarrow> order_side_specified \<Rightarrow> book_order \<Rightarrow> bool" where
  "settled E t s x \<longleftrightarrow> bo_side x = as_order_side s \<and> quantity_is_positive (bo_size x) \<and> in_i64 (p_raw (bo_price x)) \<and>
     (t = L1_MBP \<longrightarrow> bo_order_id x = order_side_as_u64 (as_order_side s)) \<and>
     (t = L2_MBP \<longrightarrow> bo_order_id x = price_based_order_id E x)"

definition snapshot_queue :: "book_env \<Rightarrow> book_type \<Rightarrow> order_side_specified \<Rightarrow> book_order list \<Rightarrow> bool" where
  "snapshot_queue E t s q \<longleftrightarrow> (\<forall>x \<in> set q. settled E t s x) \<and> distinct (map bo_order_id q) \<and>
     sorted_wrt (\<lambda>a b. rank_of s a \<le> rank_of s b) q"

text \<open>
  What the sources rely on of the constructors of the module \<open>data\<close>: they build the record with the
  given fields, \<open>clear\<close> with the action \<open>CLEAR\<close> and \<open>new\<close> only for a positive size.
\<close>

definition data_env_ok :: "data_env \<Rightarrow> bool" where
  "data_env_ok D \<longleftrightarrow>
     (\<forall>i q te ti. obd_instrument_id (delta_clear D i q te ti) = i \<and> obd_action (delta_clear D i q te ti) = Clear \<and>
        obd_sequence (delta_clear D i q te ti) = q \<and> obd_ts_event (delta_clear D i q te ti) = te) \<and>
     (\<forall>i a x f q te ti. quantity_is_positive (bo_size x) \<longrightarrow> delta_new D i a x f q te ti = Some
        \<lparr> obd_instrument_id = i, obd_action = a, obd_order = x, obd_flags = f, obd_sequence = q,
          obd_ts_event = te, obd_ts_init = ti \<rparr>) \<and>
     (\<forall>i ds. ds \<noteq> [] \<longrightarrow> deltas_new D i ds = Some \<lparr> obds_instrument_id = i, obds_deltas = ds \<rparr>)"

section \<open>Uncrossing\<close>

lemma bt_wf_append_ranks:
  assumes "side.bt_wf s ((k, lv) # rest)"
  shows "filter (\<lambda>p. bp_rank (fst p) \<noteq> bp_rank k) ((k, lv) # rest) = rest"
  using assms by (auto simp: side.bt_wf_Cons_iff intro!: filter_True)

lemma remove_levels_prefix:
  assumes "ladder_inv l" and "ld_levels l = prefix @ rest"
  shows "\<exists>l'. remove_levels (map fst prefix) l = Some (map snd prefix, l') \<and> ladder_inv l' \<and>
    ld_levels l' = rest \<and> ld_side l' = ld_side l \<and> ld_book_type l' = ld_book_type l \<and>
    set (ladder_queue l') \<subseteq> set (ladder_queue l)"
  using assms
proof (induction prefix arbitrary: l)
  case Nil
  then show ?case by simp
next
  case (Cons p prefix)
  obtain k lv where p: "p = (k, lv)" by (cases p)
  have lvls: "ld_levels l = (k, lv) # (prefix @ rest)" using Cons.prems(2) by (simp add: p)
  have wf: "side.bt_wf (ld_side l) ((k, lv) # (prefix @ rest))" using ladder_invD(1) [OF Cons.prems(1)] lvls by simp
  have side: "bp_side k = ld_side l" using wf by (simp add: side.bt_wf_Cons_iff)
  have L: "ladder_levels l (bp_rank k) = Some lv" by (simp add: lvls)
  obtain l1 where l1: "ladder_remove_level k l = Some (Some lv, l1)"
    and b1: "becomes l l1 {x \<in> set (ladder_queue l). rank_of (ld_side l) x \<noteq> bp_rank k}"
    and m1: "ld_levels l1 = prefix @ rest"
    using ladder_remove_level_becomes [OF Cons.prems(1) side] L bt_wf_append_ranks [OF wf] lvls by auto
  obtain l2 where l2: "remove_levels (map fst prefix) l1 = Some (map snd prefix, l2)" "ladder_inv l2"
    "ld_levels l2 = rest" "ld_side l2 = ld_side l1" "ld_book_type l2 = ld_book_type l1"
    "set (ladder_queue l2) \<subseteq> set (ladder_queue l1)"
    using Cons.IH [of l1] b1 m1 by (auto simp: becomes_def)
  have "set (ladder_queue l1) \<subseteq> set (ladder_queue l)" "ld_side l1 = ld_side l" "ld_book_type l1 = ld_book_type l"
    using b1 by (auto simp: becomes_def)
  then show ?case using l1 l2 by (auto simp: p)
qed

lemma takeWhile_keys: "takeWhile P (map fst m) = map fst (takeWhile (\<lambda>p. P (fst p)) m)"
  by (simp add: takeWhile_map o_def)

text \<open>Cutting off the entries up to a rank leaves those beyond it.\<close>

lemma cut_levels:
  assumes inv: "ladder_inv l" and P: "\<And>k. bp_side k = ld_side l \<Longrightarrow> P k \<longleftrightarrow> bp_rank k \<le> r"
  shows "\<exists>l'. remove_levels (takeWhile P (bt_keys (ld_levels l))) l =
      Some (map snd (takeWhile (\<lambda>p. P (fst p)) (ld_levels l)), l') \<and>
    ladder_inv l' \<and> ld_side l' = ld_side l \<and> ld_book_type l' = ld_book_type l \<and>
    set (ladder_queue l') = {x \<in> set (ladder_queue l). r < rank_of (ld_side l) x}"
proof -
  let ?pre = "takeWhile (\<lambda>p. P (fst p)) (ld_levels l)" and ?rest = "dropWhile (\<lambda>p. P (fst p)) (ld_levels l)"
  note wf = ladder_invD(1) [OF inv]
  have keys: "bp_side (fst p) = ld_side l" if "p \<in> set (ld_levels l)" for p
    using wf that by (auto simp: side.bt_wf_def)
  have rest: "?rest = dropWhile (\<lambda>p. bp_rank (fst p) \<le> r) (ld_levels l)"
    by (rule dropWhile_cong) (use keys P in auto)
  have split: "ld_levels l = ?pre @ ?rest" by simp
  obtain l' where l': "remove_levels (map fst ?pre) l = Some (map snd ?pre, l')" "ladder_inv l'"
    "ld_levels l' = ?rest" "ld_side l' = ld_side l" "ld_book_type l' = ld_book_type l"
    using remove_levels_prefix [OF inv split] by blast
  have q: "ladder_queue l = level_queue (map snd ?pre) @ ladder_queue l'"
    unfolding ladder_queue_levels l'(3) level_queue_simps [symmetric] map_append [symmetric] by simp
  have hi: "r < rank_of (ld_side l) x" if x: "x \<in> set (ladder_queue l')" for x
  proof -
    have sub: "set ?rest \<subseteq> set (ld_levels l)" by (auto dest: set_dropWhileD)
    obtain p where "p \<in> set ?rest" "rank_of (ld_side l) x = bp_rank (fst p)"
      using level_queue_ranks [OF inv sub, of x] x by (auto simp: ladder_queue_levels l'(3))
    then show ?thesis using side.ranks_above [OF wf] rest by auto
  qed
  have lo: "rank_of (ld_side l) x \<le> r" if x: "x \<in> set (level_queue (map snd ?pre))" for x
  proof -
    have sub: "set ?pre \<subseteq> set (ld_levels l)" by (auto dest: set_takeWhileD)
    obtain p where p: "p \<in> set ?pre" "rank_of (ld_side l) x = bp_rank (fst p)"
      using level_queue_ranks [OF inv sub x] by blast
    then show ?thesis using P [OF keys, of p] set_takeWhileD [OF p(1)] by simp
  qed
  have "set (ladder_queue l') = {x \<in> set (ladder_queue l). r < rank_of (ld_side l) x}"
    unfolding q using hi lo by force
  then show ?thesis using l' by (simp add: takeWhile_keys)
qed

lemma best_price_head:
  assumes inv: "ladder_inv l"
  shows "ladder_top l = None \<longleftrightarrow> set (ladder_queue l) = {}"
    and "ladder_top l = Some lv \<Longrightarrow> (\<exists>x \<in> set (ladder_queue l). price_of x = p_raw (bp_value (bl_price lv))) \<and>
      (\<forall>x \<in> set (ladder_queue l). bp_rank (bl_price lv) \<le> rank_of (ld_side l) x) \<and> level_side lv = ld_side l"
proof -
  show "ladder_top l = None \<longleftrightarrow> set (ladder_queue l) = {}" using ladder_top_head(1) [OF inv] by simp
  assume "ladder_top l = Some lv"
  from ladder_top_head(2) [OF inv this] obtain q where q: "ladder_queue l = im_values (bl_orders lv) @ q"
    and ne: "bl_orders lv \<noteq> []" and s: "level_side lv = ld_side l"
    and eq: "\<forall>x \<in> set (im_values (bl_orders lv)). rank_of (ld_side l) x = bp_rank (bl_price lv)"
    and le: "\<forall>x \<in> set (ladder_queue l). bp_rank (bl_price lv) \<le> rank_of (ld_side l) x" by blast
  obtain x where x: "x \<in> set (im_values (bl_orders lv))" using ne by (cases "bl_orders lv") auto
  then have "rank_of (ld_side l) x = price_rank (ld_side l) (bp_value (bl_price lv))"
    using bspec [OF eq x] s by (simp add: bp_rank_def level_side_def)
  then have "price_of x = p_raw (bp_value (bl_price lv))" by (simp add: price_of_def price_rank_eq_iff)
  moreover have "x \<in> set (ladder_queue l)" using x q by simp
  ultimately show "(\<exists>x \<in> set (ladder_queue l). price_of x = p_raw (bp_value (bl_price lv))) \<and>
      (\<forall>x \<in> set (ladder_queue l). bp_rank (bl_price lv) \<le> rank_of (ld_side l) x) \<and> level_side lv = ld_side l"
    using le s by blast
qed

lemma best_prices:
  assumes inv: "book_inv E b"
  shows "best_bid_price b = None \<longleftrightarrow> set (ladder_queue (ob_bids b)) = {}"
    and "best_ask_price b = None \<longleftrightarrow> set (ladder_queue (ob_asks b)) = {}"
    and "best_bid_price b = Some p \<Longrightarrow> (\<exists>x \<in> set (ladder_queue (ob_bids b)). price_of x = p_raw p) \<and>
      (\<forall>x \<in> set (ladder_queue (ob_bids b)). price_of x \<le> p_raw p)"
    and "best_ask_price b = Some p \<Longrightarrow> (\<exists>x \<in> set (ladder_queue (ob_asks b)). price_of x = p_raw p) \<and>
      (\<forall>x \<in> set (ladder_queue (ob_asks b)). p_raw p \<le> price_of x)"
proof -
  have i: "ladder_inv (ob_bids b)" "ladder_inv (ob_asks b)" and s: "ld_side (ob_bids b) = BuySide" "ld_side (ob_asks b) = SellSide"
    using inv by (auto simp: book_inv_def side_ok_def)
  show "best_bid_price b = None \<longleftrightarrow> set (ladder_queue (ob_bids b)) = {}"
    using best_price_head(1) [OF i(1)] by (simp add: best_bid_price_def)
  show "best_ask_price b = None \<longleftrightarrow> set (ladder_queue (ob_asks b)) = {}"
    using best_price_head(1) [OF i(2)] by (simp add: best_ask_price_def)
  show "best_bid_price b = Some p \<Longrightarrow> (\<exists>x \<in> set (ladder_queue (ob_bids b)). price_of x = p_raw p) \<and>
      (\<forall>x \<in> set (ladder_queue (ob_bids b)). price_of x \<le> p_raw p)"
    using best_price_head(2) [OF i(1)] s
    by (auto simp: best_bid_price_def bp_rank_def price_rank_def level_side_def price_of_def)
  show "best_ask_price b = Some p \<Longrightarrow> (\<exists>x \<in> set (ladder_queue (ob_asks b)). price_of x = p_raw p) \<and>
      (\<forall>x \<in> set (ladder_queue (ob_asks b)). p_raw p \<le> price_of x)"
    using best_price_head(2) [OF i(2)] s
    by (auto simp: best_ask_price_def bp_rank_def price_rank_def level_side_def price_of_def)
qed

lemma cut_levels_if:
  assumes inv: "ladder_inv l" and P: "\<And>k. bp_side k = ld_side l \<Longrightarrow> P k \<longleftrightarrow> bp_rank k \<le> r"
  shows "\<exists>lvs l'. remove_levels (if c then takeWhile P (bt_keys (ld_levels l)) else []) l = Some (lvs, l') \<and>
    ladder_inv l' \<and> ld_side l' = ld_side l \<and> ld_book_type l' = ld_book_type l \<and>
    set (ladder_queue l') = {x \<in> set (ladder_queue l). c \<longrightarrow> r < rank_of (ld_side l) x}"
  using cut_levels [OF inv P] inv by (cases c) auto

lemma clear_stale_levels_spec:
  assumes inv: "book_inv E b" and t: "ob_book_type b \<noteq> L1_MBP"
  shows "\<exists>r b'. clear_stale_levels side b = Some (r, b') \<and> book_inv E b' \<and>
    (\<not> crossed b \<longrightarrow> r = None \<and> b' = b) \<and>
    (crossed b \<longrightarrow>
      set (ladder_queue (ob_bids b')) = {x \<in> set (ladder_queue (ob_bids b)). clears side BuySide \<longrightarrow>
        (\<forall>y \<in> set (ladder_queue (ob_asks b)). price_of x < price_of y)} \<and>
      set (ladder_queue (ob_asks b')) = {y \<in> set (ladder_queue (ob_asks b)). clears side SellSide \<longrightarrow>
        (\<forall>x \<in> set (ladder_queue (ob_bids b)). price_of x < price_of y)})"
proof (cases "crossed b")
  case False
  have "\<exists>r. clear_stale_levels side b = Some (None, b)"
  proof (cases "best_bid_price b = None \<or> best_ask_price b = None")
    case True
    then show ?thesis by (auto simp: clear_stale_levels_def split: option.splits)
  next
    case some: False
    then obtain p q where pq: "best_bid_price b = Some p" "best_ask_price b = Some q" by auto
    then have "p_raw p \<le> p_raw q" using False best_prices(3,4) [OF inv] unfolding crossed_def by (metis not_le)
    then show ?thesis using pq by (simp add: clear_stale_levels_def)
  qed
  then show ?thesis using inv False by auto
next
  case True
  then obtain p q where pq: "best_bid_price b = Some p" "best_ask_price b = Some q"
    using best_prices(1,2) [OF inv] unfolding crossed_def by (metis empty_iff option.exhaust)
  have bid: "\<exists>x \<in> set (ladder_queue (ob_bids b)). price_of x = p_raw p" "\<forall>x \<in> set (ladder_queue (ob_bids b)). price_of x \<le> p_raw p"
    and ask: "\<exists>x \<in> set (ladder_queue (ob_asks b)). price_of x = p_raw q" "\<forall>x \<in> set (ladder_queue (ob_asks b)). p_raw q \<le> price_of x"
    using best_prices(3,4) [OF inv] pq by blast+
  have cross: "\<not> p_raw p \<le> p_raw q" using True bid ask unfolding crossed_def by force
  have i: "ladder_inv (ob_bids b)" "ladder_inv (ob_asks b)" and s: "ld_side (ob_bids b) = BuySide" "ld_side (ob_asks b) = SellSide"
    using inv by (auto simp: book_inv_def side_ok_def)
  define bs where "bs = (if clears side BuySide then takeWhile (\<lambda>bp. p_raw (bp_value bp) \<ge> p_raw q) (bt_keys (ld_levels (ob_bids b))) else [])"
  define as where "as = (if clears side SellSide then takeWhile (\<lambda>bp. p_raw (bp_value bp) \<le> p_raw p) (bt_keys (ld_levels (ob_asks b))) else [])"
  obtain rb lb where lb: "remove_levels bs (ob_bids b) = Some (rb, lb)" "ladder_inv lb" "ld_side lb = BuySide"
      "ld_book_type lb = ld_book_type (ob_bids b)"
      "set (ladder_queue lb) = {x \<in> set (ladder_queue (ob_bids b)). clears side BuySide \<longrightarrow> - p_raw q < rank_of BuySide x}"
    using cut_levels_if [OF i(1), of "\<lambda>bp. p_raw (bp_value bp) \<ge> p_raw q" "- p_raw q" "clears side BuySide"] s
    unfolding bs_def by (auto simp: bp_rank_def price_rank_def)
  obtain ra la where la: "remove_levels as (ob_asks b) = Some (ra, la)" "ladder_inv la" "ld_side la = SellSide"
      "ld_book_type la = ld_book_type (ob_asks b)"
      "set (ladder_queue la) = {x \<in> set (ladder_queue (ob_asks b)). clears side SellSide \<longrightarrow> p_raw p < rank_of SellSide x}"
    using cut_levels_if [OF i(2), of "\<lambda>bp. p_raw (bp_value bp) \<le> p_raw p" "p_raw p" "clears side SellSide"] s
    unfolding as_def by (auto simp: bp_rank_def price_rank_def)
  have unfold: "clear_stale_levels side b = (if as = [] \<and> bs = [] then Some (None, b)
      else Some (if rb @ ra = [] then None else Some (rb @ ra), book_increment (ob_sequence b) (ob_ts_last b) (b \<lparr> ob_bids := lb, ob_asks := la \<rparr>)))"
    using t pq cross lb(1) la(1)
    by (cases side; cases "the side") (auto simp: clear_stale_levels_def as_def bs_def clears_def)
  define b' where "b' = (if as = [] \<and> bs = [] then b
    else book_increment (ob_sequence b) (ob_ts_last b) (b \<lparr> ob_bids := lb, ob_asks := la \<rparr>))"
  have b': "ob_bids b' = lb" "ob_asks b' = la" "ob_book_type b' = ob_book_type b"
    using lb(1) la(1) by (auto simp: b'_def)
  have "set (ladder_queue lb) \<subseteq> set (ladder_queue (ob_bids b))" "set (ladder_queue la) \<subseteq> set (ladder_queue (ob_asks b))"
    using lb(5) la(5) by auto
  then have "book_inv E b'" using inv t lb(2-4) la(2-4) by (auto simp: book_inv_def b' side_ok_def)
  moreover have "set (ladder_queue (ob_bids b')) = {x \<in> set (ladder_queue (ob_bids b)). clears side BuySide \<longrightarrow>
        (\<forall>y \<in> set (ladder_queue (ob_asks b)). price_of x < price_of y)}"
    using ask unfolding b' lb(5) by (force simp: price_rank_def price_of_def)
  moreover have "set (ladder_queue (ob_asks b')) = {y \<in> set (ladder_queue (ob_asks b)). clears side SellSide \<longrightarrow>
        (\<forall>x \<in> set (ladder_queue (ob_bids b)). price_of x < price_of y)}"
    using bid unfolding b' la(5) by (force simp: price_rank_def price_of_def)
  moreover have "\<exists>r. clear_stale_levels side b = Some (r, b')" using unfold by (simp add: b'_def)
  ultimately show ?thesis using True by blast
qed

section \<open>Snapshots\<close>

lemma queue_insert_last: "\<forall>y \<in> set q. rank_of s y \<le> rank_of s x \<Longrightarrow> queue_insert s x q = q @ [x]"
  by (simp add: queue_insert_def takeWhile_eq_all_conv)

lemma pre_process_settled:
  assumes "settled E t s x" and "\<not> flag_matches F_TOB flags" and "\<not> flag_matches F_MBP flags"
  shows "pre_process_order E t x flags = x"
  using assms by (cases t) (simp_all add: pre_process_order_def settled_def)

lemma side_append:
  assumes E: "book_env_ok E" "hash_collision_free E" and ok: "side_ok E t l"
    and q: "snapshot_queue E t (ld_side l) (ladder_queue l @ [x])"
    and flags: "\<not> flag_matches F_TOB flags" "\<not> flag_matches F_MBP flags"
  shows "\<exists>l'. ladder_add E x flags l = Some l' \<and> side_ok E t l' \<and> ld_side l' = ld_side l \<and>
    ladder_queue l' = ladder_queue l @ [x]"
proof -
  have x: "settled E t (ld_side l) x" and new: "bo_order_id x \<notin> bo_order_id ` set (ladder_queue l)"
    and sorted: "\<forall>y \<in> set (ladder_queue l). rank_of (ld_side l) y \<le> rank_of (ld_side l) x"
    using q by (auto simp: snapshot_queue_def sorted_wrt_append)
  have sd: "bo_side x = as_order_side (ld_side l)" and pos: "quantity_is_positive (bo_size x)"
    using x by (simp_all add: settled_def)
  note inv = side_okD(1) [OF ok] and t = side_okD(2) [OF ok]
  have none: "ld_cache l (bo_order_id x) = None"
    using new cached_in_queue [OF inv, of "bo_order_id x"] by (metis imageI option.exhaust)
  have typed: "order_typed x" using x by (simp add: settled_def order_typed_def quantity_is_positive_def)
  have pre: "pre_process_order E t x flags = x" by (rule pre_process_settled [OF x flags])
  have "id_usable E x flags l" using none t pre by (auto simp: id_usable_def id_free_def)
  from side_add [OF E ok sd typed this] obtain l' where
    l': "ladder_add E x flags l = Some l'" "side_ok E t l'" "ld_side l' = ld_side l" unfolding pre by blast
  have "ladder_queue l' = ladder_queue l @ [x]"
  proof (cases "t = L1_MBP")
    case True
    have id: "bo_order_id x = order_side_as_u64 (as_order_side (ld_side l))" using x True by (simp add: settled_def)
    have e: "ladder_queue l = []"
      using side_okD(3) [OF ok True] new id by (cases "ladder_queue l") (auto simp: l1_ok_def)
    then show ?thesis using l1_add [OF E(1) side_okD(3) [OF ok True] sd id, of flags] l'(1) pos by auto
  next
    case False
    have free: "id_free x l" using none by (simp add: id_free_def)
    obtain l1 where l1: "ladder_place E x l = Some l1" "ld_book_type l1 = t"
      using ladder_place_becomes [OF E(1) inv sd pos free] t by (auto simp: becomes_def)
    then have "l' = l1" using l'(1) t pos False by (simp add: ladder_add_def ladder_end_batch_def)
    then show ?thesis
      using ladder_place_queue [OF E(1) inv sd pos none l1(1)] queue_insert_last [OF sorted] by simp
  qed
  then show ?thesis using l' by blast
qed

lemma book_append:
  assumes E: "book_env_ok E" "hash_collision_free E" and inv: "book_inv E b"
    and q: "snapshot_queue E (ob_book_type b) s (ladder_queue (ladder_of s b) @ [x])"
    and flags: "\<not> flag_matches F_TOB flags" "\<not> flag_matches F_MBP flags"
  shows "\<exists>b'. book_add E x flags n ts b = Some b' \<and> book_inv E b' \<and>
    ladder_queue (ladder_of s b') = ladder_queue (ladder_of s b) @ [x] \<and>
    ladder_of (opposite s) b' = ladder_of (opposite s) b \<and> ob_book_type b' = ob_book_type b \<and>
    ob_instrument_id b' = ob_instrument_id b"
proof -
  have sd: "ld_side (ladder_of s b) = s" and ok: "side_ok E (ob_book_type b) (ladder_of s b)"
    using book_invD [OF inv] by simp_all
  have x: "settled E (ob_book_type b) s x" using q by (simp add: snapshot_queue_def)
  note pre = pre_process_settled [OF x flags]
  have "\<exists>l'. ladder_add E x flags (ladder_of s b) = Some l' \<and> side_ok E (ob_book_type b) l' \<and> ld_side l' = s \<and>
      ladder_queue l' = ladder_queue (ladder_of s b) @ [x]"
    using side_append [OF E ok _ flags] q sd by simp
  then show ?thesis
    using book_inv_set_ladder [OF inv] x by (auto simp: book_add_def pre on_side_eq settled_def)
qed

lemma snapshot_flags [simp]:
  "\<not> flag_matches F_TOB (flag_value F_SNAPSHOT + flag_value F_LAST)" "\<not> flag_matches F_MBP (flag_value F_SNAPSHOT + flag_value F_LAST)"
  "\<not> flag_matches F_TOB (flag_value F_SNAPSHOT)" "\<not> flag_matches F_MBP (flag_value F_SNAPSHOT)"
  by (simp_all add: flag_matches_def flag_value_def)

lemma as_order_side_not_none [simp]: "as_order_side s \<noteq> NoOrderSide"
  by (cases s) simp_all

lemma snapshot_adds_replay:
  assumes E: "book_env_ok E" "hash_collision_free E" and D: "data_env_ok D"
    and "book_inv E b" and "snapshot_queue E (ob_book_type b) s (ladder_queue (ladder_of s b) @ xs)"
  shows "\<exists>ds b'. snapshot_adds D src te ti n k xs = Some ds \<and>
    apply_deltas_list E (ds @ ds') b = apply_deltas_list E ds' b' \<and> book_inv E b' \<and>
    ladder_queue (ladder_of s b') = ladder_queue (ladder_of s b) @ xs \<and>
    ladder_of (opposite s) b' = ladder_of (opposite s) b \<and> ob_book_type b' = ob_book_type b"
  using assms(4,5)
proof (induction xs arbitrary: b k)
  case Nil
  then show ?case by auto
next
  case (Cons x xs)
  define f where "f = (if k + 1 = n then flag_value F_SNAPSHOT + flag_value F_LAST else flag_value F_SNAPSHOT)"
  have f: "\<not> flag_matches F_TOB f" "\<not> flag_matches F_MBP f" by (simp_all add: f_def)
  have x: "settled E (ob_book_type b) s x" using Cons.prems(2) by (simp add: snapshot_queue_def)
  have q: "snapshot_queue E (ob_book_type b) s (ladder_queue (ladder_of s b) @ [x])"
    using Cons.prems(2) by (auto simp: snapshot_queue_def sorted_wrt_append)
  obtain b1 where b1: "book_add E x f (ob_sequence src) te b = Some b1" "book_inv E b1"
      "ladder_queue (ladder_of s b1) = ladder_queue (ladder_of s b) @ [x]"
      "ladder_of (opposite s) b1 = ladder_of (opposite s) b" "ob_book_type b1 = ob_book_type b"
    using book_append [OF E Cons.prems(1) q f] by blast
  let ?d = "\<lparr> obd_instrument_id = ob_instrument_id src, obd_action = Add, obd_order = x, obd_flags = f,
    obd_sequence = ob_sequence src, obd_ts_event = te, obd_ts_init = ti \<rparr>"
  have new: "delta_new D (ob_instrument_id src) Add x f (ob_sequence src) te ti = Some ?d"
    using D x by (simp add: data_env_ok_def settled_def)
  have step: "apply_delta_unchecked E ?d b = Some (None, b1)"
    using b1(1) x by (simp add: apply_delta_unchecked_def book_run_action_def settled_def)
  obtain ds b2 where b2: "snapshot_adds D src te ti n (k + 1) xs = Some ds"
      "apply_deltas_list E (ds @ ds') b1 = apply_deltas_list E ds' b2" "book_inv E b2"
      "ladder_queue (ladder_of s b2) = ladder_queue (ladder_of s b1) @ xs"
      "ladder_of (opposite s) b2 = ladder_of (opposite s) b1" "ob_book_type b2 = ob_book_type b1"
    using Cons.IH [OF b1(2), of "k + 1"] Cons.prems(2) b1(3,5) by auto
  have "snapshot_adds D src te ti n k (x # xs) = Some (?d # ds)"
    using new b2(1) unfolding f_def by (simp add: Let_def)
  then show ?case
    using b2 step b1(3-5) by (intro exI [of _ "?d # ds"] exI [of _ b2]) (simp del: snapshot_adds.simps)
qed

text \<open>A sound book is the snapshot of itself.\<close>

lemma snapshot_queue_book:
  assumes inv: "book_inv E b" and px: "\<forall>x \<in> set (ladder_queue (ladder_of s b)). in_i64 (p_raw (bo_price x))"
  shows "snapshot_queue E (ob_book_type b) s (ladder_queue (ladder_of s b))"
proof -
  have sd: "ld_side (ladder_of s b) = s" and ok: "side_ok E (ob_book_type b) (ladder_of s b)"
    using book_invD [OF inv] by simp_all
  note linv = side_okD(1) [OF ok]
  have "settled E (ob_book_type b) s x" if x: "x \<in> set (ladder_queue (ladder_of s b))" for x
  proof -
    obtain r level i where L: "ladder_levels (ladder_of s b) r = Some level" "(i, x) \<in> set (bl_orders level)"
      using x ladder_queue_resting [OF linv] by (auto simp: resting_def)
    show ?thesis
      using levels_ok_order [OF ladder_invD(2) [OF linv] L] ok px x sd
      by (auto simp: settled_def side_ok_def l1_ok_def)
  qed
  then show ?thesis
    using ladder_queue_distinct [OF linv] ladder_queue_sorted [OF linv] sd by (simp add: snapshot_queue_def)
qed

lemma ladder_queue_clear [simp]: "ladder_queue (ladder_clear l) = []"
  by (simp add: ladder_clear_def ladder_queue_def)

lemma book_levels_queue:
  "concat (map level_get_orders (book_bids None b)) = ladder_queue (ob_bids b)"
  "concat (map level_get_orders (book_asks None b)) = ladder_queue (ob_asks b)"
  by (simp_all add: book_bids_def book_asks_def take_depth_def ladder_queue_def level_get_orders_def comp_def)

lemma snapshot_adds_append:
  "snapshot_adds D src te ti n k (xs @ ys) = (case snapshot_adds D src te ti n k xs of None \<Rightarrow> None
     | Some ds \<Rightarrow> map_option (\<lambda>ds'. ds @ ds') (snapshot_adds D src te ti n (k + length xs) ys))"
proof (induction xs arbitrary: k)
  case Nil
  then show ?case by (cases "snapshot_adds D src te ti n k ys") simp_all
next
  case (Cons x xs)
  then show ?case by (auto simp: Let_def split: Option.bind_splits option.splits)
qed

lemma apply_clear:
  assumes "obd_action delta = Clear"
  shows "apply_delta_unchecked E delta b = Some (None, book_clear (obd_sequence delta) (obd_ts_event delta) b)"
proof (cases "resolve_no_side_order b (obd_order delta)")
  case (Inl e)
  then show ?thesis using assms resolve_error [OF Inl] by (simp add: apply_delta_unchecked_def book_run_action_def Let_def)
next
  case (Inr x)
  then show ?thesis using assms by (simp add: apply_delta_unchecked_def book_run_action_def Let_def)
qed

lemma to_deltas_replay:
  assumes E: "book_env_ok E" "hash_collision_free E" and D: "data_env_ok D"
    and inv: "book_inv E b" and inv0: "book_inv E b0" and t: "ob_book_type b0 = ob_book_type b"
    and i: "ob_instrument_id b0 = ob_instrument_id b"
    and px: "\<forall>x \<in> set (ladder_queue (ob_bids b) @ ladder_queue (ob_asks b)). in_i64 (p_raw (bo_price x))"
  shows "\<exists>ds b'. to_deltas D te ti b = Some ds \<and> apply_deltas E ds b0 = Some (None, b') \<and>
    ladder_queue (ob_bids b') = ladder_queue (ob_bids b) \<and> ladder_queue (ob_asks b') = ladder_queue (ob_asks b)"
proof -
  define n where "n = (\<Sum>level \<leftarrow> book_bids None b. level_len level) + (\<Sum>level \<leftarrow> book_asks None b. level_len level)"
  define c where "c = delta_clear D (ob_instrument_id b) (ob_sequence b) te ti"
  define c' where "c' = (if n = 0 \<and> \<not> flag_matches F_LAST (obd_flags c)
    then c \<lparr> obd_flags := obd_flags c + flag_value F_LAST \<rparr> else c)"
  have c': "obd_action c' = Clear" using D by (simp add: c'_def c_def data_env_ok_def)
  define b1 where "b1 = book_clear (obd_sequence c') (obd_ts_event c') b0"
  have step: "apply_delta_unchecked E c' b0 = Some (None, b1)"
    unfolding b1_def by (rule apply_clear [OF c'])
  have b1: "book_inv E b1" "ob_book_type b1 = ob_book_type b" "ladder_queue (ladder_of s b1) = []" for s
    using book_inv_clear [OF inv0] t by (simp_all add: b1_def book_clear_def ladder_of_def split: order_side_specified.split)
  have px': "\<forall>x \<in> set (ladder_queue (ladder_of s b)). in_i64 (p_raw (bo_price x))" for s
    using px by (auto simp: ladder_of_def split: order_side_specified.splits)
  note q = snapshot_queue_book [OF inv px']
  let ?bids = "ladder_queue (ladder_of BuySide b)" and ?asks = "ladder_queue (ladder_of SellSide b)"
  obtain ds2 where ds2: "snapshot_adds D b te ti n (length ?bids) ?asks = Some ds2"
    using snapshot_adds_replay [OF E D b1(1), of SellSide ?asks b te ti n "length ?bids" "[]"] q [of SellSide] b1(2,3) by auto
  obtain ds1 b2 where b2: "snapshot_adds D b te ti n 0 ?bids = Some ds1"
      "apply_deltas_list E (ds1 @ ds2) b1 = apply_deltas_list E ds2 b2" "book_inv E b2"
      "ladder_queue (ladder_of BuySide b2) = ?bids" "ladder_of SellSide b2 = ladder_of SellSide b1"
      "ob_book_type b2 = ob_book_type b"
    using snapshot_adds_replay [OF E D b1(1), of BuySide ?bids b te ti n 0 ds2] q [of BuySide] b1(2,3) by auto
  obtain b3 where b3: "apply_deltas_list E (ds2 @ []) b2 = apply_deltas_list E [] b3"
      "ladder_queue (ladder_of SellSide b3) = ?asks" "ladder_of BuySide b3 = ladder_of BuySide b2"
    using snapshot_adds_replay [OF E D b2(3), of SellSide ?asks b te ti n "length ?bids" "[]"]
      q [of SellSide] b2(5,6) b1(3) ds2 by auto
  have "to_deltas D te ti b = Some \<lparr> obds_instrument_id = ob_instrument_id b, obds_deltas = c' # ds1 @ ds2 \<rparr>"
    using D b2(1) ds2 unfolding to_deltas_def Let_def book_levels_queue n_def [symmetric] c_def [symmetric] c'_def [symmetric]
    by (simp add: snapshot_adds_append ladder_of_def data_env_ok_def)
  moreover have "apply_deltas E \<lparr> obds_instrument_id = ob_instrument_id b, obds_deltas = c' # ds1 @ ds2 \<rparr> b0 = Some (None, b3)"
    using step b2(2) b3(1) i by (simp add: apply_deltas_def apply_deltas_unchecked_def)
  ultimately show ?thesis using b2(4) b3(2,3) by (simp add: ladder_of_def)
qed

end
