(* ===== verification/Book_Reach.thy ===== *)
theory Book_Reach
  imports Book_Snapshot
begin

text \<open>
  Sequences of operations on an order book: the operations as data, the books they reach, the maps from
  ids to orders a book stands for, and the lemmas on counters, deltas and batches behind the claims.
\<close>

datatype book_op =
    OpReset
  | OpAdd book_order nat nat nat
  | OpUpdate book_order nat nat nat
  | OpDelete book_order nat nat nat
  | OpClear nat nat
  | OpClearBids nat nat
  | OpClearAsks nat nat
  | OpClearStale "order_side option"
  | OpDelta order_book_delta
  | OpDeltas order_book_deltas
  | OpDepth order_book_depth10
  | OpQuote quote_tick
  | OpTrade trade_tick

fun book_exec :: "book_env \<Rightarrow> book_op \<Rightarrow> order_book \<Rightarrow> order_book option" where
  "book_exec E OpReset b = Some (book_reset b)"
| "book_exec E (OpAdd order flags n ts) b = book_add E order flags n ts b"
| "book_exec E (OpUpdate order flags n ts) b = book_update E order flags n ts b"
| "book_exec E (OpDelete order flags n ts) b = book_delete E order flags n ts b"
| "book_exec E (OpClear n ts) b = Some (book_clear n ts b)"
| "book_exec E (OpClearBids n ts) b = Some (book_clear_bids n ts b)"
| "book_exec E (OpClearAsks n ts) b = Some (book_clear_asks n ts b)"
| "book_exec E (OpClearStale side) b = map_option snd (clear_stale_levels side b)"
| "book_exec E (OpDelta delta) b = map_option snd (apply_delta E delta b)"
| "book_exec E (OpDeltas deltas) b = map_option snd (apply_deltas E deltas b)"
| "book_exec E (OpDepth depth) b = map_option snd (apply_depth E depth b)"
| "book_exec E (OpQuote quote) b = map_option snd (update_quote_tick E quote b)"
| "book_exec E (OpTrade trade) b = map_option snd (update_trade_tick E trade b)"

text \<open>
  What a caller owes: an order given to the book directly has a side, a defined size and a price that
  fits; an id added to an L3 book does not rest at another price of the same side.
\<close>

fun deltas_ok :: "book_env \<Rightarrow> order_book_delta list \<Rightarrow> order_book \<Rightarrow> bool" where
  "deltas_ok E [] b = True"
| "deltas_ok E (delta # deltas) b = (delta_ok E delta b \<and>
     (case apply_delta_unchecked E delta b of Some (None, b') \<Rightarrow> deltas_ok E deltas b' | _ \<Rightarrow> True))"

fun op_ok :: "book_env \<Rightarrow> book_op \<Rightarrow> order_book \<Rightarrow> bool" where
  "op_ok E (OpAdd order flags n ts) b = (order_typed order \<and>
     (\<exists>s \<in> {BuySide, SellSide}. bo_side order = as_order_side s \<and> id_usable E order flags (ladder_of s b)))"
| "op_ok E (OpUpdate order flags n ts) b = (order_typed order \<and> bo_side order \<noteq> NoOrderSide)"
| "op_ok E (OpDelete order flags n ts) b = (bo_side order \<noteq> NoOrderSide)"
| "op_ok E (OpDelta delta) b = delta_ok E delta b"
| "op_ok E (OpDeltas deltas) b = deltas_ok E (obds_deltas deltas) b"
| "op_ok E (OpDepth depth) b = (depth_ok E (ob_book_type b) (dep_flags depth) (dep_bids depth) \<and>
     depth_ok E (ob_book_type b) (dep_flags depth) (dep_asks depth))"
| "op_ok E _ b = True"

inductive book_reach :: "book_env \<Rightarrow> order_book \<Rightarrow> bool" for E where
  reach_new: "book_reach E (book_new i t)"
| reach_step: "book_reach E b \<Longrightarrow> op_ok E op b \<Longrightarrow> book_exec E op b = Some b' \<Longrightarrow> book_reach E b'"

text \<open>The orders of a side by their ids: the abstract state of a book.\<close>

definition book_orders :: "order_side_specified \<Rightarrow> order_book \<Rightarrow> order_id \<rightharpoonup> book_order" where
  "book_orders s b = map_of (map (\<lambda>x. (bo_order_id x, x)) (ladder_queue (ladder_of s b)))"

fun book_run :: "book_env \<Rightarrow> book_op list \<Rightarrow> order_book \<Rightarrow> order_book option" where
  "book_run E [] b = Some b"
| "book_run E (op # ops) b = Option.bind (book_exec E op b) (book_run E ops)"

fun ops_ok :: "book_env \<Rightarrow> book_op list \<Rightarrow> order_book \<Rightarrow> bool" where
  "ops_ok E [] b = True"
| "ops_ok E (op # ops) b = (op_ok E op b \<and> (case book_exec E op b of None \<Rightarrow> True | Some b' \<Rightarrow> ops_ok E ops b'))"

text \<open>What every change of a book does to its counters.\<close>

definition counters_grow :: "order_book \<Rightarrow> order_book \<Rightarrow> bool" where
  "counters_grow b b' \<longleftrightarrow> ob_sequence b \<le> ob_sequence b' \<and> ob_ts_last b \<le> ob_ts_last b' \<and>
     ob_update_count b \<le> ob_update_count b' \<and> ob_update_count b' \<le> U64_MAX \<and>
     ob_instrument_id b' = ob_instrument_id b \<and> ob_book_type b' = ob_book_type b"

section \<open>Operations on a book\<close>

lemma order_side_specified_ex: "side \<noteq> NoOrderSide \<Longrightarrow> \<exists>s. side = as_order_side s"
proof (cases side)
  case Buy then show ?thesis by (intro exI [of _ BuySide]) simp
next
  case Sell then show ?thesis by (intro exI [of _ SellSide]) simp
qed simp

lemma apply_deltas_list_ok:
  assumes E: "book_env_ok E" "hash_collision_free E"
  shows "book_inv E b \<Longrightarrow> deltas_ok E deltas b \<Longrightarrow>
    \<exists>e b'. apply_deltas_list E deltas b = Some (e, b') \<and> book_inv E b'"
proof (induction deltas arbitrary: b)
  case (Cons delta deltas)
  obtain e b1 where b1: "apply_delta_unchecked E delta b = Some (e, b1)" "book_inv E b1"
    using apply_delta_unchecked_ok [OF E Cons.prems(1), of delta] Cons.prems(2) by auto
  then show ?case using Cons.IH [OF b1(2)] Cons.prems(2) by (cases e) auto
qed simp

lemma tick_ok:
  assumes E: "book_env_ok E" and inv: "book_inv E b"
  shows "\<exists>e b'. update_quote_tick E quote b = Some (e, b') \<and> book_inv E b'"
    and "\<exists>e b'. update_trade_tick E trade b = Some (e, b') \<and> book_inv E b'"
proof -
  have top: "\<exists>b'. update_top E (book_order_new Buy p1 q1 (order_side_as_u64 Buy)) (book_order_new Sell p2 q2 (order_side_as_u64 Sell)) ts b = Some b' \<and>
      book_inv E b'" if "ob_book_type b = L1_MBP" for p1 p2 q1 q2 ts
    using update_top_ok [OF E inv that, of "book_order_new Buy p1 q1 (order_side_as_u64 Buy)" "book_order_new Sell p2 q2 (order_side_as_u64 Sell)" ts]
    by (auto simp: book_order_new_def)
  show "\<exists>e b'. update_quote_tick E quote b = Some (e, b') \<and> book_inv E b'"
    using top inv by (auto simp: update_quote_tick_def)
  show "\<exists>e b'. update_trade_tick E trade b = Some (e, b') \<and> book_inv E b'"
    using top inv by (auto simp: update_trade_tick_def)
qed

lemma clear_stale_ok:
  assumes "book_inv E b"
  shows "\<exists>r b'. clear_stale_levels side b = Some (r, b') \<and> book_inv E b'"
proof (cases "ob_book_type b = L1_MBP")
  case False
  then show ?thesis using clear_stale_levels_spec [OF assms False, of side] by blast
qed (use assms in \<open>simp add: clear_stale_levels_def\<close>)

lemma book_exec_ok:
  assumes E: "book_env_ok E" "hash_collision_free E" and inv: "book_inv E b" and ok: "op_ok E op b"
  shows "\<exists>b'. book_exec E op b = Some b' \<and> book_inv E b'"
proof (cases op)
  case (OpAdd order flags n ts)
  with ok obtain s where "bo_side order = as_order_side s" "order_typed order" "id_usable E order flags (ladder_of s b)"
    by (metis op_ok.simps(1))
  then show ?thesis using OpAdd book_add_spec [OF E inv, of order s flags n ts] by fastforce
next
  case (OpUpdate order flags n ts)
  then obtain s where "bo_side order = as_order_side s" using ok order_side_specified_ex by auto
  then show ?thesis using ok OpUpdate book_update_spec [OF E inv, of order s flags n ts] by fastforce
next
  case (OpDelete order flags n ts)
  then obtain s where "bo_side order = as_order_side s" using ok order_side_specified_ex by auto
  then show ?thesis using OpDelete book_delete_spec [OF inv, of order s flags n ts] by fastforce
next
  case (OpClearStale side)
  then show ?thesis using clear_stale_ok [OF inv, of side] by auto
next
  case (OpDelta delta)
  then show ?thesis using ok apply_delta_unchecked_ok [OF E inv, of delta] inv by (auto simp: apply_delta_def)
next
  case (OpDeltas deltas)
  then show ?thesis using ok apply_deltas_list_ok [OF E inv, of "obds_deltas deltas"] inv
    by (auto simp: apply_deltas_def apply_deltas_unchecked_def)
next
  case (OpDepth depth)
  then show ?thesis using ok apply_depth_unchecked_ok [OF E inv, of depth] inv by (auto simp: apply_depth_def)
next
  case (OpQuote quote)
  then show ?thesis using tick_ok(1) [OF E(1) inv, of quote] by auto
next
  case (OpTrade trade)
  then show ?thesis using tick_ok(2) [OF E(1) inv, of trade] by auto
qed (use inv book_inv_clear [OF inv] book_inv_clear_sides [OF inv] in simp_all)

lemma book_reach_inv:
  assumes E: "book_env_ok E" "hash_collision_free E" and "book_reach E b"
  shows "book_inv E b"
  using assms(3)
proof induction
  case (reach_new i t)
  show ?case by (rule book_inv_new)
next
  case (reach_step b op b')
  then show ?case using book_exec_ok [OF E reach_step.IH reach_step.hyps(2)] by simp
qed

lemma book_run_reach:
  "book_reach E b \<Longrightarrow> ops_ok E ops b \<Longrightarrow> book_run E ops b = Some b' \<Longrightarrow> book_reach E b'"
  by (induction ops arbitrary: b) (auto split: Option.bind_splits intro: reach_step)

lemma book_orders_iff:
  assumes "book_inv E b"
  shows "book_orders s b i = Some x \<longleftrightarrow> x \<in> set (ladder_queue (ladder_of s b)) \<and> bo_order_id x = i"
proof -
  have "distinct (map fst (map (\<lambda>x. (bo_order_id x, x)) (ladder_queue (ladder_of s b))))"
    using ladder_queue_distinct [OF side_okD(1) [OF conjunct2 [OF book_invD [OF assms]]]] by (simp add: comp_def)
  then show ?thesis by (auto simp: book_orders_def)
qed

lemma book_orders_insert:
  assumes "book_inv E b" "book_inv E b'"
    and "set (ladder_queue (ladder_of s b')) = insert x (without (bo_order_id x) (ladder_of s b))"
  shows "book_orders s b' = (book_orders s b)(bo_order_id x \<mapsto> x)"
proof
  fix i
  have "book_orders s b' i = Some y \<longleftrightarrow> ((book_orders s b)(bo_order_id x \<mapsto> x)) i = Some y" for y
    unfolding book_orders_iff [OF assms(2)] using assms(3) book_orders_iff [OF assms(1), of s i] by auto
  then show "book_orders s b' i = ((book_orders s b)(bo_order_id x \<mapsto> x)) i" by (metis option.exhaust)
qed

lemma book_orders_remove:
  assumes "book_inv E b" "book_inv E b'"
    and "set (ladder_queue (ladder_of s b')) = without i (ladder_of s b)"
  shows "book_orders s b' = (book_orders s b)(i := None)"
proof
  fix j
  have "book_orders s b' j = Some y \<longleftrightarrow> ((book_orders s b)(i := None)) j = Some y" for y
    unfolding book_orders_iff [OF assms(2)] using assms(3) book_orders_iff [OF assms(1), of s j] by auto
  then show "book_orders s b' j = ((book_orders s b)(i := None)) j" by (metis option.exhaust)
qed

lemma book_orders_same:
  assumes "book_inv E b" "book_inv E b'" and "set (ladder_queue (ladder_of s b')) = set (ladder_queue (ladder_of s b))"
  shows "book_orders s b' = book_orders s b"
proof
  fix i
  have "book_orders s b' i = Some y \<longleftrightarrow> book_orders s b i = Some y" for y
    unfolding book_orders_iff [OF assms(1)] book_orders_iff [OF assms(2)] assms(3) ..
  then show "book_orders s b' i = book_orders s b i" by (metis option.exhaust)
qed

lemma price_of_rank: "rank_of s x = rank_of s y \<longleftrightarrow> price_of x = price_of y"
  by (simp add: price_rank_eq_iff price_of_def)

lemma l2_prices_distinct:
  assumes E: "hash_collision_free E" and ok: "side_ok E L2_MBP l"
  shows "distinct (map price_of (ladder_queue l))"
proof -
  have ids: "distinct (map bo_order_id (ladder_queue l))" using ladder_queue_distinct [OF side_okD(1) [OF ok]] .
  have eq: "bo_order_id x = bo_order_id y"
    if "x \<in> set (ladder_queue l)" "y \<in> set (ladder_queue l)" "price_of x = price_of y" for x y
  proof -
    have "bo_order_id x = price_based_order_id E x" "bo_order_id y = price_based_order_id E y"
      using ok that(1,2) by (simp_all add: side_ok_def)
    then show ?thesis using that(3) by (simp add: price_based_order_id_def price_of_def)
  qed
  have "inj_on price_of (set (ladder_queue l))"
    by (rule inj_onI) (use ids eq in \<open>auto simp: distinct_map dest: inj_onD\<close>)
  then show ?thesis using ids by (simp add: distinct_map)
qed

lemma cache_dom:
  assumes "ladder_inv l"
  shows "dom (ld_cache l) = bo_order_id ` set (ladder_queue l)"
proof
  show "dom (ld_cache l) \<subseteq> bo_order_id ` set (ladder_queue l)"
    using cached_in_queue [OF assms] by (metis (no_types, lifting) domD image_eqI subsetI)
  show "bo_order_id ` set (ladder_queue l) \<subseteq> dom (ld_cache l)"
    unfolding ladder_queue_resting [OF assms] using resting_id_rank(1) [OF ladder_invD(2) [OF assms]] by blast
qed

lemma queue_orders:
  assumes inv: "book_inv E b" and x: "x \<in> set (ladder_queue (ladder_of s b))"
  shows "bo_side x = as_order_side s \<and> 0 < q_raw (bo_size x)"
proof -
  have sd: "ld_side (ladder_of s b) = s" and linv: "ladder_inv (ladder_of s b)"
    using book_invD [OF inv] side_okD(1) by blast+
  obtain r level i where L: "ladder_levels (ladder_of s b) r = Some level" "(i, x) \<in> set (bl_orders level)"
    using x ladder_queue_resting [OF linv] by (auto simp: resting_def)
  show ?thesis using levels_ok_order [OF ladder_invD(2) [OF linv] L] sd by (auto simp: quantity_is_positive_def)
qed

lemma counters_grow_refl: "ob_update_count b \<le> U64_MAX \<Longrightarrow> counters_grow b b"
  by (simp add: counters_grow_def)

lemma counters_grow_trans: "counters_grow b c \<Longrightarrow> counters_grow c d \<Longrightarrow> counters_grow b d"
  unfolding counters_grow_def by auto

lemma counters_grow_increment:
  assumes "ob_update_count b \<le> U64_MAX"
    and "ob_sequence c = ob_sequence b" "ob_ts_last c = ob_ts_last b" "ob_update_count c = ob_update_count b"
      "ob_instrument_id c = ob_instrument_id b" "ob_book_type c = ob_book_type b"
  shows "counters_grow b (book_increment n ts c)"
  using assms by (simp add: counters_grow_def book_increment_def u64_saturating_add_def)

lemma clear_stale_counters:
  assumes "ob_update_count b \<le> U64_MAX" and "clear_stale_levels side b = Some (r, b')"
  shows "counters_grow b b'"
  using assms by (auto simp: clear_stale_levels_def Let_def intro!: counters_grow_refl counters_grow_increment
      split: if_splits option.splits prod.splits Option.bind_splits)

lemma on_side_counters:
  assumes "on_side side f b = Some c"
  shows "ob_sequence c = ob_sequence b" "ob_ts_last c = ob_ts_last b" "ob_update_count c = ob_update_count b"
    "ob_instrument_id c = ob_instrument_id b" "ob_book_type c = ob_book_type b"
  using assms by (auto simp: on_side_def split: Option.bind_splits order_side_specified.splits)

lemma book_ops_counters:
  assumes "ob_update_count b \<le> U64_MAX"
  shows "book_add E order flags n ts b = Some b' \<Longrightarrow> counters_grow b b'"
    and "book_update E order flags n ts b = Some b' \<Longrightarrow> counters_grow b b'"
    and "book_delete E order flags n ts b = Some b' \<Longrightarrow> counters_grow b b'"
    and "counters_grow b (book_clear n ts b)"
  using counters_grow_increment [OF assms on_side_counters] counters_grow_increment [OF assms]
  by (auto simp: book_add_def book_update_def book_delete_def book_clear_def Let_def)

lemma apply_delta_unchecked_counters:
  assumes "ob_update_count b \<le> U64_MAX" and "apply_delta_unchecked E delta b = Some (e, b')"
  shows "counters_grow b b'"
proof -
  have "b' = b \<or> (\<exists>order. book_run_action E delta order b = Some (e, b'))"
    using assms(2) by (auto simp: apply_delta_unchecked_def Let_def split: if_splits sum.splits book_integrity_error.splits book_action.splits)
  then show ?thesis
    using counters_grow_refl [OF assms(1)] book_ops_counters [OF assms(1)]
    by (auto simp: book_run_action_def split: if_splits book_action.splits)
qed

lemma apply_deltas_list_counters:
  "ob_update_count b \<le> U64_MAX \<Longrightarrow> apply_deltas_list E deltas b = Some (e, b') \<Longrightarrow> counters_grow b b'"
proof (induction deltas arbitrary: b)
  case Nil
  then show ?case by (simp add: counters_grow_refl)
next
  case (Cons delta deltas)
  obtain e1 b1 where b1: "apply_delta_unchecked E delta b = Some (e1, b1)" using Cons.prems(2) by (auto split: Option.bind_splits)
  note g = apply_delta_unchecked_counters [OF Cons.prems(1) b1]
  have "ob_update_count b1 \<le> U64_MAX" using g by (simp add: counters_grow_def)
  then show ?case using Cons.IH [of b1] Cons.prems(2) b1 g by (cases e1) (auto intro: counters_grow_trans)
qed

lemma update_top_counters:
  assumes "ob_update_count b \<le> U64_MAX" and "update_top E bid ask ts b = Some b'"
  shows "counters_grow b b'"
  using assms(2) counters_grow_increment [OF assms(1)]
  by (auto simp: update_top_def update_book_bid_def update_book_ask_def split: Option.bind_splits)

lemma book_exec_counters:
  assumes c: "ob_update_count b \<le> U64_MAX" and x: "book_exec E op b = Some b'" and r: "op \<noteq> OpReset"
  shows "counters_grow b b'"
proof (cases op)
  case (OpClearStale side)
  then obtain r where "clear_stale_levels side b = Some (r, b')" using x by auto
  then show ?thesis by (rule clear_stale_counters [OF c])
next
  case (OpDelta delta)
  then show ?thesis using x counters_grow_refl [OF c] apply_delta_unchecked_counters [OF c]
    by (auto simp: apply_delta_def split: if_splits)
next
  case (OpDeltas deltas)
  then show ?thesis using x counters_grow_refl [OF c] apply_deltas_list_counters [OF c]
    by (auto simp: apply_deltas_def apply_deltas_unchecked_def split: if_splits)
next
  case (OpDepth depth)
  then show ?thesis using x counters_grow_refl [OF c] counters_grow_increment [OF c]
    by (auto simp: apply_depth_def apply_depth_unchecked_def split: if_splits Option.bind_splits)
next
  case (OpQuote quote)
  then show ?thesis using x counters_grow_refl [OF c] update_top_counters [OF c]
    by (auto simp: update_quote_tick_def split: if_splits)
next
  case (OpTrade trade)
  then show ?thesis using x counters_grow_refl [OF c] update_top_counters [OF c]
    by (auto simp: update_trade_tick_def split: if_splits)
qed (use x r book_ops_counters [OF c] counters_grow_increment [OF c] in
    \<open>auto simp: book_clear_bids_def book_clear_asks_def\<close>)

lemma book_reach_count: "book_reach E b \<Longrightarrow> ob_update_count b \<le> U64_MAX"
proof (induction rule: book_reach.induct)
  case (reach_new i t)
  then show ?case by (simp add: book_new_def)
next
  case (reach_step b op b')
  then show ?case using book_exec_counters [OF reach_step.IH reach_step.hyps(3)]
    by (cases "op = OpReset") (auto simp: book_reset_def counters_grow_def)
qed

lemma resolve_known:
  assumes inv: "book_inv E b"
  shows "(\<exists>order'. resolve_no_side_order b order = Inr order') \<longleftrightarrow> (\<exists>s. book_orders s b (bo_order_id order) \<noteq> None)"
proof -
  have dom: "ld_cache (ladder_of s b) (bo_order_id order) = None \<longleftrightarrow> book_orders s b (bo_order_id order) = None" for s
  proof -
    have "bo_order_id order \<in> dom (ld_cache (ladder_of s b)) \<longleftrightarrow> bo_order_id order \<in> bo_order_id ` set (ladder_queue (ladder_of s b))"
      using cache_dom [OF side_okD(1) [OF conjunct2 [OF book_invD [OF inv]]]] by simp
    also have "\<dots> \<longleftrightarrow> (\<exists>x. book_orders s b (bo_order_id order) = Some x)"
      unfolding image_iff book_orders_iff [OF inv] by metis
    finally show ?thesis by auto
  qed
  have "(\<exists>order'. resolve_no_side_order b order = Inr order') \<longleftrightarrow>
      (\<exists>s. ld_cache (ladder_of s b) (bo_order_id order) \<noteq> None)"
    by (auto simp: resolve_no_side_order_def ladder_of_def split: option.splits order_side_specified.splits)
  then show ?thesis by (simp add: dom)
qed

lemma book_run_action_error:
  "book_run_action E delta order b = Some (e, b') \<Longrightarrow>
     e = (if bo_side order = NoOrderSide \<and> obd_action delta \<noteq> Clear then Some NoOrderSideInBook else None)"
  by (auto simp: book_run_action_def split: if_splits book_action.splits)

lemma apply_delta_unchecked_result:
  assumes inv: "book_inv E b" and r: "apply_delta_unchecked E delta b = Some (e, b')"
  defines "known \<equiv> \<exists>s. book_orders s b (bo_order_id (obd_order delta)) \<noteq> None"
  shows "e = (if bo_side (obd_order delta) = NoOrderSide \<and> obd_action delta \<noteq> Clear \<and>
        (bo_order_id (obd_order delta) = 0 \<or> obd_action delta = Add \<and> \<not> known)
      then Some NoOrderSideInBook else None)"
    and "bo_side (obd_order delta) = NoOrderSide \<Longrightarrow> bo_order_id (obd_order delta) \<noteq> 0 \<Longrightarrow> \<not> known \<Longrightarrow>
      obd_action delta \<noteq> Clear \<Longrightarrow> b' = b"
proof -
  let ?x = "obd_order delta"
  have res: "(\<exists>y. resolve_no_side_order b ?x = Inr y) \<longleftrightarrow> known" unfolding known_def by (rule resolve_known [OF inv])
  consider (direct) "\<not> (bo_side ?x = NoOrderSide \<and> bo_order_id ?x \<noteq> 0)"
    | (known) y where "bo_side ?x = NoOrderSide" "bo_order_id ?x \<noteq> 0" "resolve_no_side_order b ?x = Inr y"
    | (unknown) "bo_side ?x = NoOrderSide" "bo_order_id ?x \<noteq> 0" "resolve_no_side_order b ?x = Inl (OrderNotFoundForSideResolution (bo_order_id ?x))"
    using resolve_error by (metis sum.exhaust)
  then have "e = (if bo_side ?x = NoOrderSide \<and> obd_action delta \<noteq> Clear \<and>
        (bo_order_id ?x = 0 \<or> obd_action delta = Add \<and> \<not> known) then Some NoOrderSideInBook else None) \<and>
      (bo_side ?x = NoOrderSide \<longrightarrow> bo_order_id ?x \<noteq> 0 \<longrightarrow> \<not> known \<longrightarrow> obd_action delta \<noteq> Clear \<longrightarrow> b' = b)"
  proof cases
    case direct
    then have "book_run_action E delta ?x b = Some (e, b')" using r by (auto simp: apply_delta_unchecked_def Let_def)
    from book_run_action_error [OF this] direct show ?thesis by auto
  next
    case known
    then have "book_run_action E delta y b = Some (e, b')" using r by (simp add: apply_delta_unchecked_def Let_def)
    moreover obtain s where "y = ?x \<lparr> bo_side := as_order_side s \<rparr>" using resolve_side [OF inv known(3)] by blast
    ultimately show ?thesis using book_run_action_error [of E delta y b e b'] known res by auto
  next
    case unknown
    then have "\<not> known" using res by auto
    then show ?thesis using r unknown book_run_action_error [of E delta ?x b e b']
      by (cases "obd_action delta") (auto simp: apply_delta_unchecked_def Let_def)
  qed
  then show "e = (if bo_side ?x = NoOrderSide \<and> obd_action delta \<noteq> Clear \<and>
        (bo_order_id ?x = 0 \<or> obd_action delta = Add \<and> \<not> known) then Some NoOrderSideInBook else None)"
    and "bo_side ?x = NoOrderSide \<Longrightarrow> bo_order_id ?x \<noteq> 0 \<Longrightarrow> \<not> known \<Longrightarrow> obd_action delta \<noteq> Clear \<Longrightarrow> b' = b"
    by blast+
qed

lemma ladder_place_batch: "ladder_place E order l = Some l' \<Longrightarrow> ld_batch_state l' = ld_batch_state l \<and> ld_book_type l' = ld_book_type l"
  by (auto simp: ladder_place_def Let_def split: Option.bind_splits)

lemma retain_best_batch [simp]: "ld_batch_state (ladder_retain_best_only l) = ld_batch_state l"
  by (simp add: ladder_retain_best_only_def Let_def split: list.split)

lemma snapshot_batch_open:
  assumes "ladder_add E order flags l = Some l'" and "ld_book_type l = L1_MBP" and "quantity_is_positive (bo_size order)"
    and "flag_matches F_SNAPSHOT flags" and "\<not> flag_matches F_LAST flags"
  shows "ld_batch_state l' = SnapshotBatch"
proof -
  obtain l0 where l0: "ladder_handle_l1_add order flags l = (True, l0)" "ld_batch_state l0 = SnapshotBatch"
    using assms(3-5) by (auto simp: ladder_handle_l1_add_def Let_def)
  then obtain l1 where "ladder_place E order l0 = Some l1" "l' = ladder_end_batch flags l1"
    using assms(1-3) by (auto simp: ladder_add_def)
  then show ?thesis using ladder_place_batch l0(2) assms(5) by (auto simp: ladder_end_batch_def Let_def)
qed

lemma snapshot_flag [simp]: "flag_matches F_SNAPSHOT (flag_value F_SNAPSHOT)" "\<not> flag_matches F_LAST (flag_value F_SNAPSHOT)"
  by (simp_all add: flag_matches_def flag_value_def)

text \<open>One more order of a snapshot batch on an L1 book.\<close>

lemma l1_batch_step:
  assumes E: "book_env_ok E" and inv: "book_inv E b" and t: "ob_book_type b = L1_MBP"
    and x: "bo_side x = as_order_side s" "quantity_is_positive (bo_size x)"
  defines "x' \<equiv> x \<lparr> bo_order_id := order_side_as_u64 (bo_side x) \<rparr>"
  shows "\<exists>b'. book_add E x (flag_value F_SNAPSHOT) n ts b = Some b' \<and> book_inv E b' \<and> ob_book_type b' = L1_MBP \<and>
    ld_batch_state (ladder_of s b') = SnapshotBatch \<and>
    ladder_queue (ladder_of s b') =
      (if ld_batch_state (ladder_of s b) = SnapshotBatch \<and> (\<exists>y. ladder_queue (ladder_of s b) = [y] \<and> rank_of s y < rank_of s x)
       then ladder_queue (ladder_of s b) else [x'])"
proof -
  have sd: "ld_side (ladder_of s b) = s" and ok: "l1_ok (ladder_of s b)"
    using book_invD [OF inv, of s] side_okD(3) t by auto
  have x': "bo_side x' = as_order_side (ld_side (ladder_of s b))"
    "bo_order_id x' = order_side_as_u64 (as_order_side (ld_side (ladder_of s b)))" "bo_size x' = bo_size x" "bo_price x' = bo_price x"
    using x sd by (simp_all add: x'_def)
  obtain l' where l': "ladder_add E x' (flag_value F_SNAPSHOT) (ladder_of s b) = Some l'" "l1_ok l'" "ld_side l' = s"
    "ladder_queue l' = (if l1_continues (flag_value F_SNAPSHOT) (ladder_of s b) \<and>
        (\<exists>y. ladder_queue (ladder_of s b) = [y] \<and> rank_of s y < rank_of s x) then ladder_queue (ladder_of s b) else [x'])"
    using l1_add [OF E ok x'(1,2), of "flag_value F_SNAPSHOT"] x(2) x'(3,4) sd by auto
  have "ld_batch_state l' = SnapshotBatch"
    using snapshot_batch_open [OF l'(1)] ok x(2) x'(3) by (simp add: l1_ok_def)
  moreover have "book_inv E (set_ladder s l' b)"
    using book_inv_set_ladder [OF inv l'(3)] l1_side_ok [OF l'(2)] t by simp
  moreover have "pre_process_order E L1_MBP x (flag_value F_SNAPSHOT) = x'" by (simp add: pre_process_order_def x'_def)
  ultimately show ?thesis using l' t x(1) x'(1) sd by (auto simp: book_add_def on_side_eq l1_continues_def)
qed

lemma l1_batch_run:
  assumes E: "book_env_ok E" and "book_inv E b" and "ob_book_type b = L1_MBP"
    and "\<forall>x \<in> set xs. bo_side x = as_order_side s \<and> quantity_is_positive (bo_size x)"
    and "ld_batch_state (ladder_of s b) = SnapshotBatch" and "ladder_queue (ladder_of s b) = [y]"
  shows "\<exists>b' z. book_run E (map (\<lambda>x. OpAdd x (flag_value F_SNAPSHOT) n ts) xs) b = Some b' \<and>
    ladder_queue (ladder_of s b') = [z] \<and> (\<forall>x \<in> set (y # xs). rank_of s z \<le> rank_of s x) \<and>
    (\<exists>x \<in> set (y # xs). bo_price z = bo_price x \<and> bo_size z = bo_size x)"
  using assms(2-6)
proof (induction xs arbitrary: b y)
  case Nil
  then show ?case by auto
next
  case (Cons x xs)
  define x' where "x' = x \<lparr> bo_order_id := order_side_as_u64 (bo_side x) \<rparr>"
  define y' where "y' = (if rank_of s y < rank_of s x then y else x')"
  obtain b1 where b1: "book_add E x (flag_value F_SNAPSHOT) n ts b = Some b1" "book_inv E b1" "ob_book_type b1 = L1_MBP"
    "ld_batch_state (ladder_of s b1) = SnapshotBatch" "ladder_queue (ladder_of s b1) = [y']"
    using l1_batch_step [OF E Cons.prems(1,2), of x s n ts] Cons.prems(3-5) unfolding x'_def y'_def by auto
  obtain b' z where b': "book_run E (map (\<lambda>x. OpAdd x (flag_value F_SNAPSHOT) n ts) xs) b1 = Some b'"
    "ladder_queue (ladder_of s b') = [z]" "\<forall>x \<in> set (y' # xs). rank_of s z \<le> rank_of s x"
    "\<exists>x \<in> set (y' # xs). bo_price z = bo_price x \<and> bo_size z = bo_size x"
    using Cons.IH [OF b1(2,3) _ b1(4,5)] Cons.prems(3) by auto
  have y': "rank_of s y' \<le> rank_of s y" "rank_of s y' \<le> rank_of s x"
    "\<exists>w \<in> {y, x}. bo_price y' = bo_price w \<and> bo_size y' = bo_size w"
    by (auto simp: y'_def x'_def)
  have "\<forall>w \<in> set (y # x # xs). rank_of s z \<le> rank_of s w" using b'(3) y'(1,2) by auto
  moreover have "\<exists>w \<in> set (y # x # xs). bo_price z = bo_price w \<and> bo_size z = bo_size w"
    using b'(4) y'(3) by auto
  ultimately show ?case using b1(1) b'(1,2) by auto
qed

end
