(* ===== verification/Book_Claims.thy ===== *)
theory Book_Claims
  imports Book_Reach
begin

text \<open>
  What the order book promises, for every book its operations can reach, with an example book that shows
  each claim at work.
\<close>

definition ex_bo :: "order_side \<Rightarrow> int \<Rightarrow> nat \<Rightarrow> order_id \<Rightarrow> book_order" where
  "ex_bo side p n i = book_order_new side \<lparr> p_raw = p, p_prec = 2 \<rparr> \<lparr> q_raw = n, q_prec = 0 \<rparr> i"

definition ex_ops :: "book_op list" where
  "ex_ops = [OpAdd (ex_bo Buy 100 10 1) 0 1 5, OpAdd (ex_bo Buy 101 20 2) 0 2 6, OpAdd (ex_bo Buy 101 30 4) 0 2 6,
     OpAdd (ex_bo Sell 101 40 3) 0 3 7, OpAdd (ex_bo Sell 99 7 5) 0 3 7]"

definition ex_book :: order_book where
  "ex_book = the (book_run plain_book_env ex_ops (book_new ''X'' L3_MBO))"

definition ex_delta :: order_book_delta where
  "ex_delta = \<lparr> obd_instrument_id = ''X'', obd_action = Update, obd_order = ex_bo NoOrderSide 101 5 77, obd_flags = 0,
     obd_sequence = 9, obd_ts_event = 9, obd_ts_init = 9 \<rparr>"

definition plain_data_env :: data_env where
  "plain_data_env = \<lparr>
     delta_clear = (\<lambda>i q te ti. \<lparr> obd_instrument_id = i, obd_action = Clear, obd_order = ex_bo NoOrderSide 0 0 0,
       obd_flags = flag_value F_SNAPSHOT, obd_sequence = q, obd_ts_event = te, obd_ts_init = ti \<rparr>),
     delta_new = (\<lambda>i a x f q te ti. if a \<in> {Add, Update} \<and> \<not> quantity_is_positive (bo_size x) then None else Some
       \<lparr> obd_instrument_id = i, obd_action = a, obd_order = x, obd_flags = f, obd_sequence = q, obd_ts_event = te, obd_ts_init = ti \<rparr>),
     deltas_new = (\<lambda>i ds. if ds = [] then None else Some \<lparr> obds_instrument_id = i, obds_deltas = ds \<rparr>),
     quote_new = (\<lambda>i bp ap bs as te ti. Some \<lparr> qt_instrument_id = i, qt_bid_price = bp, qt_ask_price = ap,
       qt_bid_size = bs, qt_ask_size = as, qt_ts_event = te, qt_ts_init = ti \<rparr>) \<rparr>"

definition ex_quote :: quote_tick where
  "ex_quote = \<lparr> qt_instrument_id = ''X'', qt_bid_price = \<lparr> p_raw = 99, p_prec = 2 \<rparr>, qt_ask_price = \<lparr> p_raw = 101, p_prec = 2 \<rparr>,
     qt_bid_size = \<lparr> q_raw = 7, q_prec = 0 \<rparr>, qt_ask_size = \<lparr> q_raw = 0, q_prec = 0 \<rparr>, qt_ts_event = 4, qt_ts_init = 5 \<rparr>"

section \<open>Examples\<close>

lemmas ex_book_eval =
  ex_bo_def book_order_new_def book_add_def pre_process_order_def flag_matches_def on_side_def ladder_add_def
  ladder_place_def ladder_end_batch_def plain_book_env_def book_new_def ladder_new_def book_increment_def
  book_price_new_def level_from_order_def level_add_def level_new_def quantity_is_positive_def QUANTITY_UNDEF_def
  U64_MAX_def u64_saturating_add_def book_price_cmp_def price_cmp_def cmp_int_def id_usable_def id_free_def order_typed_def in_i64_def
  ladder_of_def price_rank_def bp_rank_def I64_MIN_def I64_MAX_def Let_def

lemma ex_book_run:
  "book_run plain_book_env ex_ops (book_new ''X'' L3_MBO) = Some ex_book \<and>
   ops_ok plain_book_env ex_ops (book_new ''X'' L3_MBO) \<and>
   ladder_queue (ob_bids ex_book) = [ex_bo Buy 101 20 2, ex_bo Buy 101 30 4, ex_bo Buy 100 10 1] \<and>
   ladder_queue (ob_asks ex_book) = [ex_bo Sell 99 7 5, ex_bo Sell 101 40 3] \<and> ob_book_type ex_book = L3_MBO"
  by (simp add: ex_book_def ex_ops_def ex_book_eval ladder_queue_def)

lemma ex_instrument [simp]: "ob_instrument_id ex_book = ''X''"
  by (simp add: ex_book_def ex_ops_def ex_book_eval)

lemma ex_book_reach: "book_reach plain_book_env ex_book"
  using book_run_reach [OF reach_new] ex_book_run by blast

lemmas ex_env = plain_book_env_ok plain_hash_collision_free

lemma ex_queue [simp]:
  "ladder_queue (ladder_of BuySide ex_book) = [ex_bo Buy 101 20 2, ex_bo Buy 101 30 4, ex_bo Buy 100 10 1]"
  "ladder_queue (ladder_of SellSide ex_book) = [ex_bo Sell 99 7 5, ex_bo Sell 101 40 3]"
  "ob_book_type ex_book = L3_MBO"
  using ex_book_run by (simp_all add: ladder_of_def)

lemma ex_bo_simps [simp]:
  "bo_side (ex_bo side p n i) = side" "p_raw (bo_price (ex_bo side p n i)) = p" "q_raw (bo_size (ex_bo side p n i)) = n"
  "q_prec (bo_size (ex_bo side p n i)) = 0" "bo_order_id (ex_bo side p n i) = i" "price_of (ex_bo side p n i) = p"
  by (simp_all add: ex_bo_def book_order_new_def price_of_def)

lemma ex_orders [simp]:
  "book_orders BuySide ex_book = [2 \<mapsto> ex_bo Buy 101 20 2, 4 \<mapsto> ex_bo Buy 101 30 4, 1 \<mapsto> ex_bo Buy 100 10 1]"
  "book_orders SellSide ex_book = [5 \<mapsto> ex_bo Sell 99 7 5, 3 \<mapsto> ex_bo Sell 101 40 3]"
  by (auto simp: book_orders_def)

lemma ex_unknown [simp]: "book_orders s ex_book 77 = None" "book_orders s ex_book 0 = None"
  by (cases s; simp)+

lemma ex_id_free:
  assumes "i \<notin> {2, 4, 1}"
  shows "id_usable plain_book_env (ex_bo Buy p n i) 0 (ladder_of BuySide ex_book)"
proof -
  have "ladder_inv (ladder_of BuySide ex_book)"
    using book_invD [OF book_reach_inv [OF ex_env ex_book_reach]] side_okD(1) by blast
  from cache_dom [OF this] have "ld_cache (ladder_of BuySide ex_book) i = None" using assms by auto
  then show ?thesis by (simp add: id_usable_def id_free_def pre_process_order_def flag_matches_def)
qed

lemma ex_typed [simp]: "order_typed (ex_bo side p n i) \<longleftrightarrow> n \<noteq> U64_MAX \<and> in_i64 p"
  by (simp add: order_typed_def QUANTITY_UNDEF_def)

lemma ex_positive [simp]: "quantity_is_positive (bo_size (ex_bo side p n i)) \<longleftrightarrow> n \<noteq> U64_MAX \<and> 0 < n"
  by (simp add: quantity_is_positive_def QUANTITY_UNDEF_def)

lemma ex_pre [simp]: "pre_process_order E L3_MBO x 0 = x"
  by (simp add: pre_process_order_def)

lemma plain_data_env_ok: "data_env_ok plain_data_env"
  by (simp add: data_env_ok_def plain_data_env_def)

section \<open>Claims\<close>

text \<open>
  C2: in every book that can be reached by the operations, both ladders are queues in price priority,
  hold each order id once, know exactly the ids that rest, and hold only orders of their own side with
  a positive size; an L1 ladder holds at most one order and an L2 ladder at most one order per price.
\<close>

theorem book_reach_invariant:
  assumes E: "book_env_ok E" "hash_collision_free E" and reach: "book_reach E b"
  defines "q s \<equiv> ladder_queue (ladder_of s b)"
  shows "sorted_wrt (\<lambda>x y. rank_of s x \<le> rank_of s y) (q s) \<and> distinct (map bo_order_id (q s)) \<and>
    dom (ld_cache (ladder_of s b)) = bo_order_id ` set (q s) \<and>
    (\<forall>x \<in> set (q s). bo_side x = as_order_side s \<and> 0 < q_raw (bo_size x)) \<and>
    (ob_book_type b = L1_MBP \<longrightarrow> length (q s) \<le> 1) \<and> (ob_book_type b = L2_MBP \<longrightarrow> distinct (map price_of (q s)))"
proof -
  have inv: "book_inv E b" by (rule book_reach_inv [OF E reach])
  have sd: "ld_side (ladder_of s b) = s" and ok: "side_ok E (ob_book_type b) (ladder_of s b)"
    using book_invD [OF inv] by simp_all
  have "length (q s) \<le> 1" if "ob_book_type b = L1_MBP"
    using l1_queue [OF side_okD(3) [OF ok that]] by (auto simp: q_def)
  then show ?thesis
    using ladder_queue_sorted [OF side_okD(1) [OF ok]] ladder_queue_distinct [OF side_okD(1) [OF ok]]
      cache_dom [OF side_okD(1) [OF ok]] queue_orders [OF inv] l2_prices_distinct [OF E(2)] ok sd
    unfolding q_def by auto
qed

theorem book_reach_invariant_witness:
  "book_reach plain_book_env ex_book \<and> distinct (map bo_order_id (ladder_queue (ladder_of BuySide ex_book))) \<and>
   dom (ld_cache (ladder_of BuySide ex_book)) = {1, 2, 4}"
  using book_reach_invariant [OF ex_env ex_book_reach, of BuySide] ex_book_reach by auto

text \<open>
  C25: no operation on a reachable book panics, whatever the flags, sequence numbers and timestamps
  are: every call that meets its precondition returns a book.
\<close>

theorem book_no_panic:
  assumes "book_env_ok E" "hash_collision_free E" and "book_reach E b" and "op_ok E op b"
  shows "\<exists>b'. book_exec E op b = Some b' \<and> book_reach E b'"
  using book_exec_ok [OF assms(1,2) book_reach_inv [OF assms(1-3)] assms(4)] reach_step [OF assms(3,4)] by blast

theorem book_no_panic_witness:
  "\<exists>b'. book_exec plain_book_env (OpUpdate (ex_bo Buy 102 5 1) 0 9 9) ex_book = Some b' \<and> book_reach plain_book_env b'"
  by (rule book_no_panic [OF ex_env ex_book_reach]) (simp add: U64_MAX_def in_i64_def I64_MIN_def I64_MAX_def)

text \<open>
  C3: an L2 or L3 book implements two maps from ids to orders. Adding or updating with a positive size
  binds the id of the pre-processed order, updating with size zero and deleting unbind it, and the
  other side does not change.
\<close>

theorem book_refines_order_maps:
  fixes flags n ts :: nat
  assumes E: "book_env_ok E" "hash_collision_free E" and reach: "book_reach E b" and t: "ob_book_type b \<noteq> L1_MBP"
    and order: "bo_side order = as_order_side s" "order_typed order" "id_usable E order flags (ladder_of s b)"
  defines "x \<equiv> pre_process_order E (ob_book_type b) order flags"
    and "pos \<equiv> quantity_is_positive (bo_size order)"
  shows "\<exists>b1 b2 b3.
    book_add E order flags n ts b = Some b1 \<and>
    book_orders s b1 = (if pos then (book_orders s b)(bo_order_id x \<mapsto> x) else book_orders s b) \<and>
    book_update E order flags n ts b = Some b2 \<and>
    book_orders s b2 = (book_orders s b)(bo_order_id x := (if pos then Some x else None)) \<and>
    book_delete E order flags n ts b = Some b3 \<and>
    book_orders s b3 = (book_orders s b)(bo_order_id x := None) \<and>
    (\<forall>b' \<in> {b1, b2, b3}. book_orders (opposite s) b' = book_orders (opposite s) b)"
proof -
  have inv: "book_inv E b" by (rule book_reach_inv [OF E reach])
  have l1: "\<not> kept_better x flags (ladder_of s b)"
    using t side_okD(2) [OF conjunct2 [OF book_invD [OF inv]]] by (simp add: kept_better_def)
  obtain b1 where b1: "book_add E order flags n ts b = Some b1" "book_inv E b1"
    "set (ladder_queue (ladder_of s b1)) = (if pos then insert x (without (bo_order_id x) (ladder_of s b)) else set (ladder_queue (ladder_of s b)))"
    "ladder_of (opposite s) b1 = ladder_of (opposite s) b"
    using book_add_spec [OF E inv order, of n ts] l1 t unfolding x_def pos_def by auto
  obtain b2 where b2: "book_update E order flags n ts b = Some b2" "book_inv E b2"
    "set (ladder_queue (ladder_of s b2)) = (if pos then insert x (without (bo_order_id x) (ladder_of s b)) else without (bo_order_id x) (ladder_of s b))"
    "ladder_of (opposite s) b2 = ladder_of (opposite s) b"
    using book_update_spec [OF E inv order(1,2), of flags n ts] unfolding x_def pos_def by blast
  obtain b3 where b3: "book_delete E order flags n ts b = Some b3" "book_inv E b3"
    "set (ladder_queue (ladder_of s b3)) = without (bo_order_id x) (ladder_of s b)"
    "ladder_of (opposite s) b3 = ladder_of (opposite s) b"
    using book_delete_spec [OF inv order(1), of flags n ts] unfolding x_def by blast
  have "book_orders s b1 = (if pos then (book_orders s b)(bo_order_id x \<mapsto> x) else book_orders s b)"
    using book_orders_insert [OF inv b1(2)] book_orders_same [OF inv b1(2)] b1(3) by simp
  moreover have "book_orders s b2 = (book_orders s b)(bo_order_id x := (if pos then Some x else None))"
    using book_orders_insert [OF inv b2(2)] book_orders_remove [OF inv b2(2)] b2(3) by simp
  moreover have "book_orders (opposite s) b' = book_orders (opposite s) b" if "b' \<in> {b1, b2, b3}" for b'
    using that b1(4) b2(4) b3(4) by (auto simp: book_orders_def)
  ultimately show ?thesis using b1(1) b2(1) b3(1) book_orders_remove [OF inv b3(2,3)] by blast
qed

theorem book_refines_order_maps_witness:
  "\<exists>b1. book_add plain_book_env (ex_bo Buy 102 5 9) 0 9 9 ex_book = Some b1 \<and> book_orders BuySide b1 9 = Some (ex_bo Buy 102 5 9)"
  using book_refines_order_maps [OF ex_env ex_book_reach _ _ _ ex_id_free [of 9 102 5], where n = 9 and ts = 9]
  by (auto simp: U64_MAX_def in_i64_def I64_MIN_def I64_MAX_def)

text \<open>
  C4: price-time priority. An order with a new id joins an L2 or L3 book behind every order at its price
  or a better one and in front of every order at a worse price.
\<close>

theorem book_price_time_priority:
  assumes E: "book_env_ok E" "hash_collision_free E" and reach: "book_reach E b" and t: "ob_book_type b \<noteq> L1_MBP"
    and order: "bo_side order = as_order_side s" "order_typed order" "quantity_is_positive (bo_size order)"
    and new: "book_orders s b (bo_order_id (pre_process_order E (ob_book_type b) order flags)) = None"
  shows "\<exists>b'. book_add E order flags n ts b = Some b' \<and>
    ladder_queue (ladder_of s b') =
      queue_insert s (pre_process_order E (ob_book_type b) order flags) (ladder_queue (ladder_of s b))"
proof -
  let ?x = "pre_process_order E (ob_book_type b) order flags" and ?l = "ladder_of s b"
  have inv: "book_inv E b" by (rule book_reach_inv [OF E reach])
  have sd: "ld_side ?l = s" and ok: "side_ok E (ob_book_type b) ?l" using book_invD [OF inv] by simp_all
  have none: "ld_cache ?l (bo_order_id ?x) = None"
    using new cached_in_queue [OF side_okD(1) [OF ok]] book_orders_iff [OF inv] by (metis option.exhaust option.distinct(1))
  have x: "bo_side ?x = as_order_side (ld_side ?l)" "quantity_is_positive (bo_size ?x)" "id_free ?x ?l"
    using order sd none by (simp_all add: id_free_def)
  obtain l1 where l1: "ladder_place E ?x ?l = Some l1" "ld_book_type l1 = ob_book_type b"
    using ladder_place_becomes [OF E(1) side_okD(1) [OF ok] x] side_okD(2) [OF ok] by (auto simp: becomes_def)
  then have "ladder_add E ?x flags ?l = Some l1"
    using t x(2) side_okD(2) [OF ok] by (simp add: ladder_add_def ladder_end_batch_def)
  moreover have "ladder_queue l1 = queue_insert s ?x (ladder_queue ?l)"
    using ladder_place_queue [OF E(1) side_okD(1) [OF ok] x(1,2) none l1(1)] sd by simp
  ultimately show ?thesis using order(1) by (auto simp: book_add_def on_side_eq)
qed

theorem book_price_time_priority_witness:
  "\<exists>b'. book_add plain_book_env (ex_bo Buy 101 9 9) 0 9 9 ex_book = Some b' \<and>
    map bo_order_id (ladder_queue (ladder_of BuySide b')) = [2, 4, 9, 1]"
  using book_price_time_priority [OF ex_env ex_book_reach, of "ex_bo Buy 101 9 9" BuySide 0 9 9]
  by (auto simp: U64_MAX_def in_i64_def I64_MIN_def I64_MAX_def queue_insert_def price_rank_def)

text \<open>
  Between two resets the sequence number, the last timestamp and the update count of a book never
  go back, the update count saturates instead of wrapping, and the instrument and the type stay, for
  every operation and whatever sequence numbers and timestamps the data carries.
\<close>

lemma book_counters_monotone:
  assumes "book_reach E b" and "op_ok E op b" and "book_exec E op b = Some b'" and "op \<noteq> OpReset"
  shows "ob_sequence b \<le> ob_sequence b' \<and> ob_ts_last b \<le> ob_ts_last b' \<and>
    ob_update_count b \<le> ob_update_count b' \<and> ob_update_count b' \<le> U64_MAX \<and>
    ob_instrument_id b' = ob_instrument_id b \<and> ob_book_type b' = ob_book_type b"
  using book_exec_counters [OF book_reach_count [OF assms(1)] assms(3,4)] by (simp add: counters_grow_def)

text \<open>
  C10: simulating the fills of an order walks the opposite queue in priority: it takes from the orders
  within the limit price, the best and earliest first, and in total the smaller of the order's size and
  the size on offer.
\<close>

theorem book_simulate_fills_takes_queue:
  assumes E: "book_env_ok E" "hash_collision_free E" and reach: "book_reach E b"
    and order: "bo_side order = as_order_side s" "q_prec (bo_size order) \<le> FIXED_PRECISION" "q_raw (bo_size order) < U64_MAX"
    and fits: "queue_total (ladder_queue (ladder_of (opposite s) b)) \<le> U64_MAX"
  defines "marketable \<equiv> takeWhile (\<lambda>x. if s = BuySide then price_of x \<le> p_raw (bo_price order) else p_raw (bo_price order) \<le> price_of x)
    (ladder_queue (ladder_of (opposite s) b))"
  shows "\<exists>fs. book_simulate_fills order b = Some fs \<and>
    map (\<lambda>(p, q). (p_raw p, q_raw q)) fs = take_fills (q_raw (bo_size order)) marketable \<and>
    (\<Sum>(p, q) \<leftarrow> fs. q_raw q) = min (q_raw (bo_size order)) (queue_total marketable)"
proof -
  let ?l = "ladder_of (opposite s) b"
  have sd: "ld_side ?l = opposite s" and inv: "ladder_inv ?l"
    using book_invD [OF book_reach_inv [OF E reach]] side_okD(1) by blast+
  have m: "marketable = takeWhile (\<lambda>x. rank_of (ld_side ?l) x \<le> price_rank (ld_side ?l) (bo_price order)) (ladder_queue ?l)"
    unfolding marketable_def sd by (cases s) (simp_all add: price_rank_def price_of_def)
  obtain fs where fs: "ladder_simulate_fills order ?l = Some fs" "raw_fills fs = take_fills (q_raw (bo_size order)) marketable"
    using ladder_simulate_fills_queue [OF inv order(2,3) fits] unfolding m by blast
  have "(\<Sum>(p, q) \<leftarrow> fs. q_raw q) = (\<Sum>(p, n) \<leftarrow> raw_fills fs. n)"
    by (simp add: comp_def split_def)
  moreover have "book_simulate_fills order b = Some fs"
    using fs(1) order(1) by (cases s) (simp_all add: book_simulate_fills_def ladder_of_def)
  ultimately show ?thesis using fs(2) take_fills_total [of "q_raw (bo_size order)" marketable]
    by simp
qed

theorem book_simulate_fills_takes_queue_witness:
  "\<exists>fs. book_simulate_fills (ex_bo Sell 101 45 9) ex_book = Some fs \<and>
    map (\<lambda>(p, q). (p_raw p, q_raw q)) fs = [(101, 20), (101, 25)]"
  using book_simulate_fills_takes_queue [OF ex_env ex_book_reach, of "ex_bo Sell 101 45 9" SellSide]
  by (auto simp: U64_MAX_def FIXED_PRECISION_def queue_total_def)

text \<open>
  C11: clearing stale levels of an L2 or L3 book leaves a book that is not crossed, takes away only orders
  that stood at or beyond the opposite best price on a side it was asked to clear, and does not touch a
  book that was not crossed.
\<close>

theorem book_clear_stale_uncrosses:
  assumes E: "book_env_ok E" "hash_collision_free E" and reach: "book_reach E b" and t: "ob_book_type b \<noteq> L1_MBP"
  shows "\<exists>r b'. clear_stale_levels side b = Some (r, b') \<and> \<not> crossed b' \<and> (\<not> crossed b \<longrightarrow> b' = b) \<and>
    (\<forall>s. set (ladder_queue (ladder_of s b')) \<subseteq> set (ladder_queue (ladder_of s b)) \<and>
      (\<forall>x \<in> set (ladder_queue (ladder_of s b)). x \<notin> set (ladder_queue (ladder_of s b')) \<longrightarrow>
        clears side s \<and> (\<exists>y \<in> set (ladder_queue (ladder_of (opposite s) b)).
          if s = BuySide then price_of y \<le> price_of x else price_of x \<le> price_of y)))"
proof -
  have inv: "book_inv E b" by (rule book_reach_inv [OF E reach])
  obtain r b' where b': "clear_stale_levels side b = Some (r, b')" "\<not> crossed b \<longrightarrow> b' = b" and sets: "crossed b \<Longrightarrow>
      set (ladder_queue (ob_bids b')) = {x \<in> set (ladder_queue (ob_bids b)). clears side BuySide \<longrightarrow>
        (\<forall>y \<in> set (ladder_queue (ob_asks b)). price_of x < price_of y)} \<and>
      set (ladder_queue (ob_asks b')) = {y \<in> set (ladder_queue (ob_asks b)). clears side SellSide \<longrightarrow>
        (\<forall>x \<in> set (ladder_queue (ob_bids b)). price_of x < price_of y)}"
    using clear_stale_levels_spec [OF inv t, of side] by blast
  have some: "clears side BuySide \<or> clears side SellSide"
    by (auto simp: clears_def split: option.splits order_side.splits)
  have "\<not> crossed b'"
  proof (cases "crossed b")
    case True
    show ?thesis unfolding crossed_def using sets [OF True] some by force
  qed (use b'(2) in simp)
  moreover have "\<forall>s. set (ladder_queue (ladder_of s b')) \<subseteq> set (ladder_queue (ladder_of s b)) \<and>
      (\<forall>x \<in> set (ladder_queue (ladder_of s b)). x \<notin> set (ladder_queue (ladder_of s b')) \<longrightarrow>
        clears side s \<and> (\<exists>y \<in> set (ladder_queue (ladder_of (opposite s) b)).
          if s = BuySide then price_of y \<le> price_of x else price_of x \<le> price_of y))"
  proof (cases "crossed b")
    case True
    show ?thesis using sets [OF True]
      by (intro allI) (auto simp: ladder_of_def not_less split: order_side_specified.split)
  qed (use b'(2) in simp)
  ultimately show ?thesis using b' by blast
qed

theorem book_clear_stale_uncrosses_witness:
  "crossed ex_book \<and> (\<exists>r b'. clear_stale_levels None ex_book = Some (r, b') \<and> \<not> crossed b')"
  using book_clear_stale_uncrosses [OF ex_env ex_book_reach, of None] ex_book_run
  by (auto simp: crossed_def)

text \<open>
  C26: the outcome of a delta. It is refused when it is for another instrument, or when it has no side and
  is not a clear and either has no id or adds an id that rests on neither side; a refused delta leaves
  the book as it is, and so does an update or delete without a side of an unknown id, which is not an
  error. Every other delta is applied.
\<close>

theorem book_apply_delta_errors:
  assumes E: "book_env_ok E" "hash_collision_free E" and reach: "book_reach E b" and ok: "delta_ok E delta b"
  defines "known \<equiv> \<exists>s. book_orders s b (bo_order_id (obd_order delta)) \<noteq> None"
    and "sideless \<equiv> bo_side (obd_order delta) = NoOrderSide \<and> obd_action delta \<noteq> Clear"
  shows "\<exists>e b'. apply_delta E delta b = Some (e, b') \<and>
    e = (if obd_instrument_id delta \<noteq> ob_instrument_id b
         then Some (InstrumentMismatch (ob_instrument_id b) (obd_instrument_id delta))
         else if sideless \<and> (bo_order_id (obd_order delta) = 0 \<or> obd_action delta = Add \<and> \<not> known)
         then Some NoOrderSideInBook else None) \<and>
    (e \<noteq> None \<or> sideless \<and> \<not> known \<longrightarrow> b' = b)"
proof (cases "obd_instrument_id delta = ob_instrument_id b")
  case False
  then show ?thesis by (simp add: apply_delta_def)
next
  case True
  have inv: "book_inv E b" by (rule book_reach_inv [OF E reach])
  obtain e b' where r: "apply_delta_unchecked E delta b = Some (e, b')" "e \<noteq> None \<longrightarrow> b' = b"
    using apply_delta_unchecked_ok [OF E inv ok] by blast
  note res = apply_delta_unchecked_result [OF inv r(1), folded known_def]
  have "sideless \<and> \<not> known \<longrightarrow> b' = b"
    using res r(2) unfolding sideless_def by (cases "bo_order_id (obd_order delta) = 0") auto
  then show ?thesis using True r res(1) by (auto simp: apply_delta_def sideless_def)
qed

theorem book_apply_delta_errors_witness:
  "apply_delta plain_book_env (ex_delta \<lparr> obd_instrument_id := ''Y'' \<rparr>) ex_book = Some (Some (InstrumentMismatch ''X'' ''Y''), ex_book) \<and>
   apply_delta plain_book_env (ex_delta \<lparr> obd_order := ex_bo NoOrderSide 101 5 0 \<rparr>) ex_book = Some (Some NoOrderSideInBook, ex_book) \<and>
   apply_delta plain_book_env ex_delta ex_book = Some (None, ex_book)"
  using book_apply_delta_errors [OF ex_env ex_book_reach, of "ex_delta \<lparr> obd_instrument_id := ''Y'' \<rparr>"]
    book_apply_delta_errors [OF ex_env ex_book_reach, of "ex_delta \<lparr> obd_order := ex_bo NoOrderSide 101 5 0 \<rparr>"]
    book_apply_delta_errors [OF ex_env ex_book_reach, of ex_delta]
  by (simp add: ex_delta_def delta_ok_def U64_MAX_def in_i64_def I64_MIN_def I64_MAX_def)

text \<open>
  C9: the snapshot of a reachable book, replayed on any reachable book of the same type and
  instrument, gives the same two queues: the same orders with the same ids, sizes and priority.
\<close>

theorem book_snapshot_roundtrip:
  assumes E: "book_env_ok E" "hash_collision_free E" and D: "data_env_ok D"
    and reach: "book_reach E b" "book_reach E b0" and same: "ob_book_type b0 = ob_book_type b" "ob_instrument_id b0 = ob_instrument_id b"
    and px: "\<forall>x \<in> set (ladder_queue (ob_bids b) @ ladder_queue (ob_asks b)). in_i64 (p_raw (bo_price x))"
  shows "\<exists>ds b'. to_deltas D ts_event ts_init b = Some ds \<and> apply_deltas E ds b0 = Some (None, b') \<and>
    ladder_queue (ob_bids b') = ladder_queue (ob_bids b) \<and> ladder_queue (ob_asks b') = ladder_queue (ob_asks b)"
  by (rule to_deltas_replay [OF E D book_reach_inv [OF E reach(1)] book_reach_inv [OF E reach(2)] same px])

theorem book_snapshot_roundtrip_witness:
  "\<exists>ds b'. to_deltas plain_data_env 1 2 ex_book = Some ds \<and>
    apply_deltas plain_book_env ds (book_new ''X'' L3_MBO) = Some (None, b') \<and>
    map bo_order_id (ladder_queue (ob_bids b')) = [2, 4, 1]"
  using book_snapshot_roundtrip [OF ex_env plain_data_env_ok ex_book_reach reach_new [of _ "''X''" L3_MBO], of 1 2] ex_book_run
  by (auto simp: book_new_def in_i64_def I64_MIN_def I64_MAX_def)

text \<open>
  A quote applied to an L1 book replaces both sides: the top of the book is the quote, a side with
  size zero is empty, and a quote older than the book is ignored.
\<close>

lemma book_quote_replaces_top:
  assumes E: "book_env_ok E" "hash_collision_free E" and reach: "book_reach E b" and t: "ob_book_type b = L1_MBP"
  shows "\<exists>b'. update_quote_tick E quote b = Some (None, b') \<and>
    (if qt_ts_event quote < ob_ts_last b then b' = b
     else ob_ts_last b' = qt_ts_event quote \<and>
       map (\<lambda>x. (bo_price x, bo_size x)) (ladder_queue (ob_bids b')) =
         (if quantity_is_positive (qt_bid_size quote) then [(qt_bid_price quote, qt_bid_size quote)] else []) \<and>
       map (\<lambda>x. (bo_price x, bo_size x)) (ladder_queue (ob_asks b')) =
         (if quantity_is_positive (qt_ask_size quote) then [(qt_ask_price quote, qt_ask_size quote)] else []))"
proof (cases "qt_ts_event quote < ob_ts_last b")
  case True
  then show ?thesis using t by (simp add: update_quote_tick_def)
next
  case False
  let ?bid = "book_order_new Buy (qt_bid_price quote) (qt_bid_size quote) (order_side_as_u64 Buy)"
  let ?ask = "book_order_new Sell (qt_ask_price quote) (qt_ask_size quote) (order_side_as_u64 Sell)"
  obtain b' where "update_top E ?bid ?ask (qt_ts_event quote) b = Some b'"
    "ladder_queue (ob_bids b') = (if quantity_is_positive (bo_size ?bid) then [?bid] else [])"
    "ladder_queue (ob_asks b') = (if quantity_is_positive (bo_size ?ask) then [?ask] else [])"
    "ob_ts_last b' = max (qt_ts_event quote) (ob_ts_last b)"
    using update_top_ok [OF E(1) book_reach_inv [OF E reach] t, of ?bid ?ask] by (auto simp: book_order_new_def)
  then show ?thesis using t False by (auto simp: update_quote_tick_def book_order_new_def)
qed

text \<open>
  C28: a snapshot batch on an L1 book. After a clear, whatever the order in which the prices of a side
  arrive, the book keeps one order of them, at the best price of the batch.
\<close>

theorem book_l1_batch_keeps_best:
  assumes E: "book_env_ok E" "hash_collision_free E" and reach: "book_reach E b" and t: "ob_book_type b = L1_MBP"
    and xs: "xs \<noteq> []" "\<forall>x \<in> set xs. bo_side x = as_order_side s \<and> quantity_is_positive (bo_size x)"
  shows "\<exists>b' z. book_run E (OpClear n ts # map (\<lambda>x. OpAdd x (flag_value F_SNAPSHOT) n ts) xs) b = Some b' \<and>
    ladder_queue (ladder_of s b') = [z] \<and> (\<forall>x \<in> set xs. rank_of s z \<le> rank_of s x) \<and>
    (\<exists>x \<in> set xs. bo_price z = bo_price x \<and> bo_size z = bo_size x)"
proof -
  let ?b0 = "book_clear n ts b"
  have inv: "book_inv E ?b0" "ob_book_type ?b0 = L1_MBP"
    using book_inv_clear [OF book_reach_inv [OF E reach]] t by (simp_all add: book_clear_def)
  have e: "ladder_queue (ladder_of s ?b0) = []"
    by (simp add: book_clear_def ladder_of_def split: order_side_specified.split)
  obtain x xs' where x: "xs = x # xs'" using xs(1) by (cases xs) auto
  define x' where "x' = x \<lparr> bo_order_id := order_side_as_u64 (bo_side x) \<rparr>"
  obtain b1 where b1: "book_add E x (flag_value F_SNAPSHOT) n ts ?b0 = Some b1" "book_inv E b1" "ob_book_type b1 = L1_MBP"
    "ld_batch_state (ladder_of s b1) = SnapshotBatch" "ladder_queue (ladder_of s b1) = [x']"
    using l1_batch_step [OF E(1) inv, of x s n ts] xs(2) e unfolding x x'_def by auto
  obtain b' z where "book_run E (map (\<lambda>x. OpAdd x (flag_value F_SNAPSHOT) n ts) xs') b1 = Some b'"
    "ladder_queue (ladder_of s b') = [z]" "\<forall>x \<in> set (x' # xs'). rank_of s z \<le> rank_of s x"
    "\<exists>x \<in> set (x' # xs'). bo_price z = bo_price x \<and> bo_size z = bo_size x"
    using l1_batch_run [OF E(1) b1(2,3) _ b1(4,5), of xs' n ts] xs(2) unfolding x by auto
  then show ?thesis using b1(1) unfolding x by (auto simp: x'_def)
qed

theorem book_l1_batch_keeps_best_witness:
  "\<exists>b' z. book_run plain_book_env (OpClear 1 1 # map (\<lambda>x. OpAdd x (flag_value F_SNAPSHOT) 1 1)
      [ex_bo Buy 99 5 0, ex_bo Buy 101 6 0, ex_bo Buy 100 7 0]) (book_new ''X'' L1_MBP) = Some b' \<and>
    ladder_queue (ladder_of BuySide b') = [z] \<and> p_raw (bo_price z) = 101"
  using book_l1_batch_keeps_best [OF ex_env reach_new [of _ "''X''" L1_MBP], of "[ex_bo Buy 99 5 0, ex_bo Buy 101 6 0, ex_bo Buy 100 7 0]" BuySide 1 1]
  by (fastforce simp: book_new_def U64_MAX_def price_rank_def simp del: book_run.simps)


end
