(* ===== verification/Book_Analysis.thy ===== *)
theory Book_Analysis
  imports Book_Claims
begin

text \<open>
  The estimates of \<open>model/src/orderbook/analysis.rs\<close> and the queries of \<open>OrderBook\<close> built on them, and
  the integrity check of a book.  \<open>get_levels_for_price\<close> is left out: it builds quantities from floating
  point sizes.
\<close>

definition beyond_price :: "price \<Rightarrow> order_side_specified \<Rightarrow> book_price \<Rightarrow> bool" where
  "beyond_price price order_side book_price \<longleftrightarrow>
     (case order_side of
        BuySide \<Rightarrow> p_raw (bp_value book_price) > p_raw price
      | SellSide \<Rightarrow> p_raw (bp_value book_price) < p_raw price)"

fun quantity_for_price_loop ::
    "'f f64_ops \<Rightarrow> price \<Rightarrow> order_side_specified \<Rightarrow> (book_price \<times> book_level) list \<Rightarrow> 'f \<Rightarrow> 'f" where
  "quantity_for_price_loop F price order_side [] matched_size = matched_size"
| "quantity_for_price_loop F price order_side ((book_price, level) # levels) matched_size =
     (if beyond_price price order_side book_price then matched_size
      else quantity_for_price_loop F price order_side levels (f64_add F matched_size (level_size F level)))"

definition analysis_quantity_for_price ::
    "'f f64_ops \<Rightarrow> price \<Rightarrow> order_side_specified \<Rightarrow> (book_price \<times> book_level) list \<Rightarrow> 'f" where
  "analysis_quantity_for_price F price order_side levels =
     quantity_for_price_loop F price order_side levels (f64_of_int F 0)"

fun avg_px_loop ::
    "'f f64_ops \<Rightarrow> quantity \<Rightarrow> (book_price \<times> book_level) list \<Rightarrow> nat \<Rightarrow> 'f \<Rightarrow> nat \<times> 'f" where
  "avg_px_loop F qty [] cumulative_size_raw cumulative_value = (cumulative_size_raw, cumulative_value)"
| "avg_px_loop F qty ((book_price, level) # levels) cumulative_size_raw cumulative_value =
     (let size_this_level = min (level_size_raw level) (u64_wrapping_sub (q_raw qty) cumulative_size_raw);
          cumulative_size_raw = u64_wrapping_add cumulative_size_raw size_this_level;
          cumulative_value = f64_add F cumulative_value
            (f64_mul F (price_as_f64 F (bp_value book_price)) (f64_of_int F (int size_this_level)))
      in if cumulative_size_raw \<ge> q_raw qty then (cumulative_size_raw, cumulative_value)
         else avg_px_loop F qty levels cumulative_size_raw cumulative_value)"

definition analysis_avg_px_for_quantity :: "'f f64_ops \<Rightarrow> quantity \<Rightarrow> (book_price \<times> book_level) list \<Rightarrow> 'f" where
  "analysis_avg_px_for_quantity F qty levels =
     (let (cumulative_size_raw, cumulative_value) = avg_px_loop F qty levels 0 (f64_of_int F 0)
      in if cumulative_size_raw = 0 then f64_of_int F 0
         else f64_div F cumulative_value (f64_of_int F (int cumulative_size_raw)))"

fun worst_px_loop ::
    "quantity \<Rightarrow> (book_price \<times> book_level) list \<Rightarrow> nat \<Rightarrow> price option \<Rightarrow> nat \<times> price option" where
  "worst_px_loop qty [] cumulative_size_raw worst_price = (cumulative_size_raw, worst_price)"
| "worst_px_loop qty ((book_price, level) # levels) cumulative_size_raw worst_price =
     (let size_this_level = min (level_size_raw level) (u64_wrapping_sub (q_raw qty) cumulative_size_raw)
      in if size_this_level = 0 then worst_px_loop qty levels cumulative_size_raw worst_price
         else
           let cumulative_size_raw = u64_wrapping_add cumulative_size_raw size_this_level;
               worst_price = Some (bp_value book_price)
           in if cumulative_size_raw \<ge> q_raw qty then (cumulative_size_raw, worst_price)
              else worst_px_loop qty levels cumulative_size_raw worst_price)"

definition analysis_worst_px_for_quantity :: "quantity \<Rightarrow> (book_price \<times> book_level) list \<Rightarrow> price option" where
  "analysis_worst_px_for_quantity qty levels =
     (let (cumulative_size_raw, worst_price) = worst_px_loop qty levels 0 None
      in if cumulative_size_raw = 0 then None else worst_price)"

definition f64_ge :: "'f f64_ops \<Rightarrow> 'f \<Rightarrow> 'f \<Rightarrow> bool" where
  "f64_ge F a b \<longleftrightarrow> f64_lt F b a \<or> f64_eq F a b"

fun exposure_loop ::
    "'f f64_ops \<Rightarrow> 'f \<Rightarrow> (book_price \<times> book_level) list \<Rightarrow> 'f \<Rightarrow> nat \<Rightarrow> 'f \<Rightarrow> 'f \<times> nat \<times> 'f" where
  "exposure_loop F target [] cumulative_exposure cumulative_size_raw final_price =
     (cumulative_exposure, cumulative_size_raw, final_price)"
| "exposure_loop F target ((book_price, level) # levels) cumulative_exposure cumulative_size_raw final_price =
     (let price = price_as_f64 F (bp_value book_price)
      in if f64_eq F price (f64_of_int F 0)
         then exposure_loop F target levels cumulative_exposure cumulative_size_raw final_price
         else
           let exposure = f64_mul F price (f64_of_int F (int (level_size_raw level)));
               exposure_this_level = f64_min F exposure (f64_sub F target cumulative_exposure);
               size_this_level = f64_as_u64 F (f64_floor F (f64_div F exposure_this_level price))
           in if size_this_level = 0
              then exposure_loop F target levels cumulative_exposure cumulative_size_raw final_price
              else
                let cumulative_exposure =
                      f64_add F cumulative_exposure (f64_mul F price (f64_of_int F (int size_this_level)));
                    cumulative_size_raw = u64_wrapping_add cumulative_size_raw size_this_level
                in if f64_ge F cumulative_exposure target
                   then (cumulative_exposure, cumulative_size_raw, price)
                   else exposure_loop F target levels cumulative_exposure cumulative_size_raw price)"

definition analysis_avg_px_qty_for_exposure ::
    "'f f64_ops \<Rightarrow> quantity \<Rightarrow> (book_price \<times> book_level) list \<Rightarrow> 'f \<times> 'f \<times> 'f" where
  "analysis_avg_px_qty_for_exposure F target_exposure levels =
     (let final_price = (case levels of [] \<Rightarrow> f64_of_int F 0 | (price, _) # _ \<Rightarrow> price_as_f64 F (bp_value price));
          (cumulative_exposure, cumulative_size_raw, final_price) =
            exposure_loop F (f64_of_int F (int (q_raw target_exposure))) levels (f64_of_int F 0) 0 final_price
      in if cumulative_size_raw = 0 then (f64_of_int F 0, f64_of_int F 0, final_price)
         else (f64_div F cumulative_exposure (f64_of_int F (int cumulative_size_raw)),
               f64_div F (f64_of_int F (int cumulative_size_raw)) (f64_of_int F (int FIXED_SCALAR)),
               final_price))"

definition opposite_levels :: "order_side_specified \<Rightarrow> order_book \<Rightarrow> (book_price \<times> book_level) list" where
  "opposite_levels side b = (case side of BuySide \<Rightarrow> ld_levels (ob_asks b) | SellSide \<Rightarrow> ld_levels (ob_bids b))"

definition book_avg_px_for_quantity :: "'f f64_ops \<Rightarrow> quantity \<Rightarrow> order_side \<Rightarrow> order_book \<Rightarrow> 'f option" where
  "book_avg_px_for_quantity F qty order_side b =
     map_option (\<lambda>s. analysis_avg_px_for_quantity F qty (opposite_levels s b)) (as_specified order_side)"

definition book_worst_px_for_quantity :: "quantity \<Rightarrow> order_side \<Rightarrow> order_book \<Rightarrow> price option option" where
  "book_worst_px_for_quantity qty order_side b =
     map_option (\<lambda>s. analysis_worst_px_for_quantity qty (opposite_levels s b)) (as_specified order_side)"

definition book_avg_px_qty_for_exposure ::
    "'f f64_ops \<Rightarrow> quantity \<Rightarrow> order_side \<Rightarrow> order_book \<Rightarrow> ('f \<times> 'f \<times> 'f) option" where
  "book_avg_px_qty_for_exposure F target_exposure order_side b =
     map_option (\<lambda>s. analysis_avg_px_qty_for_exposure F target_exposure (opposite_levels s b)) (as_specified order_side)"

definition book_quantity_for_price :: "'f f64_ops \<Rightarrow> price \<Rightarrow> order_side \<Rightarrow> order_book \<Rightarrow> 'f option" where
  "book_quantity_for_price F price order_side b =
     map_option (\<lambda>s. analysis_quantity_for_price F price s (opposite_levels s b)) (as_specified order_side)"

definition level_too_many :: "order_side \<Rightarrow> book_ladder \<Rightarrow> book_integrity_error option" where
  "level_too_many side l =
     map_option (\<lambda>level. TooManyOrders side (length (bl_orders level)))
       (find (\<lambda>level. length (bl_orders level) > 1) (bt_values (ld_levels l)))"

definition book_check_integrity :: "order_book \<Rightarrow> book_integrity_error + unit" where
  "book_check_integrity b =
     (case (case ob_book_type b of
         L1_MBP \<Rightarrow>
           if ladder_len (ob_bids b) > 1 then Some (TooManyLevels Buy (ladder_len (ob_bids b)))
           else if ladder_len (ob_asks b) > 1 then Some (TooManyLevels Sell (ladder_len (ob_asks b)))
           else None
       | L2_MBP \<Rightarrow>
           (case level_too_many Buy (ob_bids b) of Some e \<Rightarrow> Some e | None \<Rightarrow> level_too_many Sell (ob_asks b))
       | L3_MBO \<Rightarrow> None) of
        Some e \<Rightarrow> Inl e
      | None \<Rightarrow>
          (case (ladder_top (ob_bids b), ladder_top (ob_asks b)) of
             (Some top_bid_level, Some top_ask_level) \<Rightarrow>
               if p_raw (bp_value (bl_price top_bid_level)) > p_raw (bp_value (bl_price top_ask_level))
               then Inl (OrdersCrossed (bl_price top_bid_level) (bl_price top_ask_level)) else Inr ()
           | _ \<Rightarrow> Inr ()))"

text \<open>Levels as they stand in a sound ladder whose total fits its type.\<close>

definition sound_levels :: "(book_price \<times> book_level) list \<Rightarrow> bool" where
  "sound_levels levels \<longleftrightarrow> queue_total (level_queue (map snd levels)) \<le> U64_MAX \<and>
     (\<forall>(k, lv) \<in> set levels. bl_orders lv \<noteq> [] \<and> (\<forall>x \<in> set (im_values (bl_orders lv)).
        price_of x = p_raw (bp_value k) \<and> 0 < q_raw (bo_size x)))"

section \<open>Estimates over levels\<close>

section \<open>Estimates over a book\<close>

section \<open>Integrity\<close>

lemma level_size_raw_total:
  assumes "queue_total (im_values (bl_orders level)) \<le> U64_MAX"
  shows "level_size_raw level = queue_total (im_values (bl_orders level))"
proof -
  have "a + queue_total os \<le> U64_MAX \<Longrightarrow> fold (\<lambda>o' acc. u64_wrapping_add acc (q_raw (bo_size o'))) os a = a + queue_total os" for a os
    by (induction os arbitrary: a) (simp_all add: queue_total_def u64_wrapping_add_exact add.assoc)
  from this [of 0] assms show ?thesis by (simp add: level_size_raw_def)
qed

text \<open>All fills of one level are at one price.\<close>

lemma take_fills_level:
  assumes "\<forall>x \<in> set os. price_of x = p"
  shows "(\<Sum>(q, n) \<leftarrow> take_fills want os. f q n) = (\<Sum>(q, n) \<leftarrow> take_fills want os. f p n)"
  using assms by (induction want os rule: take_fills.induct) (auto simp: price_of_def)

lemma take_fills_prices:
  "\<forall>x \<in> set os. price_of x = p \<Longrightarrow> (q, n) \<in> set (take_fills want os) \<Longrightarrow> q = p"
  by (induction want os rule: take_fills.induct) (auto simp: price_of_def split: if_splits)

lemma take_fills_value:
  assumes "\<forall>x \<in> set os. price_of x = p"
  shows "(\<Sum>(q, n) \<leftarrow> take_fills want os. q * int n) = p * int (min want (queue_total os))"
proof -
  have "(\<Sum>(q, n) \<leftarrow> fs. p * int n) = p * int (\<Sum>(q, n) \<leftarrow> fs. n)" for fs :: "(int \<times> nat) list"
    by (induction fs) (auto simp: algebra_simps)
  then show ?thesis using take_fills_level [OF assms, of "\<lambda>q n. q * int n" want] by (simp add: take_fills_total)
qed

lemma sound_levels_Cons:
  assumes "sound_levels ((k, lv) # levels)"
  shows "sound_levels levels" and "level_size_raw lv = queue_total (im_values (bl_orders lv))"
    and "0 < queue_total (im_values (bl_orders lv))" and "im_values (bl_orders lv) \<noteq> []"
    and "\<forall>x \<in> set (im_values (bl_orders lv)). price_of x = p_raw (bp_value k)"
proof -
  have t: "queue_total (im_values (bl_orders lv)) + queue_total (level_queue (map snd levels)) \<le> U64_MAX"
    using assms by (simp add: sound_levels_def)
  show "sound_levels levels" using assms t by (auto simp: sound_levels_def)
  show "level_size_raw lv = queue_total (im_values (bl_orders lv))" by (rule level_size_raw_total) (use t in simp)
  show ne: "im_values (bl_orders lv) \<noteq> []" using assms by (simp add: sound_levels_def)
  then obtain x os where x: "im_values (bl_orders lv) = x # os" by (cases "im_values (bl_orders lv)") auto
  then have "0 < q_raw (bo_size x)" using assms unfolding sound_levels_def by fastforce
  then show "0 < queue_total (im_values (bl_orders lv))" unfolding x by (simp add: queue_total_def)
  show "\<forall>x \<in> set (im_values (bl_orders lv)). price_of x = p_raw (bp_value k)"
    using assms unfolding sound_levels_def by fastforce
qed

lemma avg_px_loop_queue:
  assumes "sound_levels levels" and "cum \<le> q_raw qty" and "q_raw qty \<le> U64_MAX"
  defines "fills c ls \<equiv> take_fills (q_raw qty - c) (level_queue (map snd ls))"
  shows "avg_px_loop exact_f64 qty levels cum val = (cum + (\<Sum>(p, n) \<leftarrow> fills cum levels. n),
    val + of_int (\<Sum>(p, n) \<leftarrow> fills cum levels. p * int n) / of_int (int FIXED_SCALAR))"
  using assms(1,2)
proof (induction levels arbitrary: cum val)
  case Nil
  then show ?case by (simp add: fills_def)
next
  case (Cons e levels)
  obtain k lv where e: "e = (k, lv)" by (cases e)
  note s = sound_levels_Cons [OF Cons.prems(1) [unfolded e]]
  define os where "os = im_values (bl_orders lv)"
  define want where "want = q_raw qty - cum"
  define sz where "sz = min (queue_total os) want"
  have sub: "u64_wrapping_sub (q_raw qty) cum = want"
    unfolding want_def by (rule u64_wrapping_sub_exact) (use Cons.prems(2) assms(3) in auto)
  have add: "u64_wrapping_add cum sz = cum + sz"
    by (rule u64_wrapping_add_exact) (use Cons.prems(2) assms(3) in \<open>auto simp: sz_def want_def\<close>)
  have worth: "(\<Sum>(p, n) \<leftarrow> take_fills want os. p * int n) = p_raw (bp_value k) * int sz"
    using take_fills_value [OF s(5)] by (simp add: os_def sz_def min.commute)
  have size: "(\<Sum>(p, n) \<leftarrow> take_fills want os. n) = sz" by (simp add: take_fills_total sz_def min.commute)
  have unfold: "avg_px_loop exact_f64 qty (e # levels) cum val =
      (if q_raw qty \<le> cum + sz then (cum + sz, val + of_int (p_raw (bp_value k)) / of_int (int FIXED_SCALAR) * of_int (int sz))
       else avg_px_loop exact_f64 qty levels (cum + sz) (val + of_int (p_raw (bp_value k)) / of_int (int FIXED_SCALAR) * of_int (int sz)))"
    by (simp add: e s(2) sub add sz_def [symmetric] os_def [symmetric] price_as_f64_def Let_def)
  show ?case
  proof (cases "want \<le> queue_total os")
    case True
    then have "fills cum (e # levels) = take_fills want os"
      using s(4) by (simp add: fills_def e os_def want_def take_fills_append)
    moreover have "q_raw qty \<le> cum + sz" using True Cons.prems(2) by (simp add: sz_def want_def)
    ultimately show ?thesis unfolding unfold using worth size by (simp add: field_simps)
  next
    case False
    then have sz: "sz = queue_total os" and lt: "\<not> q_raw qty \<le> cum + sz" by (simp_all add: sz_def want_def)
    have "fills cum (e # levels) = take_fills want os @ fills (cum + sz) levels"
      using False by (simp add: fills_def e os_def [symmetric] want_def sz take_fills_append)
    then show ?thesis
      unfolding unfold using lt Cons.IH [OF s(1), of "cum + sz"] worth size by (simp add: field_simps add_divide_distrib)
  qed
qed

lemma worst_px_loop_queue:
  assumes "sound_levels levels" and "cum \<le> q_raw qty" and "q_raw qty \<le> U64_MAX"
  defines "fills c ls \<equiv> take_fills (q_raw qty - c) (level_queue (map snd ls))"
  shows "\<exists>w. worst_px_loop qty levels cum worst = (cum + (\<Sum>(p, n) \<leftarrow> fills cum levels. n), w) \<and>
    map_option p_raw w = (if fills cum levels = [] then map_option p_raw worst else Some (fst (last (fills cum levels))))"
  using assms(1,2)
proof (induction levels arbitrary: cum worst)
  case Nil
  then show ?case by (simp add: fills_def)
next
  case (Cons e levels)
  obtain k lv where e: "e = (k, lv)" by (cases e)
  note s = sound_levels_Cons [OF Cons.prems(1) [unfolded e]]
  define os where "os = im_values (bl_orders lv)"
  define want where "want = q_raw qty - cum"
  define sz where "sz = min (queue_total os) want"
  have sub: "u64_wrapping_sub (q_raw qty) cum = want"
    unfolding want_def by (rule u64_wrapping_sub_exact) (use Cons.prems(2) assms(3) in auto)
  have add: "u64_wrapping_add cum sz = cum + sz"
    by (rule u64_wrapping_add_exact) (use Cons.prems(2) assms(3) in \<open>auto simp: sz_def want_def\<close>)
  have size: "(\<Sum>(p, n) \<leftarrow> take_fills want os. n) = sz" by (simp add: take_fills_total sz_def min.commute)
  have unfold: "worst_px_loop qty (e # levels) cum worst =
      (if sz = 0 then worst_px_loop qty levels cum worst
       else if q_raw qty \<le> cum + sz then (cum + sz, Some (bp_value k))
       else worst_px_loop qty levels (cum + sz) (Some (bp_value k)))"
    by (simp add: e s(2) sub add sz_def [symmetric] os_def [symmetric] Let_def)
  show ?case
  proof (cases "want = 0")
    case True
    then show ?thesis unfolding unfold using Cons.IH [OF s(1) Cons.prems(2)] by (simp add: sz_def fills_def want_def)
  next
    case False
    then have pos: "0 < sz" using s(3) by (simp add: sz_def os_def)
    then have "take_fills want os \<noteq> []" using size by auto
    then have last: "fst (last (take_fills want os)) = p_raw (bp_value k)"
      using take_fills_prices [OF s(5) [folded os_def], where want = want] last_in_set by (metis prod.collapse)
    show ?thesis
    proof (cases "want \<le> queue_total os")
      case True
      then have "fills cum (e # levels) = take_fills want os"
        using s(4) by (simp add: fills_def e os_def want_def take_fills_append)
      moreover have "q_raw qty \<le> cum + sz" using True Cons.prems(2) by (simp add: sz_def want_def)
      ultimately show ?thesis unfolding unfold using pos size last \<open>take_fills want os \<noteq> []\<close> by simp
    next
      case more: False
      then have sz: "sz = queue_total os" and lt: "\<not> q_raw qty \<le> cum + sz" by (simp_all add: sz_def want_def)
      have f: "fills cum (e # levels) = take_fills want os @ fills (cum + sz) levels"
        using more by (simp add: fills_def e os_def [symmetric] want_def sz take_fills_append)
      obtain w where "worst_px_loop qty levels (cum + sz) (Some (bp_value k)) = (cum + sz + (\<Sum>(p, n) \<leftarrow> fills (cum + sz) levels. n), w)"
        "map_option p_raw w = (if fills (cum + sz) levels = [] then Some (p_raw (bp_value k)) else Some (fst (last (fills (cum + sz) levels))))"
        using Cons.IH [OF s(1), of "cum + sz" "Some (bp_value k)"] lt by auto
      then show ?thesis unfolding unfold f
        using lt pos size last \<open>take_fills want os \<noteq> []\<close> by (intro exI [of _ w]) (simp add: last_append)
    qed
  qed
qed

lemma book_sound_levels:
  assumes inv: "book_inv E b" and fits: "queue_total (ladder_queue (ladder_of (opposite s) b)) \<le> U64_MAX"
  shows "sound_levels (opposite_levels s b)" and "level_queue (map snd (opposite_levels s b)) = ladder_queue (ladder_of (opposite s) b)"
proof -
  let ?l = "ladder_of (opposite s) b"
  have lv: "opposite_levels s b = ld_levels ?l" by (cases s) (simp_all add: opposite_levels_def ladder_of_def)
  have linv: "ladder_inv ?l" using book_invD [OF inv] side_okD(1) by blast
  show q: "level_queue (map snd (opposite_levels s b)) = ladder_queue ?l" by (simp add: lv ladder_queue_levels)
  have "bl_orders level \<noteq> [] \<and> price_of x = p_raw (bp_value k) \<and> 0 < q_raw (bo_size x)"
    if m: "(k, level) \<in> set (ld_levels ?l)" and x: "(i, x) \<in> set (bl_orders level)" for k level i x
  proof -
    note at = ladder_level_in [OF linv m]
    have "bp_side k = ld_side ?l" using ladder_invD(1) [OF linv] m by (auto simp: side.bt_wf_def)
    then have "rank_of (ld_side ?l) x = price_rank (ld_side ?l) (bp_value k)"
      using levels_ok_order(2) [OF ladder_invD(2) [OF linv] at x] by (simp add: bp_rank_def)
    then show ?thesis
      using x levels_ok_order(4) [OF ladder_invD(2) [OF linv] at x]
      by (auto simp: price_rank_eq_iff price_of_def quantity_is_positive_def)
  qed
  moreover have "bl_orders level \<noteq> []" if "(k, level) \<in> set (ld_levels ?l)" for k level
    using levels_ok_level(4) [OF ladder_invD(2) [OF linv] ladder_level_in [OF linv that]] .
  ultimately show "sound_levels (opposite_levels s b)"
    using fits q by (fastforce simp: sound_levels_def lv)
qed

lemma crossed_best:
  assumes inv: "book_inv E b"
  shows "crossed b \<longleftrightarrow> (\<exists>p q. best_bid_price b = Some p \<and> best_ask_price b = Some q \<and> p_raw q < p_raw p)"
proof
  assume c: "crossed b"
  then obtain p q where pq: "best_bid_price b = Some p" "best_ask_price b = Some q"
    using best_prices(1,2) [OF inv] unfolding crossed_def by (metis empty_iff option.exhaust)
  then show "\<exists>p q. best_bid_price b = Some p \<and> best_ask_price b = Some q \<and> p_raw q < p_raw p"
    using c best_prices(3,4) [OF inv] unfolding crossed_def by force
next
  assume "\<exists>p q. best_bid_price b = Some p \<and> best_ask_price b = Some q \<and> p_raw q < p_raw p"
  then show "crossed b" using best_prices(3,4) [OF inv] unfolding crossed_def by force
qed

lemma take_fills_empty:
  assumes "\<forall>x \<in> set q. 0 < q_raw (bo_size x)"
  shows "(\<Sum>(p, n) \<leftarrow> take_fills want q. n) = 0 \<longleftrightarrow> take_fills want q = []"
  using assms by (cases q) (auto simp: take_fills_total queue_total_def)

lemma level_orders_distinct_price:
  assumes E: "hash_collision_free E" and ok: "side_ok E L2_MBP l" and m: "(k, level) \<in> set (ld_levels l)"
  shows "length (bl_orders level) \<le> 1"
proof (rule ccontr)
  assume "\<not> ?thesis"
  then obtain p1 p2 os where "bl_orders level = p1 # p2 # os"
    by (cases "bl_orders level"; cases "tl (bl_orders level)") auto
  moreover obtain i x j y where "p1 = (i, x)" "p2 = (j, y)" by (cases p1; cases p2)
  ultimately have os: "bl_orders level = (i, x) # (j, y) # os" by simp
  note linv = side_okD(1) [OF ok]
  note at = ladder_level_in [OF linv m]
  have "(i, x) \<in> set (bl_orders level)" "(j, y) \<in> set (bl_orders level)" using os by simp_all
  note x = levels_ok_order [OF ladder_invD(2) [OF linv] at this(1)] this(1)
    and y = levels_ok_order [OF ladder_invD(2) [OF linv] at this(2)] this(2)
  have "x \<in> set (ladder_queue l)" "y \<in> set (ladder_queue l)"
    unfolding ladder_queue_resting [OF linv] resting_def using at x(5) y(5) by blast+
  moreover have "price_of x = price_of y" using x(2) y(2) price_of_rank [of "ld_side l" x y] by metis
  ultimately have "x = y" using l2_prices_distinct [OF E ok] by (meson distinct_map inj_onD)
  then have "i = j" using x(1) y(1) by metis
  then show False
    using level_inv_wf [OF levels_ok_level(1) [OF ladder_invD(2) [OF linv] at]] unfolding os by (simp add: im_wf_def)
qed

lemma level_too_many_None:
  assumes "hash_collision_free E" and "side_ok E L2_MBP l"
  shows "level_too_many side l = None"
  using level_orders_distinct_price [OF assms] by (fastforce simp: level_too_many_def find_None_iff not_less)

section \<open>Claims\<close>

text \<open>
  C29: the average price estimate, with exact arithmetic in place of floating point, is the average of the
  fills a walk through the opposite queue would make, weighted by their sizes; the worst price estimate is
  the price of the last of these fills, and there is none exactly when there is no fill.
\<close>

theorem book_px_estimates_fills:
  assumes E: "book_env_ok E" "hash_collision_free E" and reach: "book_reach E b"
    and qty: "q_raw qty \<le> U64_MAX" and fits: "queue_total (ladder_queue (ladder_of (opposite s) b)) \<le> U64_MAX"
  defines "fills \<equiv> take_fills (q_raw qty) (ladder_queue (ladder_of (opposite s) b))"
  shows "book_avg_px_for_quantity exact_f64 qty (as_order_side s) b = Some
      (if fills = [] then 0
       else of_int (\<Sum>(p, n) \<leftarrow> fills. p * int n) / of_int (int FIXED_SCALAR) / of_int (int (\<Sum>(p, n) \<leftarrow> fills. n))) \<and>
    map_option (map_option p_raw) (book_worst_px_for_quantity qty (as_order_side s) b) =
      Some (if fills = [] then None else Some (fst (last fills)))"
proof -
  have inv: "book_inv E b" by (rule book_reach_inv [OF E reach])
  note lv = book_sound_levels [OF inv fits]
  have empty: "(\<Sum>(p, n) \<leftarrow> fills. n) = 0 \<longleftrightarrow> fills = []"
    unfolding fills_def using take_fills_empty queue_orders [OF inv] by blast
  have avg: "avg_px_loop exact_f64 qty (opposite_levels s b) 0 0 =
      (\<Sum>(p, n) \<leftarrow> fills. n, of_int (\<Sum>(p, n) \<leftarrow> fills. p * int n) / of_int (int FIXED_SCALAR))"
    using avg_px_loop_queue [OF lv(1) _ qty, of 0 0] by (simp add: lv(2) fills_def)
  obtain w where w: "worst_px_loop qty (opposite_levels s b) 0 None = (\<Sum>(p, n) \<leftarrow> fills. n, w)"
    "map_option p_raw w = (if fills = [] then None else Some (fst (last fills)))"
    using worst_px_loop_queue [OF lv(1) _ qty, of 0 None] by (auto simp: lv(2) fills_def)
  show ?thesis
    using empty w(2)
    by (simp add: book_avg_px_for_quantity_def analysis_avg_px_for_quantity_def avg
        book_worst_px_for_quantity_def analysis_worst_px_for_quantity_def w(1) del: sum_list_eq_0_iff)
qed

theorem book_px_estimates_fills_witness:
  "book_avg_px_for_quantity exact_f64 \<lparr> q_raw = 30, q_prec = 0 \<rparr> Sell ex_book = Some (101 / of_int (int FIXED_SCALAR))"
  using book_px_estimates_fills [OF ex_env ex_book_reach, of "\<lparr> q_raw = 30, q_prec = 0 \<rparr>" SellSide]
  by (simp add: U64_MAX_def queue_total_def)

text \<open>
  The integrity check on a reachable book can only report a crossed book: it succeeds exactly when the
  book is not crossed, so it succeeds after the stale levels of an L2 or L3 book were cleared, and an L1
  book never has two levels on a side nor an L2 book two orders at a price.
\<close>

lemma book_integrity_means_uncrossed:
  assumes E: "book_env_ok E" "hash_collision_free E" and reach: "book_reach E b"
  shows "book_check_integrity b = (case (ladder_top (ob_bids b), ladder_top (ob_asks b)) of
      (Some bid, Some ask) \<Rightarrow> if crossed b then Inl (OrdersCrossed (bl_price bid) (bl_price ask)) else Inr ()
    | _ \<Rightarrow> Inr ()) \<and> (book_check_integrity b = Inr () \<longleftrightarrow> \<not> crossed b)"
proof -
  have inv: "book_inv E b" by (rule book_reach_inv [OF E reach])
  have ok: "side_ok E (ob_book_type b) (ob_bids b)" "side_ok E (ob_book_type b) (ob_asks b)"
    using inv by (simp_all add: book_inv_def)
  have pre: "(case ob_book_type b of
         L1_MBP \<Rightarrow>
           if ladder_len (ob_bids b) > 1 then Some (TooManyLevels Buy (ladder_len (ob_bids b)))
           else if ladder_len (ob_asks b) > 1 then Some (TooManyLevels Sell (ladder_len (ob_asks b)))
           else None
       | L2_MBP \<Rightarrow>
           (case level_too_many Buy (ob_bids b) of Some e \<Rightarrow> Some e | None \<Rightarrow> level_too_many Sell (ob_asks b))
       | L3_MBO \<Rightarrow> None) = None"
    using ok level_too_many_None [OF E(2)]
    by (cases "ob_book_type b") (auto simp: side_ok_def l1_ok_def ladder_len_def)
  have cr: "crossed b \<longleftrightarrow> (\<exists>p q. best_bid_price b = Some p \<and> best_ask_price b = Some q \<and> p_raw q < p_raw p)"
    by (rule crossed_best [OF inv])
  show ?thesis unfolding book_check_integrity_def pre
    by (auto simp: cr best_bid_price_def best_ask_price_def split: option.splits)
qed

end
