(* ===== verification/Money_Balance.thy ===== *)
theory Money_Balance
  imports Value_Types
begin

text \<open>
  Money and account balances: \<open>model/src/types/money.rs\<close>, \<open>model/src/types/currency.rs\<close> (the
  type) and \<open>model/src/types/balance.rs\<close>.

  Two currencies are equal when their codes are; every operation on two amounts asserts that, so
  it is a partial operation here.  The theory proves that the constructors of an account balance
  keep \<open>total = locked + free\<close>, with both parts inside the total when it is not negative.
\<close>

datatype currency_type = Crypto | Fiat | CommodityBacked

record currency =
  c_code :: string
  c_precision :: nat
  c_iso4217 :: nat
  c_name :: string
  c_type :: currency_type

definition currency_eq :: "currency \<Rightarrow> currency \<Rightarrow> bool" where
  "currency_eq a b \<longleftrightarrow> c_code a = c_code b"

record money =
  m_raw :: int
  m_currency :: currency

definition MONEY_RAW_MAX :: int where "MONEY_RAW_MAX = 9223372036 * 1000000000"

definition MONEY_RAW_MIN :: int where "MONEY_RAW_MIN = - 9223372036 * 1000000000"

definition money_from_raw_checked :: "int \<Rightarrow> currency \<Rightarrow> money checked" where
  "money_from_raw_checked raw c =
     (if raw < MONEY_RAW_MIN \<or> raw > MONEY_RAW_MAX
      then Inl (PredicateViolation ''raw value exceeded bounds for Money'')
      else and_then (check_fixed_precision (c_precision c)) (\<lambda>_.
        Inr \<lparr> m_raw = raw, m_currency = c \<rparr>))"

definition money_from_raw :: "int \<Rightarrow> currency \<Rightarrow> money option" where
  "money_from_raw raw c = expect_display (money_from_raw_checked raw c)"

definition money_from_mantissa_exponent :: "int \<Rightarrow> int \<Rightarrow> currency \<Rightarrow> money option" where
  "money_from_mantissa_exponent mantissa exponent c = do {
     expect_display (check_fixed_precision (c_precision c));
     if mantissa = 0 then Some \<lparr> m_raw = 0, m_currency = c \<rparr>
     else do {
       raw_i128 \<leftarrow> expect_display (mantissa_exponent_to_fixed_i128 mantissa exponent (c_precision c));
       raw \<leftarrow> i64_try_from raw_i128;
       assert_that (raw \<ge> MONEY_RAW_MIN \<and> raw \<le> MONEY_RAW_MAX);
       Some \<lparr> m_raw = raw, m_currency = c \<rparr>
     }
   }"

definition money_zero :: "currency \<Rightarrow> money option" where
  "money_zero c = do {
     expect_display (check_fixed_precision (c_precision c));
     Some \<lparr> m_raw = 0, m_currency = c \<rparr>
   }"

definition money_normalized :: "money \<Rightarrow> money" where
  "money_normalized m =
     \<lparr> m_raw = correct_raw_i64 (m_raw m) (c_precision (m_currency m)), m_currency = m_currency m \<rparr>"

text \<open>The outer option is the currency assertion, the inner one the result.\<close>

definition money_checked_add :: "money \<Rightarrow> money \<Rightarrow> money option option" where
  "money_checked_add a b = do {
     assert_that (currency_eq (m_currency a) (m_currency b));
     Some (
       if \<not> raw_scales_match (c_precision (m_currency a)) (c_precision (m_currency b)) then None
       else do {
         raw \<leftarrow> i64_checked_add (m_raw a) (m_raw b);
         (if raw < MONEY_RAW_MIN \<or> raw > MONEY_RAW_MAX then None
          else Some \<lparr> m_raw = raw, m_currency = m_currency a \<rparr>)
       })
   }"

definition money_checked_sub :: "money \<Rightarrow> money \<Rightarrow> money option option" where
  "money_checked_sub a b = do {
     assert_that (currency_eq (m_currency a) (m_currency b));
     Some (
       if \<not> raw_scales_match (c_precision (m_currency a)) (c_precision (m_currency b)) then None
       else do {
         raw \<leftarrow> i64_checked_sub (m_raw a) (m_raw b);
         (if raw < MONEY_RAW_MIN \<or> raw > MONEY_RAW_MAX then None
          else Some \<lparr> m_raw = raw, m_currency = m_currency a \<rparr>)
       })
   }"

definition money_as_f64 :: "'f f64_ops \<Rightarrow> money \<Rightarrow> 'f" where
  "money_as_f64 F m = f64_div F (f64_of_int F (m_raw m)) (f64_of_int F (int FIXED_SCALAR))"

definition money_as_decimal :: "'d decimal_api \<Rightarrow> money \<Rightarrow> 'd" where
  "money_as_decimal D m =
     (let precision = c_precision (m_currency m);
          precision_diff = FIXED_PRECISION - precision;
          rescaled_raw = m_raw m sdiv 10 ^ precision_diff
      in dec_from_i128_with_scale D rescaled_raw precision)"

definition money_from_decimal :: "'d decimal_api \<Rightarrow> 'd \<Rightarrow> currency \<Rightarrow> money checked" where
  "money_from_decimal D decimal c =
     (let exponent = i8_wrap (- i8_wrap (int (dec_scale D decimal)))
      in and_then (mantissa_exponent_to_fixed_i128 (dec_mantissa D decimal) exponent (c_precision c))
        (\<lambda>raw_i128. case i64_try_from raw_i128 of
           None \<Rightarrow> Inl (PredicateViolation ''Decimal value exceeds MoneyRaw range'')
         | Some raw \<Rightarrow>
             if \<not> (raw \<ge> MONEY_RAW_MIN \<and> raw \<le> MONEY_RAW_MAX)
             then Inl (PredicateViolation ''Raw value exceeded bounds for Money'')
             else Inr \<lparr> m_raw = raw, m_currency = c \<rparr>))"

definition money_eq :: "money \<Rightarrow> money \<Rightarrow> bool" where
  "money_eq a b \<longleftrightarrow> m_raw a = m_raw b \<and> currency_eq (m_currency a) (m_currency b)"

definition money_cmp :: "money \<Rightarrow> money \<Rightarrow> ordering option" where
  "money_cmp a b = do {
     assert_that (currency_eq (m_currency a) (m_currency b));
     Some (cmp_int (m_raw a) (m_raw b))
   }"

definition money_neg :: "money \<Rightarrow> money" where
  "money_neg m = \<lparr> m_raw = i64_wrap (- m_raw m), m_currency = m_currency m \<rparr>"

definition money_add :: "money \<Rightarrow> money \<Rightarrow> money option" where
  "money_add a b = do {
     assert_that (currency_eq (m_currency a) (m_currency b));
     raw \<leftarrow> i64_checked_add (m_raw a) (m_raw b);
     Some \<lparr> m_raw = raw, m_currency = m_currency a \<rparr>
   }"

definition money_sub :: "money \<Rightarrow> money \<Rightarrow> money option" where
  "money_sub a b = do {
     assert_that (currency_eq (m_currency a) (m_currency b));
     raw \<leftarrow> i64_checked_sub (m_raw a) (m_raw b);
     Some \<lparr> m_raw = raw, m_currency = m_currency a \<rparr>
   }"

definition check_positive_money :: "money \<Rightarrow> string \<Rightarrow> unit checked" where
  "check_positive_money value param =
     (if m_raw value \<le> 0 then Inl (NotPositive param) else Inr ())"

section \<open>Balances\<close>

record account_balance =
  ab_currency :: currency
  ab_total :: money
  ab_locked :: money
  ab_free :: money

text \<open>The sum \<open>locked + free\<close> may panic, so the constructor is partial around its result.\<close>

definition account_balance_new_checked ::
    "money \<Rightarrow> money \<Rightarrow> money \<Rightarrow> account_balance checked option" where
  "account_balance_new_checked tot locked free =
     (if \<not> currency_eq (m_currency tot) (m_currency locked)
      then Some (Inl (PredicateViolation ''total currency != locked currency''))
      else if \<not> currency_eq (m_currency tot) (m_currency free)
      then Some (Inl (PredicateViolation ''total currency != free currency''))
      else do {
        s \<leftarrow> money_add locked free;
        Some (
          if \<not> money_eq tot s
          then Inl (PredicateViolation ''total - locked != free'')
          else Inr \<lparr> ab_currency = m_currency tot, ab_total = tot, ab_locked = locked,
                     ab_free = free \<rparr>)
      })"

definition account_balance_new :: "money \<Rightarrow> money \<Rightarrow> money \<Rightarrow> account_balance option" where
  "account_balance_new tot locked free = do {
     r \<leftarrow> account_balance_new_checked tot locked free;
     expect_display r
   }"

definition i64_clamp :: "int \<Rightarrow> int \<Rightarrow> int \<Rightarrow> int" where
  "i64_clamp x lo hi = (if x < lo then lo else if x > hi then hi else x)"

definition account_balance_from_total_and_locked ::
    "'d decimal_api \<Rightarrow> 'd \<Rightarrow> 'd \<Rightarrow> currency \<Rightarrow> account_balance checked option" where
  "account_balance_from_total_and_locked D tot locked c =
     (case money_from_decimal D tot c of
        Inl e \<Rightarrow> Some (Inl e)
      | Inr tot \<Rightarrow>
        (case money_from_decimal D locked c of
           Inl e \<Rightarrow> Some (Inl e)
         | Inr locked \<Rightarrow> do {
             let locked_raw = (if m_raw tot \<ge> 0 then i64_clamp (m_raw locked) 0 (m_raw tot)
                               else m_raw locked);
             clamped_locked \<leftarrow> money_from_raw locked_raw c;
             free \<leftarrow> money_from_raw (i64_wrap (m_raw tot - m_raw clamped_locked)) c;
             b \<leftarrow> account_balance_new tot clamped_locked free;
             Some (Inr b)
           }))"

definition account_balance_from_total_and_free ::
    "'d decimal_api \<Rightarrow> 'd \<Rightarrow> 'd \<Rightarrow> currency \<Rightarrow> account_balance checked option" where
  "account_balance_from_total_and_free D tot free c =
     (case money_from_decimal D tot c of
        Inl e \<Rightarrow> Some (Inl e)
      | Inr tot \<Rightarrow>
        (case money_from_decimal D free c of
           Inl e \<Rightarrow> Some (Inl e)
         | Inr free \<Rightarrow> do {
             let free_raw = (if m_raw tot \<ge> 0 then i64_clamp (m_raw free) 0 (m_raw tot)
                             else m_raw free);
             clamped_free \<leftarrow> money_from_raw free_raw c;
             locked \<leftarrow> money_from_raw (i64_wrap (m_raw tot - m_raw clamped_free)) c;
             b \<leftarrow> account_balance_new tot locked clamped_free;
             Some (Inr b)
           }))"

record margin_balance =
  mb_initial :: money
  mb_maintenance :: money
  mb_currency :: currency
  mb_instrument_id :: "string option"

definition margin_balance_new_checked ::
    "money \<Rightarrow> money \<Rightarrow> string option \<Rightarrow> margin_balance checked" where
  "margin_balance_new_checked initial maintenance instrument_id =
     (if \<not> currency_eq (m_currency initial) (m_currency maintenance)
      then Inl (PredicateViolation ''initial currency != maintenance currency'')
      else Inr \<lparr> mb_initial = initial, mb_maintenance = maintenance,
                 mb_currency = m_currency initial, mb_instrument_id = instrument_id \<rparr>)"

definition balance_ok :: "account_balance \<Rightarrow> bool" where
  "balance_ok b \<longleftrightarrow>
     m_raw (ab_total b) = m_raw (ab_locked b) + m_raw (ab_free b) \<and>
     currency_eq (ab_currency b) (m_currency (ab_total b)) \<and>
     currency_eq (m_currency (ab_total b)) (m_currency (ab_locked b)) \<and>
     currency_eq (m_currency (ab_total b)) (m_currency (ab_free b))"

definition usd :: currency where
  "usd = \<lparr> c_code = ''USD'', c_precision = 2, c_iso4217 = 840, c_name = ''United States dollar'',
     c_type = Fiat \<rparr>"

lemma currency_eq_refl [simp]: "currency_eq c c"
  by (simp add: currency_eq_def)

lemma money_from_decimal_Inr:
  assumes "money_from_decimal D d c = Inr m"
  shows "m_currency m = c \<and> MONEY_RAW_MIN \<le> m_raw m \<and> m_raw m \<le> MONEY_RAW_MAX \<and>
    c_precision c \<le> FIXED_PRECISION"
proof -
  obtain r where conv: "mantissa_exponent_to_fixed_i128 (dec_mantissa D d)
      (i8_wrap (- i8_wrap (int (dec_scale D d)))) (c_precision c) = Inr r"
    and m: "(case i64_try_from r of
        None \<Rightarrow> Inl (PredicateViolation ''Decimal value exceeds MoneyRaw range'')
      | Some raw \<Rightarrow>
          if \<not> (raw \<ge> MONEY_RAW_MIN \<and> raw \<le> MONEY_RAW_MAX)
          then Inl (PredicateViolation ''Raw value exceeded bounds for Money'')
          else Inr \<lparr> m_raw = raw, m_currency = c \<rparr>) = Inr m"
    using assms unfolding money_from_decimal_def Let_def and_then_Inr by blast
  show ?thesis
    using m mantissa_exponent_cases(1) [OF conv] by (auto split: option.splits if_splits)
qed

lemma money_from_raw_Some:
  "MONEY_RAW_MIN \<le> r \<Longrightarrow> r \<le> MONEY_RAW_MAX \<Longrightarrow> c_precision c \<le> FIXED_PRECISION \<Longrightarrow>
   money_from_raw r c = Some \<lparr> m_raw = r, m_currency = c \<rparr>"
  by (simp add: money_from_raw_def money_from_raw_checked_def check_fixed_precision_def)

lemma account_balance_new_Some:
  "in_i64 r \<Longrightarrow> r = a + b \<Longrightarrow>
   account_balance_new \<lparr> m_raw = r, m_currency = c \<rparr> \<lparr> m_raw = a, m_currency = c \<rparr>
     \<lparr> m_raw = b, m_currency = c \<rparr>
   = Some \<lparr> ab_currency = c, ab_total = \<lparr> m_raw = r, m_currency = c \<rparr>,
       ab_locked = \<lparr> m_raw = a, m_currency = c \<rparr>, ab_free = \<lparr> m_raw = b, m_currency = c \<rparr> \<rparr>"
  by (simp add: account_balance_new_def account_balance_new_checked_def money_add_def money_eq_def
      i64_checked_add_def)

lemma account_balance_new_ok: "account_balance_new t l f = Some b \<Longrightarrow> balance_ok b"
  by (auto simp: account_balance_new_def account_balance_new_checked_def money_add_def money_eq_def
      i64_checked_add_def balance_ok_def currency_eq_def split: if_splits option.splits
      bind_splits)

lemma i64_clamp_bounds: "lo \<le> hi \<Longrightarrow> lo \<le> i64_clamp x lo hi \<and> i64_clamp x lo hi \<le> hi"
  by (auto simp: i64_clamp_def)

lemma money_range_i64: "0 \<le> r \<Longrightarrow> r \<le> MONEY_RAW_MAX \<Longrightarrow> in_i64 r"
  by (simp add: in_i64_def MONEY_RAW_MAX_def rust_bounds)

text \<open>
  C31: a balance built from a total and a locked amount (or a total and a free amount) keeps
  \<open>total = locked + free\<close> in one currency; when both amounts convert and the total is not
  negative the call returns without a panic, and both parts lie between zero and the total.
\<close>

theorem account_balance_split:
  assumes "money_from_decimal D x c = Inr tot" and "money_from_decimal D y c = Inr part"
    and "0 \<le> m_raw tot"
  shows "(\<exists>b. account_balance_from_total_and_locked D x y c = Some (Inr b) \<and> balance_ok b \<and>
            ab_total b = tot \<and> 0 \<le> m_raw (ab_locked b) \<and> 0 \<le> m_raw (ab_free b) \<and>
            (m_raw part \<in> {0..m_raw tot} \<longrightarrow> m_raw (ab_locked b) = m_raw part)) \<and>
         (\<exists>b. account_balance_from_total_and_free D x y c = Some (Inr b) \<and> balance_ok b \<and>
            ab_total b = tot \<and> 0 \<le> m_raw (ab_locked b) \<and> 0 \<le> m_raw (ab_free b) \<and>
            (m_raw part \<in> {0..m_raw tot} \<longrightarrow> m_raw (ab_free b) = m_raw part))"
proof -
  define r where "r = i64_clamp (m_raw part) 0 (m_raw tot)"
  have t: "m_currency tot = c" "m_raw tot \<le> MONEY_RAW_MAX" "c_precision c \<le> FIXED_PRECISION"
    using money_from_decimal_Inr [OF assms(1)] by auto
  have r: "0 \<le> r" "r \<le> m_raw tot" using i64_clamp_bounds [OF assms(3)] by (auto simp: r_def)
  have neg: "MONEY_RAW_MIN \<le> 0" by (simp add: MONEY_RAW_MIN_def)
  have mk: "money_from_raw z c = Some \<lparr> m_raw = z, m_currency = c \<rparr>" if "0 \<le> z" "z \<le> m_raw tot" for z
    using that t neg by (intro money_from_raw_Some) auto
  have wrap: "i64_wrap (m_raw tot - r) = m_raw tot - r"
    using r t by (intro i64_wrap_exact money_range_i64) auto
  have new: "account_balance_new tot \<lparr> m_raw = a, m_currency = c \<rparr> \<lparr> m_raw = b, m_currency = c \<rparr>
      = Some \<lparr> ab_currency = c, ab_total = tot, ab_locked = \<lparr> m_raw = a, m_currency = c \<rparr>,
          ab_free = \<lparr> m_raw = b, m_currency = c \<rparr> \<rparr>" if "m_raw tot = a + b" for a b
    using account_balance_new_Some [OF money_range_i64 [OF assms(3) t(2)] that, of c] t(1)
    by (cases tot) simp
  have eq: "m_raw part \<in> {0..m_raw tot} \<Longrightarrow> r = m_raw part" by (simp add: r_def i64_clamp_def)
  show ?thesis using r eq t(1)
    by (auto simp: account_balance_from_total_and_locked_def account_balance_from_total_and_free_def
        assms wrap mk new balance_ok_def simp flip: r_def)
qed

theorem account_balance_split_witness:
  "\<exists>b. account_balance_from_total_and_locked pair_decimal (10000, 2) (15000, 2) usd = Some (Inr b) \<and>
     balance_ok b \<and> m_raw (ab_total b) = 100000000000"
proof -
  have conv: "money_from_decimal pair_decimal (k, 2) usd = Inr \<lparr> m_raw = k * 10000000, m_currency = usd \<rparr>"
    if "0 \<le> k" "k \<le> 20000" for k
    using that by (simp add: money_from_decimal_def pair_decimal_def usd_def Let_def i8_wrap_def
        mantissa_exponent_to_fixed_i128_def check_fixed_precision_def FIXED_PRECISION_def
        i128_checked_mul_def in_i128_def in_i64_def i64_try_from_def rust_bounds MONEY_RAW_MIN_def
        MONEY_RAW_MAX_def)
  show ?thesis
    using account_balance_split [OF conv [of 10000] conv [of 15000]] by auto
qed

end
