(* ===== verification/Order_Events.thy ===== *)
theory Order_Events
  imports Enums Money_Balance
begin

text \<open>
  Order events: the structs of \<open>model/src/events/order/*.rs\<close> and the union \<open>OrderEventAny\<close> of
  \<open>model/src/events/order/any.rs\<close> with its accessors.

  Every event struct begins with the same seven fields; they are the record \<open>order_event_base\<close>,
  which the record of each event extends.  Identifiers and interned strings are \<^typ>\<open>string\<close>,
  timestamps are nanoseconds as \<^typ>\<open>nat\<close>, and \<^typ>\<open>'d\<close> is the decimal type of the crate
  \<open>rust_decimal\<close>, whose values the events only carry.
\<close>

type_synonym unix_nanos = nat

record order_event_base =
  ev_trader_id :: string
  ev_strategy_id :: string
  ev_instrument_id :: string
  ev_client_order_id :: string
  ev_event_id :: string
  ev_ts_event :: unix_nanos
  ev_ts_init :: unix_nanos

record 'd order_initialized = order_event_base +
  oi_order_side :: order_side
  oi_order_type :: order_type
  oi_quantity :: quantity
  oi_time_in_force :: time_in_force
  oi_post_only :: bool
  oi_reduce_only :: bool
  oi_quote_quantity :: bool
  oi_reconciliation :: bool
  oi_price :: "price option"
  oi_trigger_price :: "price option"
  oi_trigger_type :: "trigger_type option"
  oi_limit_offset :: "'d option"
  oi_trailing_offset :: "'d option"
  oi_trailing_offset_type :: "trailing_offset_type option"
  oi_expire_time :: "unix_nanos option"
  oi_display_qty :: "quantity option"
  oi_emulation_trigger :: "trigger_type option"
  oi_trigger_instrument_id :: "string option"
  oi_contingency_type :: "contingency_type option"
  oi_order_list_id :: "string option"
  oi_linked_order_ids :: "string list option"
  oi_parent_order_id :: "string option"
  oi_exec_algorithm_id :: "string option"
  oi_exec_algorithm_params :: "(string \<times> string) list option"
  oi_exec_spawn_id :: "string option"
  oi_tags :: "string list option"

record order_denied = order_event_base +
  od_reason :: string

type_synonym order_emulated = order_event_base

record order_released = order_event_base +
  or_released_price :: price

record order_submitted = order_event_base +
  os_account_id :: string

record order_accepted = order_event_base +
  oa_venue_order_id :: string
  oa_account_id :: string
  oa_reconciliation :: nat

record order_rejected = order_event_base +
  orj_account_id :: string
  orj_reason :: string
  orj_reconciliation :: nat
  orj_due_post_only :: nat

record order_canceled = order_event_base +
  ocn_reconciliation :: nat
  ocn_venue_order_id :: "string option"
  ocn_account_id :: "string option"

record order_expired = order_event_base +
  oe_reconciliation :: nat
  oe_venue_order_id :: "string option"
  oe_account_id :: "string option"

record order_triggered = order_event_base +
  ot_reconciliation :: nat
  ot_venue_order_id :: "string option"
  ot_account_id :: "string option"

record order_pending_update = order_event_base +
  opu_account_id :: string
  opu_reconciliation :: nat
  opu_venue_order_id :: "string option"

record order_pending_cancel = order_event_base +
  opc_account_id :: string
  opc_reconciliation :: nat
  opc_venue_order_id :: "string option"

record order_modify_rejected = order_event_base +
  omr_reason :: string
  omr_reconciliation :: nat
  omr_venue_order_id :: "string option"
  omr_account_id :: "string option"

record order_cancel_rejected = order_event_base +
  ocr_reason :: string
  ocr_reconciliation :: nat
  ocr_venue_order_id :: "string option"
  ocr_account_id :: "string option"

record order_updated = order_event_base +
  ou_venue_order_id :: "string option"
  ou_account_id :: "string option"
  ou_quantity :: quantity
  ou_price :: "price option"
  ou_trigger_price :: "price option"
  ou_protection_price :: "price option"
  ou_is_quote_quantity :: bool
  ou_reconciliation :: nat

record order_filled = order_event_base +
  of_venue_order_id :: string
  of_account_id :: string
  of_trade_id :: string
  of_order_side :: order_side
  of_order_type :: order_type
  of_last_qty :: quantity
  of_last_px :: price
  of_currency :: currency
  of_liquidity_side :: liquidity_side
  of_reconciliation :: bool
  of_position_id :: "string option"
  of_commission :: "money option"

datatype 'd order_event =
    EvInitialized "'d order_initialized"
  | EvDenied order_denied
  | EvEmulated order_emulated
  | EvReleased order_released
  | EvSubmitted order_submitted
  | EvAccepted order_accepted
  | EvRejected order_rejected
  | EvCanceled order_canceled
  | EvExpired order_expired
  | EvTriggered order_triggered
  | EvPendingUpdate order_pending_update
  | EvPendingCancel order_pending_cancel
  | EvModifyRejected order_modify_rejected
  | EvCancelRejected order_cancel_rejected
  | EvUpdated order_updated
  | EvFilled order_filled

fun event_trader_id :: "'d order_event \<Rightarrow> string" where
  "event_trader_id (EvInitialized e) = ev_trader_id e"
| "event_trader_id (EvDenied e) = ev_trader_id e"
| "event_trader_id (EvEmulated e) = ev_trader_id e"
| "event_trader_id (EvReleased e) = ev_trader_id e"
| "event_trader_id (EvSubmitted e) = ev_trader_id e"
| "event_trader_id (EvAccepted e) = ev_trader_id e"
| "event_trader_id (EvRejected e) = ev_trader_id e"
| "event_trader_id (EvCanceled e) = ev_trader_id e"
| "event_trader_id (EvExpired e) = ev_trader_id e"
| "event_trader_id (EvTriggered e) = ev_trader_id e"
| "event_trader_id (EvPendingUpdate e) = ev_trader_id e"
| "event_trader_id (EvPendingCancel e) = ev_trader_id e"
| "event_trader_id (EvModifyRejected e) = ev_trader_id e"
| "event_trader_id (EvCancelRejected e) = ev_trader_id e"
| "event_trader_id (EvUpdated e) = ev_trader_id e"
| "event_trader_id (EvFilled e) = ev_trader_id e"

fun event_client_order_id :: "'d order_event \<Rightarrow> string" where
  "event_client_order_id (EvInitialized e) = ev_client_order_id e"
| "event_client_order_id (EvDenied e) = ev_client_order_id e"
| "event_client_order_id (EvEmulated e) = ev_client_order_id e"
| "event_client_order_id (EvReleased e) = ev_client_order_id e"
| "event_client_order_id (EvSubmitted e) = ev_client_order_id e"
| "event_client_order_id (EvAccepted e) = ev_client_order_id e"
| "event_client_order_id (EvRejected e) = ev_client_order_id e"
| "event_client_order_id (EvCanceled e) = ev_client_order_id e"
| "event_client_order_id (EvExpired e) = ev_client_order_id e"
| "event_client_order_id (EvTriggered e) = ev_client_order_id e"
| "event_client_order_id (EvPendingUpdate e) = ev_client_order_id e"
| "event_client_order_id (EvPendingCancel e) = ev_client_order_id e"
| "event_client_order_id (EvModifyRejected e) = ev_client_order_id e"
| "event_client_order_id (EvCancelRejected e) = ev_client_order_id e"
| "event_client_order_id (EvUpdated e) = ev_client_order_id e"
| "event_client_order_id (EvFilled e) = ev_client_order_id e"

fun event_strategy_id :: "'d order_event \<Rightarrow> string" where
  "event_strategy_id (EvInitialized e) = ev_strategy_id e"
| "event_strategy_id (EvDenied e) = ev_strategy_id e"
| "event_strategy_id (EvEmulated e) = ev_strategy_id e"
| "event_strategy_id (EvReleased e) = ev_strategy_id e"
| "event_strategy_id (EvSubmitted e) = ev_strategy_id e"
| "event_strategy_id (EvAccepted e) = ev_strategy_id e"
| "event_strategy_id (EvRejected e) = ev_strategy_id e"
| "event_strategy_id (EvCanceled e) = ev_strategy_id e"
| "event_strategy_id (EvExpired e) = ev_strategy_id e"
| "event_strategy_id (EvTriggered e) = ev_strategy_id e"
| "event_strategy_id (EvPendingUpdate e) = ev_strategy_id e"
| "event_strategy_id (EvPendingCancel e) = ev_strategy_id e"
| "event_strategy_id (EvModifyRejected e) = ev_strategy_id e"
| "event_strategy_id (EvCancelRejected e) = ev_strategy_id e"
| "event_strategy_id (EvUpdated e) = ev_strategy_id e"
| "event_strategy_id (EvFilled e) = ev_strategy_id e"

fun event_ts_event :: "'d order_event \<Rightarrow> unix_nanos" where
  "event_ts_event (EvInitialized e) = ev_ts_event e"
| "event_ts_event (EvDenied e) = ev_ts_event e"
| "event_ts_event (EvEmulated e) = ev_ts_event e"
| "event_ts_event (EvReleased e) = ev_ts_event e"
| "event_ts_event (EvSubmitted e) = ev_ts_event e"
| "event_ts_event (EvAccepted e) = ev_ts_event e"
| "event_ts_event (EvRejected e) = ev_ts_event e"
| "event_ts_event (EvCanceled e) = ev_ts_event e"
| "event_ts_event (EvExpired e) = ev_ts_event e"
| "event_ts_event (EvTriggered e) = ev_ts_event e"
| "event_ts_event (EvPendingUpdate e) = ev_ts_event e"
| "event_ts_event (EvPendingCancel e) = ev_ts_event e"
| "event_ts_event (EvModifyRejected e) = ev_ts_event e"
| "event_ts_event (EvCancelRejected e) = ev_ts_event e"
| "event_ts_event (EvUpdated e) = ev_ts_event e"
| "event_ts_event (EvFilled e) = ev_ts_event e"

end
