(* ===== verification/Orders.thy ===== *)
theory Orders
  imports Order_Events
begin

text \<open>
  The order state machine and the shared core of all orders: \<open>model/src/orders/mod.rs\<close>.

  \<open>transition\<close> is the table of legal status changes, \<open>order_core\<close> the struct \<open>OrderCore\<close>, and
  \<open>core_apply\<close> the method that applies an event: its guards, the transition, the handler of the
  event and the final bookkeeping.  A failing \<open>apply\<close> may already have changed the order (it
  records the previous status first), so it returns the order in either case; \<open>None\<close> is a panic.
\<close>

datatype order_error =
    NotFound string
  | NoOrderSideError
  | InvalidOrderEvent
  | InvalidStateTransition
  | AlreadyInitialized
  | NoPreviousState
  | DuplicateFill string
  | Invariant correctness_error

definition TRIGGERABLE_ORDER_TYPES :: "order_type list" where
  "TRIGGERABLE_ORDER_TYPES = [StopLimit, TrailingStopLimit, LimitIfTouched]"

definition check_display_qty :: "quantity option \<Rightarrow> quantity \<Rightarrow> order_error + unit" where
  "check_display_qty display_qty quantity =
     (case display_qty of
        Some q \<Rightarrow>
          if q_raw q > q_raw quantity
          then Inl (Invariant (PredicateViolation ''display_qty may not exceed quantity''))
          else Inr ()
      | None \<Rightarrow> Inr ())"

definition check_time_in_force :: "time_in_force \<Rightarrow> unix_nanos option \<Rightarrow> order_error + unit" where
  "check_time_in_force tif expire_time =
     (if tif = Gtd \<and> (case expire_time of Some t \<Rightarrow> t | None \<Rightarrow> 0) = 0
      then Inl (Invariant (PredicateViolation ''expire_time is required for GTD order''))
      else Inr ())"

definition transition :: "order_status \<Rightarrow> 'd order_event \<Rightarrow> order_error + order_status" where
  "transition status event =
     (case status of
        Initialized \<Rightarrow>
          (case event of
             EvDenied _ \<Rightarrow> Inr Denied
           | EvEmulated _ \<Rightarrow> Inr Emulated
           | EvReleased _ \<Rightarrow> Inr Released
           | EvSubmitted _ \<Rightarrow> Inr Submitted
           | EvRejected _ \<Rightarrow> Inr Rejected
           | EvAccepted _ \<Rightarrow> Inr Accepted
           | EvCanceled _ \<Rightarrow> Inr Canceled
           | EvExpired _ \<Rightarrow> Inr Expired
           | EvTriggered _ \<Rightarrow> Inr Triggered
           | EvUpdated _ \<Rightarrow> Inr Initialized
           | _ \<Rightarrow> Inl InvalidStateTransition)
      | Emulated \<Rightarrow>
          (case event of
             EvCanceled _ \<Rightarrow> Inr Canceled
           | EvExpired _ \<Rightarrow> Inr Expired
           | EvReleased _ \<Rightarrow> Inr Released
           | _ \<Rightarrow> Inl InvalidStateTransition)
      | Released \<Rightarrow>
          (case event of
             EvSubmitted _ \<Rightarrow> Inr Submitted
           | EvDenied _ \<Rightarrow> Inr Denied
           | EvCanceled _ \<Rightarrow> Inr Canceled
           | EvUpdated _ \<Rightarrow> Inr Released
           | _ \<Rightarrow> Inl InvalidStateTransition)
      | Submitted \<Rightarrow>
          (case event of
             EvPendingUpdate _ \<Rightarrow> Inr PendingUpdate
           | EvPendingCancel _ \<Rightarrow> Inr PendingCancel
           | EvRejected _ \<Rightarrow> Inr Rejected
           | EvCanceled _ \<Rightarrow> Inr Canceled
           | EvAccepted _ \<Rightarrow> Inr Accepted
           | EvUpdated _ \<Rightarrow> Inr Submitted
           | EvFilled _ \<Rightarrow> Inr Filled
           | _ \<Rightarrow> Inl InvalidStateTransition)
      | Accepted \<Rightarrow>
          (case event of
             EvRejected _ \<Rightarrow> Inr Rejected
           | EvPendingUpdate _ \<Rightarrow> Inr PendingUpdate
           | EvPendingCancel _ \<Rightarrow> Inr PendingCancel
           | EvCanceled _ \<Rightarrow> Inr Canceled
           | EvTriggered _ \<Rightarrow> Inr Triggered
           | EvUpdated _ \<Rightarrow> Inr Accepted
           | EvExpired _ \<Rightarrow> Inr Expired
           | EvFilled _ \<Rightarrow> Inr Filled
           | _ \<Rightarrow> Inl InvalidStateTransition)
      | Canceled \<Rightarrow>
          (case event of
             EvFilled _ \<Rightarrow> Inr Filled
           | _ \<Rightarrow> Inl InvalidStateTransition)
      | PendingUpdate \<Rightarrow>
          (case event of
             EvRejected _ \<Rightarrow> Inr Rejected
           | EvAccepted _ \<Rightarrow> Inr Accepted
           | EvCanceled _ \<Rightarrow> Inr Canceled
           | EvExpired _ \<Rightarrow> Inr Expired
           | EvTriggered _ \<Rightarrow> Inr Triggered
           | EvPendingUpdate _ \<Rightarrow> Inr PendingUpdate
           | EvPendingCancel _ \<Rightarrow> Inr PendingCancel
           | EvModifyRejected _ \<Rightarrow> Inr PendingUpdate
           | EvUpdated _ \<Rightarrow> Inr PendingUpdate
           | EvFilled _ \<Rightarrow> Inr Filled
           | _ \<Rightarrow> Inl InvalidStateTransition)
      | PendingCancel \<Rightarrow>
          (case event of
             EvRejected _ \<Rightarrow> Inr Rejected
           | EvPendingCancel _ \<Rightarrow> Inr PendingCancel
           | EvCancelRejected _ \<Rightarrow> Inr PendingCancel
           | EvCanceled _ \<Rightarrow> Inr Canceled
           | EvExpired _ \<Rightarrow> Inr Expired
           | EvAccepted _ \<Rightarrow> Inr Accepted
           | EvFilled _ \<Rightarrow> Inr Filled
           | _ \<Rightarrow> Inl InvalidStateTransition)
      | Triggered \<Rightarrow>
          (case event of
             EvRejected _ \<Rightarrow> Inr Rejected
           | EvPendingUpdate _ \<Rightarrow> Inr PendingUpdate
           | EvPendingCancel _ \<Rightarrow> Inr PendingCancel
           | EvCanceled _ \<Rightarrow> Inr Canceled
           | EvExpired _ \<Rightarrow> Inr Expired
           | EvFilled _ \<Rightarrow> Inr Filled
           | EvUpdated _ \<Rightarrow> Inr Triggered
           | _ \<Rightarrow> Inl InvalidStateTransition)
      | PartiallyFilled \<Rightarrow>
          (case event of
             EvPendingUpdate _ \<Rightarrow> Inr PendingUpdate
           | EvPendingCancel _ \<Rightarrow> Inr PendingCancel
           | EvCanceled _ \<Rightarrow> Inr Canceled
           | EvExpired _ \<Rightarrow> Inr Expired
           | EvFilled _ \<Rightarrow> Inr Filled
           | EvAccepted _ \<Rightarrow> Inr Accepted
           | EvUpdated _ \<Rightarrow> Inr PartiallyFilled
           | _ \<Rightarrow> Inl InvalidStateTransition)
      | _ \<Rightarrow> Inl InvalidStateTransition)"

record ('d, 'f) order_core =
  o_events :: "'d order_event list"
  o_commissions :: "(currency \<times> money) list"
  o_venue_order_ids :: "string list"
  o_trade_ids :: "string list"
  o_previous_status :: "order_status option"
  o_status :: order_status
  o_trader_id :: string
  o_strategy_id :: string
  o_instrument_id :: string
  o_client_order_id :: string
  o_venue_order_id :: "string option"
  o_position_id :: "string option"
  o_account_id :: "string option"
  o_last_trade_id :: "string option"
  o_side :: order_side
  o_order_type :: order_type
  o_quantity :: quantity
  o_time_in_force :: time_in_force
  o_liquidity_side :: "liquidity_side option"
  o_is_reduce_only :: bool
  o_is_quote_quantity :: bool
  o_emulation_trigger :: "trigger_type option"
  o_contingency_type :: "contingency_type option"
  o_order_list_id :: "string option"
  o_linked_order_ids :: "string list option"
  o_parent_order_id :: "string option"
  o_exec_algorithm_id :: "string option"
  o_exec_algorithm_params :: "(string \<times> string) list option"
  o_exec_spawn_id :: "string option"
  o_tags :: "string list option"
  o_filled_qty :: quantity
  o_leaves_qty :: quantity
  o_overfill_qty :: quantity
  o_avg_px :: "'f option"
  o_slippage :: "'f option"
  o_init_id :: string
  o_ts_init :: unix_nanos
  o_ts_submitted :: "unix_nanos option"
  o_ts_accepted :: "unix_nanos option"
  o_ts_closed :: "unix_nanos option"
  o_ts_last :: unix_nanos

definition core_new :: "'d order_initialized \<Rightarrow> ('d, 'f) order_core option" where
  "core_new init = do {
     zero \<leftarrow> quantity_zero (q_prec (oi_quantity init));
     Some \<lparr> o_events = [EvInitialized init], o_commissions = [], o_venue_order_ids = [],
       o_trade_ids = [], o_previous_status = None, o_status = Initialized,
       o_trader_id = ev_trader_id init, o_strategy_id = ev_strategy_id init,
       o_instrument_id = ev_instrument_id init, o_client_order_id = ev_client_order_id init,
       o_venue_order_id = None, o_position_id = None, o_account_id = None, o_last_trade_id = None,
       o_side = oi_order_side init, o_order_type = oi_order_type init,
       o_quantity = oi_quantity init, o_time_in_force = oi_time_in_force init,
       o_liquidity_side = Some NoLiquiditySide, o_is_reduce_only = oi_reduce_only init,
       o_is_quote_quantity = oi_quote_quantity init,
       o_emulation_trigger =
         (case oi_emulation_trigger init of None \<Rightarrow> Some NoTrigger | Some t \<Rightarrow> Some t),
       o_contingency_type =
         (case oi_contingency_type init of None \<Rightarrow> Some NoContingency | Some c \<Rightarrow> Some c),
       o_order_list_id = oi_order_list_id init, o_linked_order_ids = oi_linked_order_ids init,
       o_parent_order_id = oi_parent_order_id init, o_exec_algorithm_id = oi_exec_algorithm_id init,
       o_exec_algorithm_params = oi_exec_algorithm_params init,
       o_exec_spawn_id = oi_exec_spawn_id init, o_tags = oi_tags init, o_filled_qty = zero,
       o_leaves_qty = oi_quantity init, o_overfill_qty = zero, o_avg_px = None, o_slippage = None,
       o_init_id = ev_event_id init, o_ts_init = ev_ts_event init, o_ts_submitted = None,
       o_ts_accepted = None, o_ts_closed = None, o_ts_last = ev_ts_event init \<rparr>
   }"

section \<open>Event handlers\<close>

definition core_denied :: "order_denied \<Rightarrow> ('d, 'f) order_core \<Rightarrow> ('d, 'f) order_core" where
  "core_denied ev c = c \<lparr> o_ts_closed := Some (ev_ts_event ev) \<rparr>"

definition core_emulated :: "order_emulated \<Rightarrow> ('d, 'f) order_core \<Rightarrow> ('d, 'f) order_core" where
  "core_emulated ev c = c"

definition core_released :: "order_released \<Rightarrow> ('d, 'f) order_core \<Rightarrow> ('d, 'f) order_core" where
  "core_released ev c = c \<lparr> o_emulation_trigger := None \<rparr>"

definition core_submitted :: "order_submitted \<Rightarrow> ('d, 'f) order_core \<Rightarrow> ('d, 'f) order_core" where
  "core_submitted ev c =
     c \<lparr> o_account_id := Some (os_account_id ev), o_ts_submitted := Some (ev_ts_event ev) \<rparr>"

definition core_accepted :: "order_accepted \<Rightarrow> ('d, 'f) order_core \<Rightarrow> ('d, 'f) order_core" where
  "core_accepted ev c =
     c \<lparr> o_account_id := Some (oa_account_id ev),
         o_venue_order_id := Some (oa_venue_order_id ev),
         o_venue_order_ids := o_venue_order_ids c @ [oa_venue_order_id ev],
         o_ts_accepted := Some (ev_ts_event ev) \<rparr>"

definition core_rejected :: "order_rejected \<Rightarrow> ('d, 'f) order_core \<Rightarrow> ('d, 'f) order_core" where
  "core_rejected ev c = c \<lparr> o_ts_closed := Some (ev_ts_event ev) \<rparr>"

definition core_pending_update ::
    "order_pending_update \<Rightarrow> ('d, 'f) order_core \<Rightarrow> ('d, 'f) order_core" where
  "core_pending_update ev c = c"

definition core_pending_cancel ::
    "order_pending_cancel \<Rightarrow> ('d, 'f) order_core \<Rightarrow> ('d, 'f) order_core" where
  "core_pending_cancel ev c = c"

definition core_modify_rejected ::
    "order_modify_rejected \<Rightarrow> ('d, 'f) order_core \<Rightarrow> order_error + ('d, 'f) order_core" where
  "core_modify_rejected ev c =
     (case o_previous_status c of
        None \<Rightarrow> Inl NoPreviousState
      | Some s \<Rightarrow> Inr (c \<lparr> o_status := s \<rparr>))"

definition core_cancel_rejected ::
    "order_cancel_rejected \<Rightarrow> ('d, 'f) order_core \<Rightarrow> order_error + ('d, 'f) order_core" where
  "core_cancel_rejected ev c =
     (case o_previous_status c of
        None \<Rightarrow> Inl NoPreviousState
      | Some s \<Rightarrow> Inr (c \<lparr> o_status := s \<rparr>))"

definition core_triggered :: "order_triggered \<Rightarrow> ('d, 'f) order_core \<Rightarrow> ('d, 'f) order_core" where
  "core_triggered ev c = c"

definition core_canceled :: "order_canceled \<Rightarrow> ('d, 'f) order_core \<Rightarrow> ('d, 'f) order_core" where
  "core_canceled ev c = c \<lparr> o_ts_closed := Some (ev_ts_event ev) \<rparr>"

definition core_expired :: "order_expired \<Rightarrow> ('d, 'f) order_core \<Rightarrow> ('d, 'f) order_core" where
  "core_expired ev c = c \<lparr> o_ts_closed := Some (ev_ts_event ev) \<rparr>"

definition core_updated :: "order_updated \<Rightarrow> ('d, 'f) order_core \<Rightarrow> ('d, 'f) order_core" where
  "core_updated ev c =
     (let c = (case o_previous_status c of
                 Some previous \<Rightarrow> if o_status c = PendingUpdate then c \<lparr> o_status := previous \<rparr> else c
               | None \<Rightarrow> c);
          c = (case ou_venue_order_id ev of
                 Some v \<Rightarrow>
                   if o_venue_order_id c = None \<or> Some v \<noteq> o_venue_order_id c
                   then c \<lparr> o_venue_order_id := Some v, o_venue_order_ids := o_venue_order_ids c @ [v] \<rparr>
                   else c
               | None \<Rightarrow> c)
      in c \<lparr> o_is_quote_quantity := ou_is_quote_quantity ev \<rparr>)"

definition core_set_avg_px ::
    "'f f64_ops \<Rightarrow> quantity \<Rightarrow> price \<Rightarrow> ('d, 'f) order_core \<Rightarrow> ('d, 'f) order_core option" where
  "core_set_avg_px F last_qty last_px c =
     (case o_avg_px c of
        None \<Rightarrow> Some (c \<lparr> o_avg_px := Some (price_as_f64 F last_px) \<rparr>)
      | Some avg_px \<Rightarrow> do {
          prev \<leftarrow> quantity_sub (o_filled_qty c) last_qty;
          let prev_filled_qty = quantity_as_f64 F prev;
          let last_qty_f64 = quantity_as_f64 F last_qty;
          let total_qty = f64_add F prev_filled_qty last_qty_f64;
          let new_avg = f64_div F
            (f64_mul_add F avg_px prev_filled_qty (f64_mul F (price_as_f64 F last_px) last_qty_f64))
            total_qty;
          Some (c \<lparr> o_avg_px := Some new_avg \<rparr>)
        })"

text \<open>The fill handler, in the four steps of its body.\<close>

definition fill_overfill :: "quantity \<Rightarrow> ('d, 'f) order_core \<Rightarrow> ('d, 'f) order_core option" where
  "fill_overfill new_filled_qty c =
     (if q_raw new_filled_qty > q_raw (o_quantity c)
      then do {
        let overfill_raw = q_raw new_filled_qty - q_raw (o_quantity c);
        overfill \<leftarrow> quantity_from_raw
          (u64_saturating_add (q_raw (o_overfill_qty c)) overfill_raw) (q_prec (o_filled_qty c));
        Some (c \<lparr> o_overfill_qty := overfill \<rparr>)
      }
      else Some c)"

definition fill_status ::
    "order_filled \<Rightarrow> quantity \<Rightarrow> ('d, 'f) order_core \<Rightarrow> ('d, 'f) order_core" where
  "fill_status ev new_filled_qty c =
     (if q_raw new_filled_qty < q_raw (o_quantity c)
      then c \<lparr> o_status := PartiallyFilled \<rparr>
      else c \<lparr> o_status := Filled, o_ts_closed := Some (ev_ts_event ev) \<rparr>)"

definition fill_record ::
    "order_filled \<Rightarrow> quantity \<Rightarrow> ('d, 'f) order_core \<Rightarrow> ('d, 'f) order_core" where
  "fill_record ev new_filled_qty c =
     c \<lparr> o_venue_order_id := Some (of_venue_order_id ev),
         o_position_id := of_position_id ev,
         o_trade_ids := o_trade_ids c @ [of_trade_id ev],
         o_last_trade_id := Some (of_trade_id ev),
         o_liquidity_side := Some (of_liquidity_side ev),
         o_filled_qty := new_filled_qty,
         o_leaves_qty := quantity_saturating_sub (o_leaves_qty c) (of_last_qty ev),
         o_ts_last := ev_ts_event ev,
         o_ts_accepted :=
           (if o_ts_accepted c = None then Some (ev_ts_event ev) else o_ts_accepted c) \<rparr>"

definition core_filled ::
    "'f f64_ops \<Rightarrow> order_filled \<Rightarrow> ('d, 'f) order_core \<Rightarrow> ('d, 'f) order_core option" where
  "core_filled F ev c = do {
     new_filled_qty \<leftarrow> quantity_from_raw
       (u64_saturating_add (q_raw (o_filled_qty c)) (q_raw (of_last_qty ev)))
       (q_prec (o_filled_qty c));
     c \<leftarrow> fill_overfill new_filled_qty c;
     core_set_avg_px F (of_last_qty ev) (of_last_px ev)
       (fill_record ev new_filled_qty (fill_status ev new_filled_qty c))
   }"

definition core_set_slippage ::
    "'f f64_ops \<Rightarrow> price \<Rightarrow> ('d, 'f) order_core \<Rightarrow> ('d, 'f) order_core" where
  "core_set_slippage F px c =
     c \<lparr> o_slippage :=
       (case o_avg_px c of
          None \<Rightarrow> None
        | Some avg_px \<Rightarrow>
            let current_price = price_as_f64 F px
            in (case o_side c of
                  Buy \<Rightarrow> if f64_lt F current_price avg_px
                         then Some (f64_sub F avg_px current_price) else None
                | Sell \<Rightarrow> if f64_lt F avg_px current_price
                          then Some (f64_sub F current_price avg_px) else None
                | NoOrderSide \<Rightarrow> None)) \<rparr>"

section \<open>Applying an event\<close>

fun is_init_or_reject_event :: "'d order_event \<Rightarrow> bool" where
  "is_init_or_reject_event (EvInitialized _) = True"
| "is_init_or_reject_event (EvModifyRejected _) = True"
| "is_init_or_reject_event (EvCancelRejected _) = True"
| "is_init_or_reject_event _ = False"

fun core_dispatch ::
    "'f f64_ops \<Rightarrow> 'd order_event \<Rightarrow> ('d, 'f) order_core \<Rightarrow> (order_error + ('d, 'f) order_core) option"
where
  "core_dispatch F (EvInitialized _) c = Some (Inl AlreadyInitialized)"
| "core_dispatch F (EvDenied ev) c = Some (Inr (core_denied ev c))"
| "core_dispatch F (EvEmulated ev) c = Some (Inr (core_emulated ev c))"
| "core_dispatch F (EvReleased ev) c = Some (Inr (core_released ev c))"
| "core_dispatch F (EvSubmitted ev) c = Some (Inr (core_submitted ev c))"
| "core_dispatch F (EvRejected ev) c = Some (Inr (core_rejected ev c))"
| "core_dispatch F (EvAccepted ev) c = Some (Inr (core_accepted ev c))"
| "core_dispatch F (EvPendingUpdate ev) c = Some (Inr (core_pending_update ev c))"
| "core_dispatch F (EvPendingCancel ev) c = Some (Inr (core_pending_cancel ev c))"
| "core_dispatch F (EvModifyRejected ev) c = Some (core_modify_rejected ev c)"
| "core_dispatch F (EvCancelRejected ev) c = Some (core_cancel_rejected ev c)"
| "core_dispatch F (EvUpdated ev) c = Some (Inr (core_updated ev c))"
| "core_dispatch F (EvTriggered ev) c = Some (Inr (core_triggered ev c))"
| "core_dispatch F (EvCanceled ev) c = Some (Inr (core_canceled ev c))"
| "core_dispatch F (EvExpired ev) c = Some (Inr (core_expired ev c))"
| "core_dispatch F (EvFilled ev) c = map_option Inr (core_filled F ev c)"

fun is_triggered_event :: "'d order_event \<Rightarrow> bool" where
  "is_triggered_event (EvTriggered _) = True"
| "is_triggered_event _ = False"

definition duplicate_trade :: "'d order_event \<Rightarrow> string list \<Rightarrow> string option" where
  "duplicate_trade event trade_ids =
     (case event of
        EvFilled fill \<Rightarrow> if of_trade_id fill \<in> set trade_ids then Some (of_trade_id fill) else None
      | _ \<Rightarrow> None)"

definition remember_status :: "'d order_event \<Rightarrow> ('d, 'f) order_core \<Rightarrow> ('d, 'f) order_core" where
  "remember_status event c =
     (if \<not> is_init_or_reject_event event \<and> o_status c \<notin> {PendingUpdate, PendingCancel}
      then c \<lparr> o_previous_status := Some (o_status c) \<rparr> else c)"

text \<open>The result of \<open>apply\<close>: the error if there was one, and the order as the call leaves it.\<close>

definition core_apply ::
    "'f f64_ops \<Rightarrow> 'd order_event \<Rightarrow> ('d, 'f) order_core \<Rightarrow>
     (order_error option \<times> ('d, 'f) order_core) option" where
  "core_apply F event c =
     (if o_client_order_id c \<noteq> event_client_order_id event
      then Some (Some (Invariant (PredicateViolation ''Event client_order_id does not match'')), c)
      else if o_strategy_id c \<noteq> event_strategy_id event
      then Some (Some (Invariant (PredicateViolation ''Event strategy_id does not match'')), c)
      else
        let c = remember_status event c
        in case duplicate_trade event (o_trade_ids c) of
             Some t \<Rightarrow> Some (Some (DuplicateFill t), c)
           | None \<Rightarrow>
             if is_triggered_event event \<and> o_order_type c \<notin> set TRIGGERABLE_ORDER_TYPES
             then Some (Some InvalidOrderEvent, c)
             else (case transition (o_status c) event of
                 Inl e \<Rightarrow> Some (Some e, c)
               | Inr new_status \<Rightarrow>
                 let c = c \<lparr> o_status := new_status \<rparr>
                 in (case core_dispatch F event c of
                       None \<Rightarrow> None
                     | Some (Inl e) \<Rightarrow> Some (Some e, c)
                     | Some (Inr c') \<Rightarrow>
                         Some (None, c' \<lparr> o_ts_last := event_ts_event event,
                                          o_events := o_events c' @ [event] \<rparr>))))"

section \<open>Queries\<close>

definition calculate_overfill :: "('d, 'f) order_core \<Rightarrow> quantity \<Rightarrow> quantity option" where
  "calculate_overfill c fill_qty = do {
     potential_filled \<leftarrow> quantity_add (o_filled_qty c) fill_qty;
     if q_raw potential_filled > q_raw (o_quantity c)
     then quantity_sub potential_filled (o_quantity c)
     else quantity_zero (q_prec fill_qty)
   }"

definition is_duplicate_fill :: "('d, 'f) order_core \<Rightarrow> order_filled \<Rightarrow> bool" where
  "is_duplicate_fill c fill =
     list_ex (\<lambda>event. case event of
         EvFilled existing \<Rightarrow>
           of_trade_id existing = of_trade_id fill \<and> of_order_side existing = of_order_side fill \<and>
           q_raw (of_last_qty existing) = q_raw (of_last_qty fill) \<and>
           p_raw (of_last_px existing) = p_raw (of_last_px fill)
       | _ \<Rightarrow> False) (o_events c)"

definition emulation_active :: "('d, 'f) order_core \<Rightarrow> bool" where
  "emulation_active c \<longleftrightarrow> (case o_emulation_trigger c of Some t \<Rightarrow> t \<noteq> NoTrigger | None \<Rightarrow> False)"

definition order_is_active_local :: "('d, 'f) order_core \<Rightarrow> bool" where
  "order_is_active_local c \<longleftrightarrow> o_status c \<in> {Initialized, Emulated, Released}"

definition order_is_open :: "('d, 'f) order_core \<Rightarrow> bool" where
  "order_is_open c =
     (if emulation_active c then False
      else o_status c \<in> {Accepted, Triggered, PendingCancel, PendingUpdate, PartiallyFilled})"

definition order_is_closed :: "('d, 'f) order_core \<Rightarrow> bool" where
  "order_is_closed c \<longleftrightarrow> o_status c \<in> {Denied, Rejected, Canceled, Expired, Filled}"

definition order_is_inflight :: "('d, 'f) order_core \<Rightarrow> bool" where
  "order_is_inflight c =
     (if emulation_active c then False
      else o_status c \<in> {Submitted, PendingCancel, PendingUpdate})"

fun opposite_side :: "order_side \<Rightarrow> order_side" where
  "opposite_side Buy = Sell"
| "opposite_side Sell = Buy"
| "opposite_side NoOrderSide = NoOrderSide"

fun closing_side :: "position_side \<Rightarrow> order_side" where
  "closing_side Long = Sell"
| "closing_side Short = Buy"
| "closing_side Flat = NoOrderSide"
| "closing_side NoPositionSide = NoOrderSide"

definition would_reduce_only :: "('d, 'f) order_core \<Rightarrow> position_side \<Rightarrow> quantity \<Rightarrow> bool" where
  "would_reduce_only c side position_qty =
     (if side = Flat then False
      else case (o_side c, side) of
        (Buy, Long) \<Rightarrow> False
      | (Buy, Short) \<Rightarrow> q_raw (o_leaves_qty c) \<le> q_raw position_qty
      | (Sell, Short) \<Rightarrow> False
      | (Sell, Long) \<Rightarrow> q_raw (o_leaves_qty c) \<le> q_raw position_qty
      | _ \<Rightarrow> True)"

definition order_commission :: "('d, 'f) order_core \<Rightarrow> currency \<Rightarrow> money option" where
  "order_commission c cur =
     map_option snd (List.find (\<lambda>p. currency_eq (fst p) cur) (o_commissions c))"

definition init_event :: "('d, 'f) order_core \<Rightarrow> 'd order_event option" where
  "init_event c = (case o_events c of [] \<Rightarrow> None | e # _ \<Rightarrow> Some e)"

definition fills :: "'d order_event list \<Rightarrow> order_filled list" where
  "fills evs = concat (map (\<lambda>e. case e of EvFilled f \<Rightarrow> [f] | _ \<Rightarrow> []) evs)"

definition fill_total :: "'d order_event list \<Rightarrow> nat" where
  "fill_total evs = sum_list (map (\<lambda>f. q_raw (of_last_qty f)) (fills evs))"

definition request_pending :: "order_status \<Rightarrow> bool" where
  "request_pending s \<longleftrightarrow> s \<in> {PendingUpdate, PendingCancel}"

definition requestable :: "order_status \<Rightarrow> bool" where
  "requestable s \<longleftrightarrow> s \<in> {Submitted, Accepted, Triggered, PartiallyFilled}"

definition qty_inv :: "('d, 'f) order_core \<Rightarrow> bool" where
  "qty_inv c \<longleftrightarrow>
     q_raw (o_quantity c) \<le> U64_MAX \<and> q_prec (o_filled_qty c) \<le> FIXED_PRECISION \<and>
     q_raw (o_filled_qty c) = min U64_MAX (fill_total (o_events c)) \<and>
     q_raw (o_leaves_qty c) = q_raw (o_quantity c) - q_raw (o_filled_qty c) \<and>
     q_raw (o_overfill_qty c) =
       (if o_status c = Filled then q_raw (o_filled_qty c) - q_raw (o_quantity c) else 0) \<and>
     (o_status c = Filled \<longrightarrow> q_raw (o_quantity c) \<le> q_raw (o_filled_qty c))"

definition status_inv :: "('d, 'f) order_core \<Rightarrow> bool" where
  "status_inv c \<longleftrightarrow>
     (request_pending (o_status c) \<longrightarrow>
        (\<exists>s. o_previous_status c = Some s \<and> requestable s)) \<and>
     (status_is_closed (o_status c) \<longrightarrow> o_ts_closed c \<noteq> None)"

definition history_inv :: "('d, 'f) order_core \<Rightarrow> bool" where
  "history_inv c \<longleftrightarrow>
     o_trade_ids c = map of_trade_id (fills (o_events c)) \<and> distinct (o_trade_ids c) \<and>
     o_events c \<noteq> [] \<and> o_ts_last c = event_ts_event (last (o_events c))"

definition order_inv :: "('d, 'f) order_core \<Rightarrow> bool" where
  "order_inv c \<longleftrightarrow> qty_inv c \<and> status_inv c \<and> history_inv c"

text \<open>The values an event carries fit their types.\<close>

fun event_typed :: "'d order_event \<Rightarrow> bool" where
  "event_typed (EvUpdated u) \<longleftrightarrow> q_raw (ou_quantity u) \<le> U64_MAX"
| "event_typed _ \<longleftrightarrow> True"

definition notional :: "order_filled list \<Rightarrow> rat" where
  "notional fs = sum_list (map (\<lambda>f. of_int (p_raw (of_last_px f)) / 10 ^ 9 * of_nat (q_raw (of_last_qty f))) fs)"

definition avg_inv :: "('d, rat) order_core \<Rightarrow> bool" where
  "avg_inv c \<longleftrightarrow>
     (case o_avg_px c of
        None \<Rightarrow> fills (o_events c) = []
      | Some a \<Rightarrow> fills (o_events c) \<noteq> [] \<and>
          a * of_nat (q_raw (o_filled_qty c)) = notional (fills (o_events c)))"

section \<open>The state machine\<close>

text \<open>What each event demands of the status and where it leads.\<close>

lemma transition_terminal:
  "status_is_closed s \<Longrightarrow> transition s ev = Inr s' \<Longrightarrow> s = Canceled \<and> s' = Filled \<and> (\<exists>f. ev = EvFilled f)"
  by (cases s; cases ev; simp add: transition_def status_is_closed_def)

lemma transition_initialized_event: "transition s (EvInitialized i) = Inl InvalidStateTransition"
  by (cases s) (simp_all add: transition_def)

lemma transition_error: "transition s ev = Inl e \<Longrightarrow> e = InvalidStateTransition"
  by (cases s; cases ev; simp add: transition_def)

lemma transition_pending:
  "transition s ev = Inr s' \<Longrightarrow> s' \<in> {PendingUpdate, PendingCancel} \<Longrightarrow>
   s \<in> {Submitted, Accepted, Triggered, PartiallyFilled, PendingUpdate, PendingCancel}"
  by (cases s; cases ev; simp add: transition_def)

lemma transition_filled: "transition s (EvFilled f) = Inr s' \<Longrightarrow> s' = Filled \<and> s \<noteq> Filled"
  by (cases s) (simp_all add: transition_def)

lemma transition_reject_requests:
  "transition s (EvModifyRejected m) = Inr s' \<Longrightarrow> s = PendingUpdate \<and> s' = PendingUpdate"
  "transition s (EvCancelRejected x) = Inr s' \<Longrightarrow> s = PendingCancel \<and> s' = PendingCancel"
  by (cases s; simp add: transition_def)+

lemma transition_updated: "transition s (EvUpdated u) = Inr s' \<Longrightarrow> s' = s \<and> \<not> status_is_closed s"
  by (cases s) (simp_all add: transition_def status_is_closed_def)

lemma transition_not_fill:
  "transition s ev = Inr s' \<Longrightarrow> \<not> (\<exists>f. ev = EvFilled f) \<Longrightarrow> s \<noteq> Filled \<and> s' \<noteq> Filled"
  by (cases s; cases ev; simp add: transition_def)

text \<open>Events that close an order are those whose handler stamps \<open>ts_closed\<close>.\<close>

lemma transition_closes:
  "transition s ev = Inr s' \<Longrightarrow> status_is_closed s' \<Longrightarrow>
   (\<exists>x. ev = EvDenied x) \<or> (\<exists>x. ev = EvRejected x) \<or> (\<exists>x. ev = EvCanceled x) \<or>
   (\<exists>x. ev = EvExpired x) \<or> (\<exists>x. ev = EvFilled x)"
  by (cases s; cases ev; simp add: transition_def status_is_closed_def)

section \<open>The invariant of an order\<close>

lemma fills_simps [simp]:
  "fills [] = []" "fills (evs @ evs') = fills evs @ fills evs'" "fills [EvFilled f] = [f]"
  by (simp_all add: fills_def)

lemma fills_single: "fills [ev] = (case ev of EvFilled f \<Rightarrow> [f] | _ \<Rightarrow> [])"
  by (simp add: fills_def)

lemma fills_not_filled: "\<not> (\<exists>f. ev = EvFilled f) \<Longrightarrow> fills [ev] = []"
  by (cases ev) (simp_all add: fills_def)

lemma fill_total_append [simp]: "fill_total (evs @ evs') = fill_total evs + fill_total evs'"
  by (simp add: fill_total_def)

lemma fill_total_single [simp]: "fill_total [EvFilled f] = q_raw (of_last_qty f)"
  by (simp add: fill_total_def)

lemma fill_total_not_filled: "\<not> (\<exists>f. ev = EvFilled f) \<Longrightarrow> fill_total [ev] = 0"
  by (simp add: fill_total_def fills_not_filled)

text \<open>How a call to \<open>apply\<close> ends.\<close>

lemma remember_status_fields [simp]:
  "o_status (remember_status ev c) = o_status c"
  "o_trade_ids (remember_status ev c) = o_trade_ids c"
  "o_events (remember_status ev c) = o_events c"
  "o_quantity (remember_status ev c) = o_quantity c"
  "o_filled_qty (remember_status ev c) = o_filled_qty c"
  "o_leaves_qty (remember_status ev c) = o_leaves_qty c"
  "o_overfill_qty (remember_status ev c) = o_overfill_qty c"
  "o_ts_closed (remember_status ev c) = o_ts_closed c"
  "o_ts_last (remember_status ev c) = o_ts_last c"
  "o_order_type (remember_status ev c) = o_order_type c"
  "o_commissions (remember_status ev c) = o_commissions c"
  "o_avg_px (remember_status ev c) = o_avg_px c"
  by (simp_all add: remember_status_def)

lemma remember_status_previous:
  "request_pending (o_status c) \<Longrightarrow> remember_status ev c = c"
  by (simp add: remember_status_def request_pending_def)

lemma core_dispatch_error:
  assumes "transition (o_status c) ev = Inr s"
    and "core_dispatch F ev (remember_status ev c \<lparr> o_status := s \<rparr>) = Some (Inl e)"
  shows "remember_status ev c \<lparr> o_status := s \<rparr> = remember_status ev c"
proof -
  have "o_status c = s"
    using assms by (cases ev)
      (auto simp: transition_initialized_event dest: transition_reject_requests)
  then have "o_status (remember_status ev c) = s" by simp
  then show ?thesis by simp
qed

lemma core_apply_Some:
  assumes "core_apply F ev c = Some (r, c')"
  obtains (error) "r \<noteq> None" and "c' = c \<or> c' = remember_status ev c"
  | (ok) s c1 where "r = None" and "o_client_order_id c = event_client_order_id ev"
    and "duplicate_trade ev (o_trade_ids c) = None"
    and "transition (o_status c) ev = Inr s"
    and "core_dispatch F ev (remember_status ev c \<lparr> o_status := s \<rparr>) = Some (Inr c1)"
    and "c' = c1 \<lparr> o_ts_last := event_ts_event ev, o_events := o_events c1 @ [ev] \<rparr>"
proof (cases "o_client_order_id c = event_client_order_id ev \<and> o_strategy_id c = event_strategy_id ev \<and>
    duplicate_trade ev (o_trade_ids c) = None \<and>
    (is_triggered_event ev \<longrightarrow> o_order_type c \<in> set TRIGGERABLE_ORDER_TYPES)")
  case False
  then show thesis using assms error
    by (auto simp: core_apply_def Let_def split: if_splits option.splits)
next
  case True
  then have step: "core_apply F ev c = (case transition (o_status c) ev of
      Inl e \<Rightarrow> Some (Some e, remember_status ev c)
    | Inr s \<Rightarrow> (case core_dispatch F ev (remember_status ev c \<lparr> o_status := s \<rparr>) of
        None \<Rightarrow> None
      | Some (Inl e) \<Rightarrow> Some (Some e, remember_status ev c \<lparr> o_status := s \<rparr>)
      | Some (Inr c') \<Rightarrow> Some (None, c' \<lparr> o_ts_last := event_ts_event ev,
                                       o_events := o_events c' @ [ev] \<rparr>)))"
    unfolding core_apply_def Let_def by auto
  show thesis
  proof (cases "transition (o_status c) ev")
    case (Inl e)
    then show thesis using assms error by (auto simp: step)
  next
    case (Inr s)
    then obtain d where d: "core_dispatch F ev (remember_status ev c \<lparr> o_status := s \<rparr>) = Some d"
      using assms by (auto simp: step split: option.splits)
    show thesis
    proof (cases d)
      case (Inl e)
      then show thesis
        using assms error d \<open>transition _ _ = Inr s\<close> core_dispatch_error [OF \<open>transition _ _ = Inr s\<close>, of F e]
        by (auto simp: step)
    next
      case (Inr c1)
      then show thesis
        using assms ok [of s c1] d True \<open>transition _ _ = Inr s\<close> by (simp add: step)
    qed
  qed
qed

lemma quantity_from_raw_Some:
  "quantity_from_raw r p = Some q \<Longrightarrow> q_raw q = r \<and> q_prec q = p \<and> p \<le> FIXED_PRECISION"
  by (auto simp: quantity_from_raw_def check_fixed_precision_def split: bind_splits if_splits)

lemma quantity_from_raw_ok:
  "r \<le> QUANTITY_RAW_MAX \<Longrightarrow> p \<le> FIXED_PRECISION \<Longrightarrow>
   quantity_from_raw r p = Some \<lparr> q_raw = r, q_prec = p \<rparr>"
  by (simp add: quantity_from_raw_def check_fixed_precision_def QUANTITY_UNDEF_def
      QUANTITY_RAW_MAX_def U64_MAX_def)

lemma core_set_avg_px_fields:
  assumes "core_set_avg_px F q p c = Some c'"
  shows "\<exists>a. c' = c \<lparr> o_avg_px := Some a \<rparr>"
  using assms by (auto simp: core_set_avg_px_def Let_def split: option.splits bind_splits)

lemma fill_overfill_Some:
  assumes "fill_overfill n c = Some c'"
  obtains q where "c' = c \<lparr> o_overfill_qty := q \<rparr>"
    and "q_raw q = (if q_raw (o_quantity c) < q_raw n
      then min U64_MAX (q_raw (o_overfill_qty c) + (q_raw n - q_raw (o_quantity c)))
      else q_raw (o_overfill_qty c))"
proof (cases "q_raw (o_quantity c) < q_raw n")
  case True
  then obtain q where "c' = c \<lparr> o_overfill_qty := q \<rparr>" and "quantity_from_raw
      (u64_saturating_add (q_raw (o_overfill_qty c)) (q_raw n - q_raw (o_quantity c)))
      (q_prec (o_filled_qty c)) = Some q"
    using assms by (auto simp: fill_overfill_def split: bind_splits)
  with True that show thesis
    by (auto dest!: quantity_from_raw_Some simp: u64_saturating_add_def)
next
  case False
  then show thesis using that [of "o_overfill_qty c"] assms by (simp add: fill_overfill_def)
qed

text \<open>The fields the fill handler leaves behind.\<close>

lemma core_filled_Some:
  assumes "core_filled F ev c = Some c'"
  obtains n q a where
    "q_raw n = min U64_MAX (q_raw (o_filled_qty c) + q_raw (of_last_qty ev)) \<and>
     q_prec n \<le> FIXED_PRECISION"
    and "q_raw q = (if q_raw (o_quantity c) < q_raw n
      then min U64_MAX (q_raw (o_overfill_qty c) + (q_raw n - q_raw (o_quantity c)))
      else q_raw (o_overfill_qty c))"
    and "c' = (fill_record ev n (fill_status ev n (c \<lparr> o_overfill_qty := q \<rparr>))) \<lparr> o_avg_px := Some a \<rparr>"
    and "core_set_avg_px F (of_last_qty ev) (of_last_px ev)
      (fill_record ev n (fill_status ev n (c \<lparr> o_overfill_qty := q \<rparr>))) = Some c'"
proof -
  obtain n c1 where n: "quantity_from_raw
      (u64_saturating_add (q_raw (o_filled_qty c)) (q_raw (of_last_qty ev)))
      (q_prec (o_filled_qty c)) = Some n"
    and c1: "fill_overfill n c = Some c1"
    and av: "core_set_avg_px F (of_last_qty ev) (of_last_px ev)
       (fill_record ev n (fill_status ev n c1)) = Some c'"
    using assms by (auto simp: core_filled_def split: bind_splits)
  obtain q where q: "c1 = c \<lparr> o_overfill_qty := q \<rparr>"
    "q_raw q = (if q_raw (o_quantity c) < q_raw n
      then min U64_MAX (q_raw (o_overfill_qty c) + (q_raw n - q_raw (o_quantity c)))
      else q_raw (o_overfill_qty c))"
    using fill_overfill_Some [OF c1] .
  obtain a where "c' = (fill_record ev n (fill_status ev n c1)) \<lparr> o_avg_px := Some a \<rparr>"
    using core_set_avg_px_fields [OF av] by blast
  then show thesis
    using that [of n q a] q av quantity_from_raw_Some [OF n] by (simp add: u64_saturating_add_def)
qed

lemma fill_record_fields [simp]:
  "o_filled_qty (fill_record ev n c) = n"
  "o_leaves_qty (fill_record ev n c) = quantity_saturating_sub (o_leaves_qty c) (of_last_qty ev)"
  "o_overfill_qty (fill_record ev n c) = o_overfill_qty c"
  "o_quantity (fill_record ev n c) = o_quantity c"
  "o_status (fill_record ev n c) = o_status c"
  "o_ts_closed (fill_record ev n c) = o_ts_closed c"
  "o_trade_ids (fill_record ev n c) = o_trade_ids c @ [of_trade_id ev]"
  "o_events (fill_record ev n c) = o_events c"
  "o_previous_status (fill_record ev n c) = o_previous_status c"
  "o_commissions (fill_record ev n c) = o_commissions c"
  "o_venue_order_id (fill_record ev n c) = Some (of_venue_order_id ev)"
  "o_last_trade_id (fill_record ev n c) = Some (of_trade_id ev)"
  "o_avg_px (fill_record ev n c) = o_avg_px c"
  by (simp_all add: fill_record_def)

lemma fill_status_fields [simp]:
  "o_leaves_qty (fill_status ev n c) = o_leaves_qty c"
  "o_overfill_qty (fill_status ev n c) = o_overfill_qty c"
  "o_quantity (fill_status ev n c) = o_quantity c"
  "o_status (fill_status ev n c) = (if q_raw n < q_raw (o_quantity c) then PartiallyFilled else Filled)"
  "o_ts_closed (fill_status ev n c) =
     (if q_raw n < q_raw (o_quantity c) then o_ts_closed c else Some (ev_ts_event ev))"
  "o_trade_ids (fill_status ev n c) = o_trade_ids c"
  "o_events (fill_status ev n c) = o_events c"
  "o_previous_status (fill_status ev n c) = o_previous_status c"
  "o_commissions (fill_status ev n c) = o_commissions c"
  "o_filled_qty (fill_status ev n c) = o_filled_qty c"
  "o_avg_px (fill_status ev n c) = o_avg_px c"
  by (simp_all add: fill_status_def)

lemmas core_handler_defs =
  core_denied_def core_emulated_def core_released_def core_submitted_def core_accepted_def
  core_rejected_def core_pending_update_def core_pending_cancel_def core_modify_rejected_def
  core_cancel_rejected_def core_triggered_def core_canceled_def core_expired_def

lemma core_updated_fields:
  "o_quantity (core_updated u c) = o_quantity c" "o_filled_qty (core_updated u c) = o_filled_qty c"
  "o_leaves_qty (core_updated u c) = o_leaves_qty c"
  "o_overfill_qty (core_updated u c) = o_overfill_qty c"
  "o_trade_ids (core_updated u c) = o_trade_ids c" "o_events (core_updated u c) = o_events c"
  "o_commissions (core_updated u c) = o_commissions c"
  "o_ts_closed (core_updated u c) = o_ts_closed c"
  "o_previous_status (core_updated u c) = o_previous_status c"
  "o_avg_px (core_updated u c) = o_avg_px c"
  "o_status (core_updated u c) =
     (case o_previous_status c of
        Some p \<Rightarrow> if o_status c = PendingUpdate then p else o_status c
      | None \<Rightarrow> o_status c)"
  by (simp_all add: core_updated_def Let_def split: option.splits)

text \<open>No handler but that of a fill touches the quantities or the trade history.\<close>

lemma core_dispatch_not_fill:
  assumes "core_dispatch F ev c = Some (Inr c')" and "\<not> (\<exists>f. ev = EvFilled f)"
  shows "o_quantity c' = o_quantity c \<and> o_filled_qty c' = o_filled_qty c \<and>
    o_leaves_qty c' = o_leaves_qty c \<and> o_overfill_qty c' = o_overfill_qty c \<and>
    o_trade_ids c' = o_trade_ids c \<and> o_events c' = o_events c \<and>
    o_previous_status c' = o_previous_status c \<and> o_avg_px c' = o_avg_px c"
  using assms by (cases ev)
    (auto simp: core_handler_defs core_updated_fields split: option.splits)

lemma core_dispatch_commissions:
  assumes "core_dispatch F ev c = Some (Inr c')"
  shows "o_commissions c' = o_commissions c"
  using assms by (cases ev)
    (auto simp: core_handler_defs core_updated_fields elim!: core_filled_Some split: option.splits)

text \<open>The status a successful \<open>apply\<close> leaves for events other than fills.\<close>

lemma core_dispatch_status:
  assumes "core_dispatch F ev c = Some (Inr c')" and "\<not> (\<exists>f. ev = EvFilled f)"
  shows "o_status c' = o_status c \<or> (o_previous_status c = Some (o_status c') \<and>
    ((\<exists>x. ev = EvModifyRejected x) \<or> (\<exists>x. ev = EvCancelRejected x) \<or>
     ((\<exists>x. ev = EvUpdated x) \<and> o_status c = PendingUpdate)))"
  using assms by (cases ev)
    (auto simp: core_handler_defs core_updated_fields split: option.splits if_splits)

lemma core_dispatch_closes:
  assumes "core_dispatch F ev c = Some (Inr c')" and "\<not> (\<exists>f. ev = EvFilled f)"
    and "transition s ev = Inr (o_status c)" and "status_is_closed (o_status c)"
  shows "o_ts_closed c' \<noteq> None"
  using assms transition_closes [OF assms(3,4)]
  by (auto simp: core_handler_defs)

lemma qty_inv_error: "qty_inv (remember_status ev c) = qty_inv c"
  by (simp add: qty_inv_def)

lemma history_inv_error: "history_inv (remember_status ev c) = history_inv c"
  by (simp add: history_inv_def)

lemma status_inv_error: "status_inv c \<Longrightarrow> status_inv (remember_status ev c)"
  by (cases "request_pending (o_status c)")
    (simp_all add: status_inv_def remember_status_previous)

lemma qty_inv_apply:
  assumes "core_apply F ev c = Some (r, c')" and "qty_inv c"
    and "r = None \<Longrightarrow> \<not> (\<exists>f. ev = EvFilled f) \<Longrightarrow> o_status c' \<noteq> Filled"
  shows "qty_inv c'"
  using assms(1)
proof (cases rule: core_apply_Some)
  case error
  then show ?thesis using assms(2) qty_inv_error by blast
next
  case (ok s c1)
  note tr = ok(4) and d = ok(5) and c' = ok(6)
  show ?thesis
  proof (cases "\<exists>f. ev = EvFilled f")
    case False
    have "o_status c \<noteq> Filled" using transition_not_fill [OF tr] False by blast
    moreover have "o_status c1 \<noteq> Filled" using assms(3) ok False by simp
    ultimately show ?thesis
      using assms(2) core_dispatch_not_fill [OF d False] fill_total_not_filled [OF False]
      by (simp add: c' qty_inv_def)
  next
    case True
    then obtain f where f: "ev = EvFilled f" by blast
    have nf: "o_status c \<noteq> Filled" using tr transition_filled f by blast
    have "core_filled F f (remember_status ev c \<lparr> o_status := s \<rparr>) = Some c1" using d f by simp
    then show ?thesis
    proof (rule core_filled_Some)
      fix n q a
      assume n: "q_raw n = min U64_MAX
          (q_raw (o_filled_qty (remember_status ev c \<lparr> o_status := s \<rparr>)) + q_raw (of_last_qty f)) \<and>
          q_prec n \<le> FIXED_PRECISION"
        and q: "q_raw q = (if q_raw (o_quantity (remember_status ev c \<lparr> o_status := s \<rparr>)) < q_raw n
          then min U64_MAX (q_raw (o_overfill_qty (remember_status ev c \<lparr> o_status := s \<rparr>)) +
            (q_raw n - q_raw (o_quantity (remember_status ev c \<lparr> o_status := s \<rparr>))))
          else q_raw (o_overfill_qty (remember_status ev c \<lparr> o_status := s \<rparr>)))"
        and c1: "c1 = (fill_record f n (fill_status f n ((remember_status ev c \<lparr> o_status := s \<rparr>)
          \<lparr> o_overfill_qty := q \<rparr>))) \<lparr> o_avg_px := Some a \<rparr>"
      show ?thesis
        using assms(2) nf n q
        by (auto simp: c' c1 qty_inv_def f quantity_saturating_sub_def min_def split: if_splits)
    qed
  qed
qed

lemma requestable_open: "requestable s \<Longrightarrow> \<not> status_is_closed s \<and> \<not> request_pending s \<and> s \<noteq> Filled"
  by (auto simp: requestable_def status_is_closed_def request_pending_def)

text \<open>A request keeps the status it interrupts; answering it returns there.\<close>

lemma remember_status_request:
  assumes "status_inv c" and "transition (o_status c) ev = Inr s" and "request_pending s"
  shows "\<exists>p. o_previous_status (remember_status ev c) = Some p \<and> requestable p"
proof (cases "request_pending (o_status c)")
  case True
  then show ?thesis using assms(1) by (simp add: remember_status_previous status_inv_def)
next
  case False
  have "s \<in> {PendingUpdate, PendingCancel}" using assms(3) by (simp add: request_pending_def)
  from transition_pending [OF assms(2) this] False
  have "requestable (o_status c)" by (auto simp: requestable_def request_pending_def)
  moreover have "\<not> is_init_or_reject_event ev"
    using assms(2) False
    by (cases ev) (auto simp: transition_initialized_event request_pending_def
        dest: transition_reject_requests)
  ultimately show ?thesis using False
    by (auto simp: remember_status_def request_pending_def)
qed

lemma status_inv_not_fill:
  assumes "status_inv c" and tr: "transition (o_status c) ev = Inr s"
    and d: "core_dispatch F ev (remember_status ev c \<lparr> o_status := s \<rparr>) = Some (Inr c1)"
    and nf: "\<not> (\<exists>f. ev = EvFilled f)"
  shows "status_inv c1 \<and> o_status c1 \<noteq> Filled"
proof -
  note k = core_dispatch_not_fill [OF d nf, simplified]
  from core_dispatch_status [OF d nf, simplified]
  show ?thesis
  proof
    assume eq: "o_status c1 = s"
    have "s \<noteq> Filled" using transition_not_fill [OF tr nf] by simp
    moreover have "request_pending s \<Longrightarrow> \<exists>p. o_previous_status c1 = Some p \<and> requestable p"
      using remember_status_request [OF assms(1) tr] k by simp
    moreover have "status_is_closed s \<Longrightarrow> o_ts_closed c1 \<noteq> None"
      using core_dispatch_closes [OF d nf, simplified, OF tr] by simp
    ultimately show ?thesis by (simp add: status_inv_def eq)
  next
    assume ret: "o_previous_status (remember_status ev c) = Some (o_status c1) \<and>
      ((\<exists>x. ev = EvModifyRejected x) \<or> (\<exists>x. ev = EvCancelRejected x) \<or>
       (\<exists>x. ev = EvUpdated x) \<and> s = PendingUpdate)"
    then have "request_pending s"
      using tr by (auto simp: request_pending_def dest: transition_reject_requests)
    then have "requestable (o_status c1)"
      using remember_status_request [OF assms(1) tr] ret by auto
    then show ?thesis using requestable_open by (auto simp: status_inv_def)
  qed
qed

lemma core_apply_not_fill_status:
  "core_apply F ev c = Some (None, c') \<Longrightarrow> status_inv c \<Longrightarrow> \<not> (\<exists>f. ev = EvFilled f) \<Longrightarrow> o_status c' \<noteq> Filled"
  by (erule core_apply_Some) (auto dest: status_inv_not_fill)

lemma status_inv_apply:
  assumes "core_apply F ev c = Some (r, c')" and "status_inv c"
  shows "status_inv c'"
  using assms(1)
proof (cases rule: core_apply_Some)
  case error
  then show ?thesis using assms(2) status_inv_error by blast
next
  case (ok s c1)
  have keep: "status_inv c' = status_inv c1" by (simp add: ok(6) status_inv_def)
  show ?thesis
  proof (cases "\<exists>f. ev = EvFilled f")
    case False
    then show ?thesis using status_inv_not_fill [OF assms(2) ok(4,5)] keep by simp
  next
    case True
    then obtain f where f: "ev = EvFilled f" by blast
    from ok(5) have "core_filled F f (remember_status ev c \<lparr> o_status := s \<rparr>) = Some c1"
      by (simp add: f)
    then show ?thesis
      by (rule core_filled_Some)
        (simp add: ok(6) status_inv_def request_pending_def status_is_closed_def)
  qed
qed

lemma history_inv_apply:
  assumes "core_apply F ev c = Some (r, c')" and "history_inv c"
  shows "history_inv c'"
  using assms(1)
proof (cases rule: core_apply_Some)
  case error
  then show ?thesis using assms(2) history_inv_error by blast
next
  case (ok s c1)
  show ?thesis
  proof (cases "\<exists>f. ev = EvFilled f")
    case False
    then show ?thesis
      using assms(2) core_dispatch_not_fill [OF ok(5) False] fills_not_filled [OF False]
      by (auto simp: ok(6) history_inv_def)
  next
    case True
    then obtain f where f: "ev = EvFilled f" by blast
    have fresh: "of_trade_id f \<notin> set (o_trade_ids c)"
      using ok(3) by (auto simp: duplicate_trade_def f)
    from ok(5) have "core_filled F f (remember_status ev c \<lparr> o_status := s \<rparr>) = Some c1"
      by (simp add: f)
    then show ?thesis
      by (rule core_filled_Some) (use assms(2) fresh in \<open>auto simp: ok(6) history_inv_def f\<close>)
  qed
qed

lemma order_inv_apply:
  assumes "core_apply F ev c = Some (r, c')" and "order_inv c"
  shows "order_inv c'"
  using assms qty_inv_apply [OF assms(1)] status_inv_apply [OF assms(1)] history_inv_apply [OF assms(1)]
    core_apply_not_fill_status [of F ev c c']
  by (auto simp: order_inv_def)

lemma core_new_Some:
  "core_new init = Some c \<Longrightarrow>
   order_inv c \<longleftrightarrow> q_raw (oi_quantity init) \<le> U64_MAX"
  by (auto simp: core_new_def quantity_zero_def order_inv_def qty_inv_def status_inv_def
      history_inv_def request_pending_def status_is_closed_def fill_total_def fills_def
      check_fixed_precision_def split: bind_splits if_splits)

text \<open>Applying an event panics only where a fill leaves the range of quantities.\<close>

lemma core_set_avg_px_total:
  "q_raw q \<le> q_raw (o_filled_qty c) \<Longrightarrow> core_set_avg_px F q p c \<noteq> None"
  by (auto simp: core_set_avg_px_def quantity_sub_def u64_checked_sub_def Let_def split: option.splits)

lemma core_filled_total:
  assumes "q_raw (o_filled_qty c) + q_raw (of_last_qty f) \<le> QUANTITY_RAW_MAX"
    and "q_prec (o_filled_qty c) \<le> FIXED_PRECISION" and "q_raw (o_overfill_qty c) = 0"
  shows "core_filled F f c \<noteq> None"
proof -
  define n where "n = \<lparr> q_raw = q_raw (o_filled_qty c) + q_raw (of_last_qty f),
    q_prec = q_prec (o_filled_qty c) \<rparr>"
  have max: "QUANTITY_RAW_MAX \<le> U64_MAX" by (simp add: QUANTITY_RAW_MAX_def U64_MAX_def)
  have sat: "u64_saturating_add (q_raw (o_filled_qty c)) (q_raw (of_last_qty f)) = q_raw n"
    using assms(1) max by (simp add: u64_saturating_add_def n_def)
  have n: "quantity_from_raw (q_raw n) (q_prec (o_filled_qty c)) = Some n"
    using assms(1,2) quantity_from_raw_ok by (simp add: n_def)
  have "u64_saturating_add 0 (q_raw n - q_raw (o_quantity c)) \<le> QUANTITY_RAW_MAX"
    using assms(1) by (simp add: u64_saturating_add_def n_def)
  then have "fill_overfill n c \<noteq> None"
    using assms(2,3) by (simp add: fill_overfill_def quantity_from_raw_ok)
  then obtain c1 where c1: "fill_overfill n c = Some c1" by blast
  show ?thesis
    using core_set_avg_px_total [of "of_last_qty f" "fill_record f n (fill_status f n c1)"]
    by (simp add: core_filled_def sat n c1) (simp add: n_def)
qed

lemma core_apply_total:
  assumes "order_inv c"
    and "\<And>f. ev = EvFilled f \<Longrightarrow> fill_total (o_events c) + q_raw (of_last_qty f) \<le> QUANTITY_RAW_MAX"
  shows "core_apply F ev c \<noteq> None"
proof -
  have d: "core_dispatch F ev (remember_status ev c \<lparr> o_status := s \<rparr>) \<noteq> None"
    if tr: "transition (o_status c) ev = Inr s" for s
  proof (cases "\<exists>f. ev = EvFilled f")
    case True
    then obtain f where f: "ev = EvFilled f" by blast
    have "o_status c \<noteq> Filled" using tr f transition_filled by blast
    then show ?thesis
      using assms core_filled_total [of "remember_status ev c \<lparr> o_status := s \<rparr>" f F]
      by (auto simp: f order_inv_def qty_inv_def)
  next
    case False
    then show ?thesis by (cases ev) simp_all
  qed
  show ?thesis
    using d by (auto simp: core_apply_def Let_def split: option.splits sum.splits)
qed

section \<open>The average price\<close>

lemma notional_append [simp]: "notional (xs @ ys) = notional xs + notional ys"
  by (simp add: notional_def)

lemma weighted_average_step:
  fixes a p l x y S :: rat
  assumes "0 < S" and "x + y \<noteq> 0"
  shows "(a * (x / S) + p * (y / S)) / (x / S + y / S) * (x + y) = a * x + p * y"
proof -
  have "x / S + y / S = (x + y) / S" by (simp add: add_divide_distrib)
  moreover have "a * (x / S) + p * (y / S) = (a * x + p * y) / S" by (simp add: add_divide_distrib)
  ultimately show ?thesis using assms by simp
qed

lemma core_set_avg_px_exact:
  assumes "core_set_avg_px exact_f64 lq lp c = Some c'"
    and "q_raw (o_filled_qty c) = x + q_raw lq"
    and "o_avg_px c = None \<Longrightarrow> x = 0" and "\<And>a. o_avg_px c = Some a \<Longrightarrow> a * of_nat x = N"
    and "o_avg_px c = None \<Longrightarrow> N = 0"
  shows "\<exists>b. o_avg_px c' = Some b \<and>
    b * of_nat (x + q_raw lq) = N + of_int (p_raw lp) / 10 ^ 9 * of_nat (q_raw lq)"
proof (cases "o_avg_px c")
  case None
  then have "o_avg_px c' = Some (of_int (p_raw lp) / 10 ^ 9)"
    using assms(1) by (auto simp: core_set_avg_px_def price_as_f64_def FIXED_SCALAR_def)
  moreover have "x = 0" "N = 0" using assms(3,5) None by simp_all
  ultimately show ?thesis by (intro exI [of _ "of_int (p_raw lp) / 10 ^ 9"]) simp
next
  case (Some a0)
  define y p where "y = q_raw lq" and "p = rat_of_int (p_raw lp) / 10 ^ 9"
  have prev: "quantity_sub (o_filled_qty c) lq =
      Some \<lparr> q_raw = x, q_prec = max (q_prec (o_filled_qty c)) (q_prec lq) \<rparr>"
    using assms(2) by (simp add: quantity_sub_def u64_checked_sub_def)
  define b where "b = (a0 * (of_nat x / 10 ^ 9) + p * (of_nat y / 10 ^ 9)) / (of_nat x / 10 ^ 9 + of_nat y / 10 ^ 9)"
  have b: "o_avg_px c' = Some b"
    using assms(1) Some
    by (auto simp: core_set_avg_px_def prev Let_def quantity_as_f64_def price_as_f64_def
        FIXED_SCALAR_def b_def y_def p_def)
  have N: "a0 * of_nat x = N" using assms(4) Some by simp
  have "b * of_nat (x + y) = a0 * of_nat x + p * of_nat y"
  proof (cases "x + y = 0")
    case True
    then show ?thesis by simp
  next
    case False
    then have "rat_of_nat x + rat_of_nat y \<noteq> 0"
      by (metis of_nat_add of_nat_eq_0_iff)
    then show ?thesis unfolding b_def of_nat_add by (intro weighted_average_step) simp_all
  qed
  then show ?thesis using b N by (simp add: y_def p_def)
qed

lemma avg_inv_apply:
  assumes "core_apply exact_f64 ev c = Some (r, c')" and "order_inv c" and "avg_inv c"
    and "fill_total (o_events c') \<le> U64_MAX"
  shows "avg_inv c'"
  using assms(1)
proof (cases rule: core_apply_Some)
  case error
  then show ?thesis using assms(3) by (auto simp: avg_inv_def split: option.splits)
next
  case (ok s c1)
  show ?thesis
  proof (cases "\<exists>f. ev = EvFilled f")
    case False
    then show ?thesis
      using assms(3) core_dispatch_not_fill [OF ok(5) False] fills_not_filled [OF False]
      by (simp add: ok(6) avg_inv_def split: option.splits)
  next
    case True
    then obtain f where f: "ev = EvFilled f" by blast
    let ?c0 = "remember_status ev c \<lparr> o_status := s \<rparr>"
    from ok(5) have "core_filled exact_f64 f ?c0 = Some c1" by (simp add: f)
    then obtain n q a where n: "q_raw n = min U64_MAX (q_raw (o_filled_qty c) + q_raw (of_last_qty f))"
      and c1: "c1 = (fill_record f n (fill_status f n (?c0 \<lparr> o_overfill_qty := q \<rparr>))) \<lparr> o_avg_px := Some a \<rparr>"
      and av: "core_set_avg_px exact_f64 (of_last_qty f) (of_last_px f)
        (fill_record f n (fill_status f n (?c0 \<lparr> o_overfill_qty := q \<rparr>))) = Some c1"
      by (rule core_filled_Some) auto
    have ev: "o_events c' = o_events c @ [EvFilled f]" by (simp add: ok(6) c1 f)
    have filled: "q_raw (o_filled_qty c) = fill_total (o_events c)"
      and n': "q_raw n = q_raw (o_filled_qty c) + q_raw (of_last_qty f)"
      using assms(2,4) n by (auto simp: order_inv_def qty_inv_def ev)
    have "\<exists>b. o_avg_px c1 = Some b \<and> b * of_nat (q_raw (o_filled_qty c) + q_raw (of_last_qty f))
        = notional (fills (o_events c)) + of_int (p_raw (of_last_px f)) / 10 ^ 9 * of_nat (q_raw (of_last_qty f))"
      using assms(3)
      by (intro core_set_avg_px_exact [OF av])
        (auto simp: n' avg_inv_def filled fill_total_def notional_def split: option.splits)
    then show ?thesis
      by (auto simp: ok(6) c1 avg_inv_def ev n' notional_def f)
  qed
qed

end
