(* ===== verification/Order_Types.thy ===== *)
theory Order_Types
  imports Orders
begin

text \<open>
  The nine order types of \<open>model/src/orders/*.rs\<close> and the enum \<open>OrderAny\<close> of
  \<open>model/src/orders/any.rs\<close>.

  Each type is a record with the shared core and its own fields, with its constructor
  \<open>new_checked\<close>, the conversion from an \<open>OrderInitialized\<close> event, \<open>update\<close> (which may panic on a
  price the type does not have) and \<open>apply\<close>.  The positional parameters the constructors share
  are the fields of the record \<open>order_args\<close>; a constructor that lacks a parameter does not read
  the field.  \<open>OrderAny\<close> dispatches, and \<open>from_events\<close> rebuilds an order from its history.
\<close>

record order_args =
  a_trader_id :: string
  a_strategy_id :: string
  a_instrument_id :: string
  a_client_order_id :: string
  a_order_side :: order_side
  a_quantity :: quantity
  a_time_in_force :: time_in_force
  a_expire_time :: "unix_nanos option"
  a_post_only :: bool
  a_reduce_only :: bool
  a_quote_quantity :: bool
  a_display_qty :: "quantity option"
  a_emulation_trigger :: "trigger_type option"
  a_trigger_instrument_id :: "string option"
  a_contingency_type :: "contingency_type option"
  a_order_list_id :: "string option"
  a_linked_order_ids :: "string list option"
  a_parent_order_id :: "string option"
  a_exec_algorithm_id :: "string option"
  a_exec_algorithm_params :: "(string \<times> string) list option"
  a_exec_spawn_id :: "string option"
  a_tags :: "string list option"
  a_init_id :: string
  a_ts_init :: unix_nanos

definition args_of_event :: "'d order_initialized \<Rightarrow> order_args" where
  "args_of_event e =
     \<lparr> a_trader_id = ev_trader_id e, a_strategy_id = ev_strategy_id e,
       a_instrument_id = ev_instrument_id e, a_client_order_id = ev_client_order_id e,
       a_order_side = oi_order_side e, a_quantity = oi_quantity e,
       a_time_in_force = oi_time_in_force e, a_expire_time = oi_expire_time e,
       a_post_only = oi_post_only e, a_reduce_only = oi_reduce_only e,
       a_quote_quantity = oi_quote_quantity e, a_display_qty = oi_display_qty e,
       a_emulation_trigger = oi_emulation_trigger e,
       a_trigger_instrument_id = oi_trigger_instrument_id e,
       a_contingency_type = oi_contingency_type e, a_order_list_id = oi_order_list_id e,
       a_linked_order_ids = oi_linked_order_ids e, a_parent_order_id = oi_parent_order_id e,
       a_exec_algorithm_id = oi_exec_algorithm_id e,
       a_exec_algorithm_params = oi_exec_algorithm_params e,
       a_exec_spawn_id = oi_exec_spawn_id e, a_tags = oi_tags e, a_init_id = ev_event_id e,
       a_ts_init = ev_ts_event e \<rparr>"

text \<open>The part of the \<open>OrderInitialized\<close> event every constructor fills the same way.\<close>

definition init_base :: "order_type \<Rightarrow> order_args \<Rightarrow> 'd order_initialized" where
  "init_base ty a =
     \<lparr> ev_trader_id = a_trader_id a, ev_strategy_id = a_strategy_id a,
       ev_instrument_id = a_instrument_id a, ev_client_order_id = a_client_order_id a,
       ev_event_id = a_init_id a, ev_ts_event = a_ts_init a, ev_ts_init = a_ts_init a,
       oi_order_side = a_order_side a, oi_order_type = ty, oi_quantity = a_quantity a,
       oi_time_in_force = a_time_in_force a, oi_post_only = False,
       oi_reduce_only = a_reduce_only a, oi_quote_quantity = a_quote_quantity a,
       oi_reconciliation = False, oi_price = None, oi_trigger_price = None,
       oi_trigger_type = None, oi_limit_offset = None, oi_trailing_offset = None,
       oi_trailing_offset_type = None, oi_expire_time = None, oi_display_qty = None,
       oi_emulation_trigger = None, oi_trigger_instrument_id = None,
       oi_contingency_type = a_contingency_type a, oi_order_list_id = a_order_list_id a,
       oi_linked_order_ids = a_linked_order_ids a, oi_parent_order_id = a_parent_order_id a,
       oi_exec_algorithm_id = a_exec_algorithm_id a,
       oi_exec_algorithm_params = a_exec_algorithm_params a,
       oi_exec_spawn_id = a_exec_spawn_id a, oi_tags = a_tags a \<rparr>"

definition order_check_quantity :: "quantity \<Rightarrow> order_error + unit" where
  "order_check_quantity q =
     (case check_positive_quantity q ''quantity'' of Inl e \<Rightarrow> Inl (Invariant e) | Inr u \<Rightarrow> Inr u)"

definition check_no_gtd :: "time_in_force \<Rightarrow> order_error + unit" where
  "check_no_gtd tif =
     (if tif = Gtd then Inl (Invariant (PredicateViolation ''GTD not supported for Market orders''))
      else Inr ())"

definition check_touched_prices :: "order_side \<Rightarrow> price \<Rightarrow> price \<Rightarrow> order_error + unit" where
  "check_touched_prices side px tpx =
     (if side = Buy \<and> p_raw tpx > p_raw px
      then Inl (Invariant (PredicateViolation ''BUY Limit-If-Touched must have trigger_price <= price''))
      else if side = Sell \<and> p_raw tpx < p_raw px
      then Inl (Invariant (PredicateViolation ''SELL Limit-If-Touched must have trigger_price >= price''))
      else Inr ())"

text \<open>A constructor: the checks in order, then the core from the initial event, then the struct.\<close>

fun construct ::
    "(order_error + unit) list \<Rightarrow> 'd order_initialized \<Rightarrow> (('d, 'f) order_core \<Rightarrow> 'o) \<Rightarrow>
     (order_error + 'o) option" where
  "construct [] init mk = map_option (\<lambda>c. Inr (mk c)) (core_new init)"
| "construct (Inl e # checks) init mk = Some (Inl e)"
| "construct (Inr _ # checks) init mk = construct checks init mk"

definition require :: "string \<Rightarrow> 'a option \<Rightarrow> ('a \<Rightarrow> (order_error + 'o) option) \<Rightarrow> (order_error + 'o) option"
where
  "require field v k =
     (case v of
        None \<Rightarrow> Some (Inl (Invariant (PredicateViolation (field @ '' is required for initialization''))))
      | Some x \<Rightarrow> k x)"

definition update_quantity :: "order_updated \<Rightarrow> ('d, 'f) order_core \<Rightarrow> ('d, 'f) order_core" where
  "update_quantity ev c =
     c \<lparr> o_quantity := ou_quantity ev,
         o_leaves_qty := quantity_saturating_sub (ou_quantity ev) (o_filled_qty c) \<rparr>"

fun is_filled_event :: "'d order_event \<Rightarrow> bool" where
  "is_filled_event (EvFilled _) = True"
| "is_filled_event _ = False"

section \<open>The order types\<close>

subsection \<open>Market orders\<close>

record ('d, 'f) market_order =
  mo_core :: "('d, 'f) order_core"
  mo_protection_price :: "price option"

definition market_order_new_checked ::
    "order_args \<Rightarrow>
     (order_error + ('d, 'f) market_order) option" where
  "market_order_new_checked a =
     construct [order_check_quantity (a_quantity a), check_no_gtd (a_time_in_force a)]
       (init_base Market a
          \<lparr> oi_trigger_type := Some NoTrigger \<rparr>)
       (\<lambda>c. \<lparr> mo_core = c, mo_protection_price = None \<rparr>)"

definition market_order_update ::
    "order_updated \<Rightarrow> ('d, 'f) market_order \<Rightarrow> ('d, 'f) market_order option" where
  "market_order_update ev ord = do {
     assert_that (ou_price ev = None);
     assert_that (ou_trigger_price ev = None);
     Some (ord \<lparr> mo_protection_price := (case ou_protection_price ev of Some p \<Rightarrow> Some p | None \<Rightarrow> mo_protection_price ord),
       mo_core := update_quantity ev (mo_core ord) \<rparr>)
   }"

definition market_order_apply ::
    "'f f64_ops \<Rightarrow> 'd order_event \<Rightarrow> ('d, 'f) market_order \<Rightarrow>
     (order_error option \<times> ('d, 'f) market_order) option" where
  "market_order_apply F event ord = do {
     (err, c) \<leftarrow> core_apply F event (mo_core ord);
     let ord = ord \<lparr> mo_core := c \<rparr>;
     case err of
       Some e \<Rightarrow> Some (Some e, ord)
     | None \<Rightarrow> do {
           ord \<leftarrow> (case event of EvUpdated ev \<Rightarrow> market_order_update ev ord | _ \<Rightarrow> Some ord);
           Some (None, ord)
         }
   }"

definition market_order_try_from ::
    "'d order_initialized \<Rightarrow> (order_error + ('d, 'f) market_order) option" where
  "market_order_try_from init =
     market_order_new_checked (args_of_event init)"

subsection \<open>Limit orders\<close>

record ('d, 'f) limit_order =
  lo_core :: "('d, 'f) order_core"
  lo_price :: price
  lo_expire_time :: "unix_nanos option"
  lo_is_post_only :: bool
  lo_display_qty :: "quantity option"
  lo_trigger_instrument_id :: "string option"

definition limit_order_new_checked ::
    "order_args \<Rightarrow> price \<Rightarrow>
     (order_error + ('d, 'f) limit_order) option" where
  "limit_order_new_checked a px =
     construct [order_check_quantity (a_quantity a), check_display_qty (a_display_qty a) (a_quantity a),
       check_time_in_force (a_time_in_force a) (a_expire_time a)]
       (init_base Limit a
          \<lparr> oi_post_only := a_post_only a, oi_price := Some px,
            oi_expire_time := a_expire_time a, oi_display_qty := a_display_qty a,
            oi_emulation_trigger := a_emulation_trigger a,
            oi_trigger_instrument_id := a_trigger_instrument_id a \<rparr>)
       (\<lambda>c. \<lparr> lo_core = c, lo_price = px, lo_expire_time = a_expire_time a,
             lo_is_post_only = a_post_only a, lo_display_qty = a_display_qty a,
             lo_trigger_instrument_id = a_trigger_instrument_id a \<rparr>)"

definition limit_order_update ::
    "order_updated \<Rightarrow> ('d, 'f) limit_order \<Rightarrow> ('d, 'f) limit_order option" where
  "limit_order_update ev ord = do {
     assert_that (ou_trigger_price ev = None);
     Some (ord \<lparr> lo_price := (case ou_price ev of Some p \<Rightarrow> p | None \<Rightarrow> lo_price ord),
       lo_core := update_quantity ev (lo_core ord) \<rparr>)
   }"

definition limit_order_apply ::
    "'f f64_ops \<Rightarrow> 'd order_event \<Rightarrow> ('d, 'f) limit_order \<Rightarrow>
     (order_error option \<times> ('d, 'f) limit_order) option" where
  "limit_order_apply F event ord = do {
     (err, c) \<leftarrow> core_apply F event (lo_core ord);
     let ord = ord \<lparr> lo_core := c \<rparr>;
     case err of
       Some e \<Rightarrow> Some (Some e, ord)
     | None \<Rightarrow> do {
           ord \<leftarrow> (case event of EvUpdated ev \<Rightarrow> limit_order_update ev ord | _ \<Rightarrow> Some ord);
           let ord = (if is_filled_event event
                      then ord \<lparr> lo_core := core_set_slippage F (lo_price ord) (lo_core ord) \<rparr>
                      else ord);
           Some (None, ord)
         }
   }"

definition limit_order_try_from ::
    "'d order_initialized \<Rightarrow> (order_error + ('d, 'f) limit_order) option" where
  "limit_order_try_from init =
     require ''price'' (oi_price init) (\<lambda>px.
       limit_order_new_checked (args_of_event init) px)"

subsection \<open>Stop market orders\<close>

record ('d, 'f) stop_market_order =
  sm_core :: "('d, 'f) order_core"
  sm_trigger_price :: price
  sm_trigger_type :: trigger_type
  sm_expire_time :: "unix_nanos option"
  sm_display_qty :: "quantity option"
  sm_trigger_instrument_id :: "string option"
  sm_is_triggered :: bool
  sm_ts_triggered :: "unix_nanos option"
  sm_protection_price :: "price option"

definition stop_market_order_new_checked ::
    "order_args \<Rightarrow> price \<Rightarrow> trigger_type \<Rightarrow>
     (order_error + ('d, 'f) stop_market_order) option" where
  "stop_market_order_new_checked a tpx ttype =
     construct [order_check_quantity (a_quantity a), check_display_qty (a_display_qty a) (a_quantity a),
       check_time_in_force (a_time_in_force a) (a_expire_time a)]
       (init_base StopMarket a
          \<lparr> oi_trigger_price := Some tpx, oi_trigger_type := Some ttype,
            oi_expire_time := a_expire_time a, oi_display_qty := a_display_qty a,
            oi_emulation_trigger := a_emulation_trigger a,
            oi_trigger_instrument_id := a_trigger_instrument_id a \<rparr>)
       (\<lambda>c. \<lparr> sm_core = c, sm_trigger_price = tpx, sm_trigger_type = ttype,
             sm_expire_time = a_expire_time a, sm_display_qty = a_display_qty a,
             sm_trigger_instrument_id = a_trigger_instrument_id a, sm_is_triggered = False,
             sm_ts_triggered = None, sm_protection_price = None \<rparr>)"

definition stop_market_order_update ::
    "order_updated \<Rightarrow> ('d, 'f) stop_market_order \<Rightarrow> ('d, 'f) stop_market_order option" where
  "stop_market_order_update ev ord = do {
     assert_that (ou_price ev = None);
     Some (ord \<lparr> sm_trigger_price := (case ou_trigger_price ev of Some p \<Rightarrow> p | None \<Rightarrow> sm_trigger_price ord),
       sm_protection_price := ou_protection_price ev,
       sm_core := update_quantity ev (sm_core ord) \<rparr>)
   }"

definition stop_market_order_apply ::
    "'f f64_ops \<Rightarrow> 'd order_event \<Rightarrow> ('d, 'f) stop_market_order \<Rightarrow>
     (order_error option \<times> ('d, 'f) stop_market_order) option" where
  "stop_market_order_apply F event ord = do {
     (err, c) \<leftarrow> core_apply F event (sm_core ord);
     let ord = ord \<lparr> sm_core := c \<rparr>;
     case err of
       Some e \<Rightarrow> Some (Some e, ord)
     | None \<Rightarrow> do {
           ord \<leftarrow> (case event of EvUpdated ev \<Rightarrow> stop_market_order_update ev ord | _ \<Rightarrow> Some ord);
           let ord = (if is_triggered_event event
                      then ord \<lparr> sm_is_triggered := True, sm_ts_triggered := Some (event_ts_event event) \<rparr>
                      else ord);
           let ord = (if is_filled_event event
                      then ord \<lparr> sm_core := core_set_slippage F (sm_trigger_price ord) (sm_core ord) \<rparr>
                      else ord);
           Some (None, ord)
         }
   }"

definition stop_market_order_try_from ::
    "'d order_initialized \<Rightarrow> (order_error + ('d, 'f) stop_market_order) option" where
  "stop_market_order_try_from init =
     require ''trigger_price'' (oi_trigger_price init) (\<lambda>tpx.
       require ''trigger_type'' (oi_trigger_type init) (\<lambda>ttype.
         stop_market_order_new_checked (args_of_event init) tpx ttype))"

subsection \<open>Stop limit orders\<close>

record ('d, 'f) stop_limit_order =
  sl_core :: "('d, 'f) order_core"
  sl_price :: price
  sl_trigger_price :: price
  sl_trigger_type :: trigger_type
  sl_expire_time :: "unix_nanos option"
  sl_is_post_only :: bool
  sl_display_qty :: "quantity option"
  sl_trigger_instrument_id :: "string option"
  sl_is_triggered :: bool
  sl_ts_triggered :: "unix_nanos option"

definition stop_limit_order_new_checked ::
    "order_args \<Rightarrow> price \<Rightarrow> price \<Rightarrow> trigger_type \<Rightarrow>
     (order_error + ('d, 'f) stop_limit_order) option" where
  "stop_limit_order_new_checked a px tpx ttype =
     construct [order_check_quantity (a_quantity a), check_display_qty (a_display_qty a) (a_quantity a),
       check_time_in_force (a_time_in_force a) (a_expire_time a)]
       (init_base StopLimit a
          \<lparr> oi_post_only := a_post_only a, oi_price := Some px, oi_trigger_price := Some tpx,
            oi_trigger_type := Some ttype, oi_expire_time := a_expire_time a,
            oi_display_qty := a_display_qty a, oi_emulation_trigger := a_emulation_trigger a,
            oi_trigger_instrument_id := a_trigger_instrument_id a \<rparr>)
       (\<lambda>c. \<lparr> sl_core = c, sl_price = px, sl_trigger_price = tpx, sl_trigger_type = ttype,
             sl_expire_time = a_expire_time a, sl_is_post_only = a_post_only a,
             sl_display_qty = a_display_qty a,
             sl_trigger_instrument_id = a_trigger_instrument_id a, sl_is_triggered = False,
             sl_ts_triggered = None \<rparr>)"

definition stop_limit_order_update ::
    "order_updated \<Rightarrow> ('d, 'f) stop_limit_order \<Rightarrow> ('d, 'f) stop_limit_order option" where
  "stop_limit_order_update ev ord = do {
     Some (ord \<lparr> sl_price := (case ou_price ev of Some p \<Rightarrow> p | None \<Rightarrow> sl_price ord),
       sl_trigger_price := (case ou_trigger_price ev of Some p \<Rightarrow> p | None \<Rightarrow> sl_trigger_price ord),
       sl_core := update_quantity ev (sl_core ord) \<rparr>)
   }"

definition stop_limit_order_apply ::
    "'f f64_ops \<Rightarrow> 'd order_event \<Rightarrow> ('d, 'f) stop_limit_order \<Rightarrow>
     (order_error option \<times> ('d, 'f) stop_limit_order) option" where
  "stop_limit_order_apply F event ord = do {
     (err, c) \<leftarrow> core_apply F event (sl_core ord);
     let ord = ord \<lparr> sl_core := c \<rparr>;
     case err of
       Some e \<Rightarrow> Some (Some e, ord)
     | None \<Rightarrow> do {
           ord \<leftarrow> (case event of EvUpdated ev \<Rightarrow> stop_limit_order_update ev ord | _ \<Rightarrow> Some ord);
           let ord = (if is_triggered_event event
                      then ord \<lparr> sl_is_triggered := True, sl_ts_triggered := Some (event_ts_event event) \<rparr>
                      else ord);
           let ord = (if is_filled_event event
                      then ord \<lparr> sl_core := core_set_slippage F (sl_price ord) (sl_core ord) \<rparr>
                      else ord);
           Some (None, ord)
         }
   }"

definition stop_limit_order_try_from ::
    "'d order_initialized \<Rightarrow> (order_error + ('d, 'f) stop_limit_order) option" where
  "stop_limit_order_try_from init =
     require ''price'' (oi_price init) (\<lambda>px.
       require ''trigger_price'' (oi_trigger_price init) (\<lambda>tpx.
         require ''trigger_type'' (oi_trigger_type init) (\<lambda>ttype.
           stop_limit_order_new_checked (args_of_event init) px tpx ttype)))"

subsection \<open>Market to limit orders\<close>

record ('d, 'f) market_to_limit_order =
  mtl_core :: "('d, 'f) order_core"
  mtl_price :: "price option"
  mtl_expire_time :: "unix_nanos option"
  mtl_is_post_only :: bool
  mtl_display_qty :: "quantity option"

definition market_to_limit_order_new_checked ::
    "order_args \<Rightarrow>
     (order_error + ('d, 'f) market_to_limit_order) option" where
  "market_to_limit_order_new_checked a =
     construct [order_check_quantity (a_quantity a), check_display_qty (a_display_qty a) (a_quantity a),
       check_time_in_force (a_time_in_force a) (a_expire_time a)]
       (init_base MarketToLimit a
          \<lparr> oi_post_only := a_post_only a, oi_expire_time := a_expire_time a,
            oi_display_qty := a_display_qty a, oi_emulation_trigger := Some NoTrigger \<rparr>)
       (\<lambda>c. \<lparr> mtl_core = c, mtl_price = None, mtl_expire_time = a_expire_time a,
             mtl_is_post_only = a_post_only a, mtl_display_qty = a_display_qty a \<rparr>)"

definition market_to_limit_order_update ::
    "order_updated \<Rightarrow> ('d, 'f) market_to_limit_order \<Rightarrow> ('d, 'f) market_to_limit_order option" where
  "market_to_limit_order_update ev ord = do {
     assert_that (ou_trigger_price ev = None);
     Some (ord \<lparr> mtl_price := (case ou_price ev of Some p \<Rightarrow> Some p | None \<Rightarrow> mtl_price ord),
       mtl_core := update_quantity ev (mtl_core ord) \<rparr>)
   }"

definition market_to_limit_order_apply ::
    "'f f64_ops \<Rightarrow> 'd order_event \<Rightarrow> ('d, 'f) market_to_limit_order \<Rightarrow>
     (order_error option \<times> ('d, 'f) market_to_limit_order) option" where
  "market_to_limit_order_apply F event ord = do {
     (err, c) \<leftarrow> core_apply F event (mtl_core ord);
     let ord = ord \<lparr> mtl_core := c \<rparr>;
     case err of
       Some e \<Rightarrow> Some (Some e, ord)
     | None \<Rightarrow> do {
           ord \<leftarrow> (case event of EvUpdated ev \<Rightarrow> market_to_limit_order_update ev ord | _ \<Rightarrow> Some ord);
           let ord = (case mtl_price ord of
                        Some px \<Rightarrow>
                          if is_filled_event event
                          then ord \<lparr> mtl_core := core_set_slippage F px (mtl_core ord) \<rparr> else ord
                      | None \<Rightarrow> ord);
           Some (None, ord)
         }
   }"

definition market_to_limit_order_try_from ::
    "'d order_initialized \<Rightarrow> (order_error + ('d, 'f) market_to_limit_order) option" where
  "market_to_limit_order_try_from init =
     market_to_limit_order_new_checked (args_of_event init)"

subsection \<open>Market if touched orders\<close>

record ('d, 'f) market_if_touched_order =
  mit_core :: "('d, 'f) order_core"
  mit_trigger_price :: price
  mit_trigger_type :: trigger_type
  mit_expire_time :: "unix_nanos option"
  mit_trigger_instrument_id :: "string option"
  mit_is_triggered :: bool
  mit_ts_triggered :: "unix_nanos option"

definition market_if_touched_order_new_checked ::
    "order_args \<Rightarrow> price \<Rightarrow> trigger_type \<Rightarrow>
     (order_error + ('d, 'f) market_if_touched_order) option" where
  "market_if_touched_order_new_checked a tpx ttype =
     construct [order_check_quantity (a_quantity a),
       check_time_in_force (a_time_in_force a) (a_expire_time a)]
       (init_base MarketIfTouched a
          \<lparr> oi_trigger_price := Some tpx, oi_trigger_type := Some ttype,
            oi_expire_time := a_expire_time a, oi_emulation_trigger := a_emulation_trigger a,
            oi_trigger_instrument_id := a_trigger_instrument_id a \<rparr>)
       (\<lambda>c. \<lparr> mit_core = c, mit_trigger_price = tpx, mit_trigger_type = ttype,
             mit_expire_time = a_expire_time a,
             mit_trigger_instrument_id = a_trigger_instrument_id a, mit_is_triggered = False,
             mit_ts_triggered = None \<rparr>)"

definition market_if_touched_order_update ::
    "order_updated \<Rightarrow> ('d, 'f) market_if_touched_order \<Rightarrow> ('d, 'f) market_if_touched_order option" where
  "market_if_touched_order_update ev ord = do {
     assert_that (ou_price ev = None);
     Some (ord \<lparr> mit_trigger_price := (case ou_trigger_price ev of Some p \<Rightarrow> p | None \<Rightarrow> mit_trigger_price ord),
       mit_core := update_quantity ev (mit_core ord) \<rparr>)
   }"

definition market_if_touched_order_apply ::
    "'f f64_ops \<Rightarrow> 'd order_event \<Rightarrow> ('d, 'f) market_if_touched_order \<Rightarrow>
     (order_error option \<times> ('d, 'f) market_if_touched_order) option" where
  "market_if_touched_order_apply F event ord = do {
     (err, c) \<leftarrow> core_apply F event (mit_core ord);
     let ord = ord \<lparr> mit_core := c \<rparr>;
     case err of
       Some e \<Rightarrow> Some (Some e, ord)
     | None \<Rightarrow> do {
           ord \<leftarrow> (case event of EvUpdated ev \<Rightarrow> market_if_touched_order_update ev ord | _ \<Rightarrow> Some ord);
           let ord = (if is_triggered_event event
                      then ord \<lparr> mit_is_triggered := True, mit_ts_triggered := Some (event_ts_event event) \<rparr>
                      else ord);
           let ord = (if is_filled_event event
                      then ord \<lparr> mit_core := core_set_slippage F (mit_trigger_price ord) (mit_core ord) \<rparr>
                      else ord);
           Some (None, ord)
         }
   }"

definition market_if_touched_order_try_from ::
    "'d order_initialized \<Rightarrow> (order_error + ('d, 'f) market_if_touched_order) option" where
  "market_if_touched_order_try_from init =
     require ''trigger_price'' (oi_trigger_price init) (\<lambda>tpx.
       require ''trigger_type'' (oi_trigger_type init) (\<lambda>ttype.
         market_if_touched_order_new_checked (args_of_event init) tpx ttype))"

subsection \<open>Limit if touched orders\<close>

record ('d, 'f) limit_if_touched_order =
  lit_core :: "('d, 'f) order_core"
  lit_price :: price
  lit_trigger_price :: price
  lit_trigger_type :: trigger_type
  lit_expire_time :: "unix_nanos option"
  lit_is_post_only :: bool
  lit_display_qty :: "quantity option"
  lit_trigger_instrument_id :: "string option"
  lit_is_triggered :: bool
  lit_ts_triggered :: "unix_nanos option"

definition limit_if_touched_order_new_checked ::
    "order_args \<Rightarrow> price \<Rightarrow> price \<Rightarrow> trigger_type \<Rightarrow>
     (order_error + ('d, 'f) limit_if_touched_order) option" where
  "limit_if_touched_order_new_checked a px tpx ttype =
     construct [order_check_quantity (a_quantity a), check_display_qty (a_display_qty a) (a_quantity a),
       check_time_in_force (a_time_in_force a) (a_expire_time a),
       check_touched_prices (a_order_side a) px tpx]
       (init_base LimitIfTouched a
          \<lparr> oi_post_only := a_post_only a, oi_price := Some px, oi_trigger_price := Some tpx,
            oi_trigger_type := Some ttype, oi_expire_time := a_expire_time a,
            oi_display_qty := a_display_qty a, oi_emulation_trigger := a_emulation_trigger a,
            oi_trigger_instrument_id := a_trigger_instrument_id a \<rparr>)
       (\<lambda>c. \<lparr> lit_core = c, lit_price = px, lit_trigger_price = tpx, lit_trigger_type = ttype,
             lit_expire_time = a_expire_time a, lit_is_post_only = a_post_only a,
             lit_display_qty = a_display_qty a,
             lit_trigger_instrument_id = a_trigger_instrument_id a, lit_is_triggered = False,
             lit_ts_triggered = None \<rparr>)"

definition limit_if_touched_order_update ::
    "order_updated \<Rightarrow> ('d, 'f) limit_if_touched_order \<Rightarrow> ('d, 'f) limit_if_touched_order option" where
  "limit_if_touched_order_update ev ord = do {
     Some (ord \<lparr> lit_price := (case ou_price ev of Some p \<Rightarrow> p | None \<Rightarrow> lit_price ord),
       lit_trigger_price := (case ou_trigger_price ev of Some p \<Rightarrow> p | None \<Rightarrow> lit_trigger_price ord),
       lit_core := update_quantity ev (lit_core ord) \<rparr>)
   }"

definition limit_if_touched_order_apply ::
    "'f f64_ops \<Rightarrow> 'd order_event \<Rightarrow> ('d, 'f) limit_if_touched_order \<Rightarrow>
     (order_error option \<times> ('d, 'f) limit_if_touched_order) option" where
  "limit_if_touched_order_apply F event ord = do {
     (err, c) \<leftarrow> core_apply F event (lit_core ord);
     let ord = ord \<lparr> lit_core := c \<rparr>;
     case err of
       Some e \<Rightarrow> Some (Some e, ord)
     | None \<Rightarrow> do {
           ord \<leftarrow> (case event of EvUpdated ev \<Rightarrow> limit_if_touched_order_update ev ord | _ \<Rightarrow> Some ord);
           let ord = (if is_triggered_event event
                      then ord \<lparr> lit_is_triggered := True, lit_ts_triggered := Some (event_ts_event event) \<rparr>
                      else ord);
           let ord = (if is_filled_event event
                      then ord \<lparr> lit_core := core_set_slippage F (lit_price ord) (lit_core ord) \<rparr>
                      else ord);
           Some (None, ord)
         }
   }"

definition limit_if_touched_order_try_from ::
    "'d order_initialized \<Rightarrow> (order_error + ('d, 'f) limit_if_touched_order) option" where
  "limit_if_touched_order_try_from init =
     require ''price'' (oi_price init) (\<lambda>px.
       require ''trigger_price'' (oi_trigger_price init) (\<lambda>tpx.
         require ''trigger_type'' (oi_trigger_type init) (\<lambda>ttype.
           limit_if_touched_order_new_checked (args_of_event init) px tpx ttype)))"

subsection \<open>Trailing stop market orders\<close>

record ('d, 'f) trailing_stop_market_order =
  tsm_core :: "('d, 'f) order_core"
  tsm_activation_price :: "price option"
  tsm_trigger_price :: price
  tsm_trigger_type :: trigger_type
  tsm_trailing_offset :: "'d"
  tsm_trailing_offset_type :: trailing_offset_type
  tsm_expire_time :: "unix_nanos option"
  tsm_display_qty :: "quantity option"
  tsm_trigger_instrument_id :: "string option"
  tsm_is_activated :: bool
  tsm_is_triggered :: bool
  tsm_ts_triggered :: "unix_nanos option"

definition trailing_stop_market_order_new_checked ::
    "order_args \<Rightarrow> price \<Rightarrow> trigger_type \<Rightarrow> 'd \<Rightarrow> trailing_offset_type \<Rightarrow>
     (order_error + ('d, 'f) trailing_stop_market_order) option" where
  "trailing_stop_market_order_new_checked a tpx ttype toff tofft =
     construct [order_check_quantity (a_quantity a), check_display_qty (a_display_qty a) (a_quantity a),
       check_time_in_force (a_time_in_force a) (a_expire_time a)]
       (init_base TrailingStopMarket a
          \<lparr> oi_trigger_price := Some tpx, oi_trigger_type := Some ttype,
            oi_trailing_offset := Some toff, oi_trailing_offset_type := Some tofft,
            oi_expire_time := a_expire_time a, oi_display_qty := a_display_qty a,
            oi_emulation_trigger := a_emulation_trigger a,
            oi_trigger_instrument_id := a_trigger_instrument_id a \<rparr>)
       (\<lambda>c. \<lparr> tsm_core = c, tsm_activation_price = None, tsm_trigger_price = tpx,
             tsm_trigger_type = ttype, tsm_trailing_offset = toff,
             tsm_trailing_offset_type = tofft, tsm_expire_time = a_expire_time a,
             tsm_display_qty = a_display_qty a,
             tsm_trigger_instrument_id = a_trigger_instrument_id a, tsm_is_activated = False,
             tsm_is_triggered = False, tsm_ts_triggered = None \<rparr>)"

definition trailing_stop_market_order_update ::
    "order_updated \<Rightarrow> ('d, 'f) trailing_stop_market_order \<Rightarrow> ('d, 'f) trailing_stop_market_order option" where
  "trailing_stop_market_order_update ev ord = do {
     assert_that (ou_price ev = None);
     Some (ord \<lparr> tsm_trigger_price := (case ou_trigger_price ev of Some p \<Rightarrow> p | None \<Rightarrow> tsm_trigger_price ord),
       tsm_core := update_quantity ev (tsm_core ord) \<rparr>)
   }"

definition trailing_stop_market_order_apply ::
    "'f f64_ops \<Rightarrow> 'd order_event \<Rightarrow> ('d, 'f) trailing_stop_market_order \<Rightarrow>
     (order_error option \<times> ('d, 'f) trailing_stop_market_order) option" where
  "trailing_stop_market_order_apply F event ord = do {
     (err, c) \<leftarrow> core_apply F event (tsm_core ord);
     let ord = ord \<lparr> tsm_core := c \<rparr>;
     case err of
       Some e \<Rightarrow> Some (Some e, ord)
     | None \<Rightarrow> do {
           ord \<leftarrow> (case event of EvUpdated ev \<Rightarrow> trailing_stop_market_order_update ev ord | _ \<Rightarrow> Some ord);
           let ord = (if is_triggered_event event
                      then ord \<lparr> tsm_is_triggered := True, tsm_ts_triggered := Some (event_ts_event event) \<rparr>
                      else ord);
           let ord = (if is_filled_event event
                      then ord \<lparr> tsm_core := core_set_slippage F (tsm_trigger_price ord) (tsm_core ord) \<rparr>
                      else ord);
           Some (None, ord)
         }
   }"

definition trailing_stop_market_order_try_from ::
    "'d order_initialized \<Rightarrow> (order_error + ('d, 'f) trailing_stop_market_order) option" where
  "trailing_stop_market_order_try_from init =
     require ''trigger_price'' (oi_trigger_price init) (\<lambda>tpx.
       require ''trigger_type'' (oi_trigger_type init) (\<lambda>ttype.
         require ''trailing_offset'' (oi_trailing_offset init) (\<lambda>toff.
           require ''trailing_offset_type'' (oi_trailing_offset_type init) (\<lambda>tofft.
             trailing_stop_market_order_new_checked (args_of_event init) tpx ttype toff tofft))))"

subsection \<open>Trailing stop limit orders\<close>

record ('d, 'f) trailing_stop_limit_order =
  tsl_core :: "('d, 'f) order_core"
  tsl_activation_price :: "price option"
  tsl_price :: price
  tsl_trigger_price :: price
  tsl_trigger_type :: trigger_type
  tsl_limit_offset :: "'d"
  tsl_trailing_offset :: "'d"
  tsl_trailing_offset_type :: trailing_offset_type
  tsl_expire_time :: "unix_nanos option"
  tsl_is_post_only :: bool
  tsl_display_qty :: "quantity option"
  tsl_trigger_instrument_id :: "string option"
  tsl_is_activated :: bool
  tsl_is_triggered :: bool
  tsl_ts_triggered :: "unix_nanos option"

definition trailing_stop_limit_order_new_checked ::
    "order_args \<Rightarrow> price \<Rightarrow> price \<Rightarrow> trigger_type \<Rightarrow> 'd \<Rightarrow> 'd \<Rightarrow> trailing_offset_type \<Rightarrow>
     (order_error + ('d, 'f) trailing_stop_limit_order) option" where
  "trailing_stop_limit_order_new_checked a px tpx ttype loff toff tofft =
     construct [order_check_quantity (a_quantity a), check_display_qty (a_display_qty a) (a_quantity a),
       check_time_in_force (a_time_in_force a) (a_expire_time a)]
       (init_base TrailingStopLimit a
          \<lparr> oi_post_only := a_post_only a, oi_price := Some px, oi_trigger_price := Some tpx,
            oi_trigger_type := Some ttype, oi_limit_offset := Some loff,
            oi_trailing_offset := Some toff, oi_trailing_offset_type := Some tofft,
            oi_expire_time := a_expire_time a, oi_display_qty := a_display_qty a,
            oi_emulation_trigger := a_emulation_trigger a,
            oi_trigger_instrument_id := a_trigger_instrument_id a \<rparr>)
       (\<lambda>c. \<lparr> tsl_core = c, tsl_activation_price = None, tsl_price = px, tsl_trigger_price = tpx,
             tsl_trigger_type = ttype, tsl_limit_offset = loff, tsl_trailing_offset = toff,
             tsl_trailing_offset_type = tofft, tsl_expire_time = a_expire_time a,
             tsl_is_post_only = a_post_only a, tsl_display_qty = a_display_qty a,
             tsl_trigger_instrument_id = a_trigger_instrument_id a, tsl_is_activated = False,
             tsl_is_triggered = False, tsl_ts_triggered = None \<rparr>)"

definition trailing_stop_limit_order_update ::
    "order_updated \<Rightarrow> ('d, 'f) trailing_stop_limit_order \<Rightarrow> ('d, 'f) trailing_stop_limit_order option" where
  "trailing_stop_limit_order_update ev ord = do {
     Some (ord \<lparr> tsl_price := (case ou_price ev of Some p \<Rightarrow> p | None \<Rightarrow> tsl_price ord),
       tsl_trigger_price := (case ou_trigger_price ev of Some p \<Rightarrow> p | None \<Rightarrow> tsl_trigger_price ord),
       tsl_core := update_quantity ev (tsl_core ord) \<rparr>)
   }"

definition trailing_stop_limit_order_apply ::
    "'f f64_ops \<Rightarrow> 'd order_event \<Rightarrow> ('d, 'f) trailing_stop_limit_order \<Rightarrow>
     (order_error option \<times> ('d, 'f) trailing_stop_limit_order) option" where
  "trailing_stop_limit_order_apply F event ord = do {
     (err, c) \<leftarrow> core_apply F event (tsl_core ord);
     let ord = ord \<lparr> tsl_core := c \<rparr>;
     case err of
       Some e \<Rightarrow> Some (Some e, ord)
     | None \<Rightarrow> do {
           ord \<leftarrow> (case event of EvUpdated ev \<Rightarrow> trailing_stop_limit_order_update ev ord | _ \<Rightarrow> Some ord);
           let ord = (if is_triggered_event event
                      then ord \<lparr> tsl_is_triggered := True, tsl_ts_triggered := Some (event_ts_event event) \<rparr>
                      else ord);
           let ord = (if is_filled_event event
                      then ord \<lparr> tsl_core := core_set_slippage F (tsl_price ord) (tsl_core ord) \<rparr>
                      else ord);
           Some (None, ord)
         }
   }"

definition trailing_stop_limit_order_try_from ::
    "'d order_initialized \<Rightarrow> (order_error + ('d, 'f) trailing_stop_limit_order) option" where
  "trailing_stop_limit_order_try_from init =
     require ''price'' (oi_price init) (\<lambda>px.
       require ''trigger_price'' (oi_trigger_price init) (\<lambda>tpx.
         require ''trigger_type'' (oi_trigger_type init) (\<lambda>ttype.
           require ''limit_offset'' (oi_limit_offset init) (\<lambda>loff.
             require ''trailing_offset'' (oi_trailing_offset init) (\<lambda>toff.
               require ''trailing_offset_type'' (oi_trailing_offset_type init) (\<lambda>tofft.
                 trailing_stop_limit_order_new_checked (args_of_event init) px tpx ttype loff toff tofft))))))"

section \<open>Any order\<close>

datatype ('d, 'f) order_any =
    AnyLimit "('d, 'f) limit_order"
  | AnyLimitIfTouched "('d, 'f) limit_if_touched_order"
  | AnyMarket "('d, 'f) market_order"
  | AnyMarketIfTouched "('d, 'f) market_if_touched_order"
  | AnyMarketToLimit "('d, 'f) market_to_limit_order"
  | AnyStopLimit "('d, 'f) stop_limit_order"
  | AnyStopMarket "('d, 'f) stop_market_order"
  | AnyTrailingStopLimit "('d, 'f) trailing_stop_limit_order"
  | AnyTrailingStopMarket "('d, 'f) trailing_stop_market_order"

fun any_core :: "('d, 'f) order_any \<Rightarrow> ('d, 'f) order_core" where
  "any_core (AnyLimit x) = lo_core x"
| "any_core (AnyLimitIfTouched x) = lit_core x"
| "any_core (AnyMarket x) = mo_core x"
| "any_core (AnyMarketIfTouched x) = mit_core x"
| "any_core (AnyMarketToLimit x) = mtl_core x"
| "any_core (AnyStopLimit x) = sl_core x"
| "any_core (AnyStopMarket x) = sm_core x"
| "any_core (AnyTrailingStopLimit x) = tsl_core x"
| "any_core (AnyTrailingStopMarket x) = tsm_core x"

fun any_apply ::
    "'f f64_ops \<Rightarrow> 'd order_event \<Rightarrow> ('d, 'f) order_any \<Rightarrow>
     (order_error option \<times> ('d, 'f) order_any) option" where
  "any_apply F ev (AnyLimit x) = map_option (map_prod id AnyLimit) (limit_order_apply F ev x)"
| "any_apply F ev (AnyLimitIfTouched x) = map_option (map_prod id AnyLimitIfTouched) (limit_if_touched_order_apply F ev x)"
| "any_apply F ev (AnyMarket x) = map_option (map_prod id AnyMarket) (market_order_apply F ev x)"
| "any_apply F ev (AnyMarketIfTouched x) = map_option (map_prod id AnyMarketIfTouched) (market_if_touched_order_apply F ev x)"
| "any_apply F ev (AnyMarketToLimit x) = map_option (map_prod id AnyMarketToLimit) (market_to_limit_order_apply F ev x)"
| "any_apply F ev (AnyStopLimit x) = map_option (map_prod id AnyStopLimit) (stop_limit_order_apply F ev x)"
| "any_apply F ev (AnyStopMarket x) = map_option (map_prod id AnyStopMarket) (stop_market_order_apply F ev x)"
| "any_apply F ev (AnyTrailingStopLimit x) = map_option (map_prod id AnyTrailingStopLimit) (trailing_stop_limit_order_apply F ev x)"
| "any_apply F ev (AnyTrailingStopMarket x) = map_option (map_prod id AnyTrailingStopMarket) (trailing_stop_market_order_apply F ev x)"

definition any_try_from :: "'d order_initialized \<Rightarrow> (order_error + ('d, 'f) order_any) option" where
  "any_try_from init =
     (case oi_order_type init of
        Limit \<Rightarrow> map_option (map_sum id AnyLimit) (limit_order_try_from init)
      | Market \<Rightarrow> map_option (map_sum id AnyMarket) (market_order_try_from init)
      | StopMarket \<Rightarrow> map_option (map_sum id AnyStopMarket) (stop_market_order_try_from init)
      | StopLimit \<Rightarrow> map_option (map_sum id AnyStopLimit) (stop_limit_order_try_from init)
      | LimitIfTouched \<Rightarrow> map_option (map_sum id AnyLimitIfTouched) (limit_if_touched_order_try_from init)
      | TrailingStopLimit \<Rightarrow> map_option (map_sum id AnyTrailingStopLimit) (trailing_stop_limit_order_try_from init)
      | TrailingStopMarket \<Rightarrow> map_option (map_sum id AnyTrailingStopMarket) (trailing_stop_market_order_try_from init)
      | MarketToLimit \<Rightarrow> map_option (map_sum id AnyMarketToLimit) (market_to_limit_order_try_from init)
      | MarketIfTouched \<Rightarrow> map_option (map_sum id AnyMarketIfTouched) (market_if_touched_order_try_from init))"

fun any_set_order_list_id :: "string \<Rightarrow> ('d, 'f) order_any \<Rightarrow> ('d, 'f) order_any" where
  "any_set_order_list_id i (AnyLimit x) =
     AnyLimit (x \<lparr> lo_core := (lo_core x) \<lparr> o_order_list_id := Some i \<rparr> \<rparr>)"
| "any_set_order_list_id i (AnyLimitIfTouched x) =
     AnyLimitIfTouched (x \<lparr> lit_core := (lit_core x) \<lparr> o_order_list_id := Some i \<rparr> \<rparr>)"
| "any_set_order_list_id i (AnyMarket x) =
     AnyMarket (x \<lparr> mo_core := (mo_core x) \<lparr> o_order_list_id := Some i \<rparr> \<rparr>)"
| "any_set_order_list_id i (AnyMarketIfTouched x) =
     AnyMarketIfTouched (x \<lparr> mit_core := (mit_core x) \<lparr> o_order_list_id := Some i \<rparr> \<rparr>)"
| "any_set_order_list_id i (AnyMarketToLimit x) =
     AnyMarketToLimit (x \<lparr> mtl_core := (mtl_core x) \<lparr> o_order_list_id := Some i \<rparr> \<rparr>)"
| "any_set_order_list_id i (AnyStopLimit x) =
     AnyStopLimit (x \<lparr> sl_core := (sl_core x) \<lparr> o_order_list_id := Some i \<rparr> \<rparr>)"
| "any_set_order_list_id i (AnyStopMarket x) =
     AnyStopMarket (x \<lparr> sm_core := (sm_core x) \<lparr> o_order_list_id := Some i \<rparr> \<rparr>)"
| "any_set_order_list_id i (AnyTrailingStopLimit x) =
     AnyTrailingStopLimit (x \<lparr> tsl_core := (tsl_core x) \<lparr> o_order_list_id := Some i \<rparr> \<rparr>)"
| "any_set_order_list_id i (AnyTrailingStopMarket x) =
     AnyTrailingStopMarket (x \<lparr> tsm_core := (tsm_core x) \<lparr> o_order_list_id := Some i \<rparr> \<rparr>)"

fun apply_all ::
    "'f f64_ops \<Rightarrow> 'd order_event list \<Rightarrow> ('d, 'f) order_any \<Rightarrow>
     (order_error + ('d, 'f) order_any) option" where
  "apply_all F [] ord = Some (Inr ord)"
| "apply_all F (ev # evs) ord = do {
     (err, ord) \<leftarrow> any_apply F ev ord;
     case err of Some e \<Rightarrow> Some (Inl e) | None \<Rightarrow> apply_all F evs ord
   }"

text \<open>The errors \<open>from_events\<close> formats itself are told apart by their message.\<close>

definition from_events ::
    "'f f64_ops \<Rightarrow> 'd order_event list \<Rightarrow> (order_error + ('d, 'f) order_any) option" where
  "from_events F events =
     (case events of
        [] \<Rightarrow> Some (Inl (Invariant (PredicateViolation ''No order events provided to create OrderAny'')))
      | first # rest \<Rightarrow>
          (case first of
             EvInitialized init \<Rightarrow> do {
               r \<leftarrow> any_try_from init;
               case r of Inl e \<Rightarrow> Some (Inl e) | Inr ord \<Rightarrow> apply_all F rest ord
             }
           | _ \<Rightarrow> Some (Inl (Invariant (PredicateViolation ''First event must be OrderInitialized'')))))"

definition any_init_event :: "('d, 'f) order_any \<Rightarrow> 'd order_initialized option" where
  "any_init_event ord =
     (case o_events (any_core ord) of
        EvInitialized init # _ \<Rightarrow> Some init
      | _ \<Rightarrow> None)"

fun any_accepts :: "order_updated \<Rightarrow> ('d, 'f) order_any \<Rightarrow> bool" where
  "any_accepts u (AnyMarket _) \<longleftrightarrow> ou_price u = None \<and> ou_trigger_price u = None"
| "any_accepts u (AnyLimit _) \<longleftrightarrow> ou_trigger_price u = None"
| "any_accepts u (AnyMarketToLimit _) \<longleftrightarrow> ou_trigger_price u = None"
| "any_accepts u (AnyStopMarket _) \<longleftrightarrow> ou_price u = None"
| "any_accepts u (AnyMarketIfTouched _) \<longleftrightarrow> ou_price u = None"
| "any_accepts u (AnyTrailingStopMarket _) \<longleftrightarrow> ou_price u = None"
| "any_accepts u _ \<longleftrightarrow> True"

section \<open>What every order type promises\<close>

text \<open>
  Every type applies an event to the shared core first and returns the core's error; an accepted
  update then replaces the quantity, and any other event changes at most the slippage of the
  core.  \<open>accepts\<close> says which updates the type takes (those of a price it does not have panic).
\<close>

locale order_impl =
  fixes core :: "'o \<Rightarrow> ('d, 'f) order_core"
    and F :: "'f f64_ops"
    and apply_event :: "'d order_event \<Rightarrow> 'o \<Rightarrow> (order_error option \<times> 'o) option"
    and accepts :: "order_updated \<Rightarrow> 'o \<Rightarrow> bool"
  assumes apply_panic: "core_apply F ev (core ord) = None \<Longrightarrow> apply_event ev ord = None"
    and apply_error: "core_apply F ev (core ord) = Some (Some e, c) \<Longrightarrow>
      \<exists>ord'. apply_event ev ord = Some (Some e, ord') \<and> core ord' = c"
    and apply_update: "core_apply F (EvUpdated u) (core ord) = Some (None, c) \<Longrightarrow> accepts u ord \<Longrightarrow>
      \<exists>ord'. apply_event (EvUpdated u) ord = Some (None, ord') \<and> core ord' = update_quantity u c"
    and apply_update_panic: "core_apply F (EvUpdated u) (core ord) = Some (None, c) \<Longrightarrow>
      \<not> accepts u ord \<Longrightarrow> apply_event (EvUpdated u) ord = None"
    and apply_other: "core_apply F ev (core ord) = Some (None, c) \<Longrightarrow> \<nexists>u. ev = EvUpdated u \<Longrightarrow>
      \<exists>ord' sl. apply_event ev ord = Some (None, ord') \<and> core ord' = c \<lparr> o_slippage := sl \<rparr>"

begin

lemma apply_Some:
  assumes "apply_event ev ord = Some (r, ord')"
  obtains (error) e where "r = Some e" and "core_apply F ev (core ord) = Some (Some e, core ord')"
  | (updated) u c where "r = None" and "ev = EvUpdated u"
    and "core_apply F ev (core ord) = Some (None, c)" and "core ord' = update_quantity u c"
  | (other) c sl where "r = None" and "\<nexists>u. ev = EvUpdated u"
    and "core_apply F ev (core ord) = Some (None, c)" and "core ord' = c \<lparr> o_slippage := sl \<rparr>"
proof (cases "core_apply F ev (core ord)")
  case None
  then show thesis using assms by (simp add: apply_panic)
next
  case (Some rc)
  then obtain r' c where rc: "core_apply F ev (core ord) = Some (r', c)" by (cases rc) simp
  show thesis
  proof (cases r')
    case (Some e)
    then show thesis using rc assms apply_error [of ev ord e c] error by auto
  next
    case None
    show thesis
    proof (cases "\<exists>u. ev = EvUpdated u")
      case False
      then show thesis using rc None assms apply_other [of ev ord c] other by auto
    next
      case True
      then obtain u where u: "ev = EvUpdated u" by blast
      then have "accepts u ord" using rc None assms apply_update_panic [of u ord c] by auto
      then show thesis using rc None u assms apply_update [of u ord c] updated by auto
    qed
  qed
qed

lemma apply_ok_status:
  assumes "apply_event ev ord = Some (None, ord')"
  obtains c where "core_apply F ev (core ord) = Some (None, c)"
    and "o_status (core ord') = o_status c" and "o_previous_status (core ord') = o_previous_status c"
  using assms
proof (cases rule: apply_Some)
  case (updated u c)
  then show thesis using that [of c] by (simp add: update_quantity_def)
next
  case (other c sl)
  then show thesis using that [of c] by simp
qed simp

lemma apply_total:
  assumes "core_apply F ev (core ord) \<noteq> None" and "\<And>u. ev = EvUpdated u \<Longrightarrow> accepts u ord"
  shows "apply_event ev ord \<noteq> None"
proof -
  obtain r c where rc: "core_apply F ev (core ord) = Some (r, c)" using assms(1) by auto
  show ?thesis
  proof (cases r)
    case (Some e)
    then show ?thesis using rc apply_error by fastforce
  next
    case None
    show ?thesis
    proof (cases "\<exists>u. ev = EvUpdated u")
      case True
      then obtain u where "ev = EvUpdated u" by blast
      then show ?thesis using rc None assms(2) apply_update [of u ord c] by auto
    next
      case False
      then show ?thesis using rc None apply_other [of ev ord c] by auto
    qed
  qed
qed

end

lemmas order_update_defs =
  market_order_update_def limit_order_update_def stop_market_order_update_def
  stop_limit_order_update_def market_to_limit_order_update_def market_if_touched_order_update_def
  limit_if_touched_order_update_def trailing_stop_market_order_update_def
  trailing_stop_limit_order_update_def

lemma set_slippage_core: "\<exists>sl. core_set_slippage F px c = c \<lparr> o_slippage := sl \<rparr>"
  by (auto simp: core_set_slippage_def)

lemma slippage_same: "\<exists>sl. c = c \<lparr> o_slippage := sl \<rparr>"
  by (rule exI [of _ "o_slippage c"]) simp

interpretation mo: order_impl mo_core F "market_order_apply F" "\<lambda>u _. ou_price u = None \<and> ou_trigger_price u = None" for F
  by unfold_locales
    (auto simp: market_order_apply_def order_update_defs Let_def
      intro: slippage_same set_slippage_core split: order_event.splits option.splits)

interpretation lo: order_impl lo_core F "limit_order_apply F" "\<lambda>u _. ou_trigger_price u = None" for F
  by unfold_locales
    (auto simp: limit_order_apply_def order_update_defs Let_def
      intro: slippage_same set_slippage_core split: order_event.splits option.splits)

interpretation sm: order_impl sm_core F "stop_market_order_apply F" "\<lambda>u _. ou_price u = None" for F
  by unfold_locales
    (auto simp: stop_market_order_apply_def order_update_defs Let_def
      intro: slippage_same set_slippage_core split: order_event.splits option.splits)

interpretation sl: order_impl sl_core F "stop_limit_order_apply F" "\<lambda>u _. True" for F
  by unfold_locales
    (auto simp: stop_limit_order_apply_def order_update_defs Let_def
      intro: slippage_same set_slippage_core split: order_event.splits option.splits)

interpretation mtl: order_impl mtl_core F "market_to_limit_order_apply F" "\<lambda>u _. ou_trigger_price u = None" for F
  by unfold_locales
    (auto simp: market_to_limit_order_apply_def order_update_defs Let_def
      intro: slippage_same set_slippage_core split: order_event.splits option.splits)

interpretation mit: order_impl mit_core F "market_if_touched_order_apply F" "\<lambda>u _. ou_price u = None" for F
  by unfold_locales
    (auto simp: market_if_touched_order_apply_def order_update_defs Let_def
      intro: slippage_same set_slippage_core split: order_event.splits option.splits)

interpretation lit: order_impl lit_core F "limit_if_touched_order_apply F" "\<lambda>u _. True" for F
  by unfold_locales
    (auto simp: limit_if_touched_order_apply_def order_update_defs Let_def
      intro: slippage_same set_slippage_core split: order_event.splits option.splits)

interpretation tsm: order_impl tsm_core F "trailing_stop_market_order_apply F" "\<lambda>u _. ou_price u = None" for F
  by unfold_locales
    (auto simp: trailing_stop_market_order_apply_def order_update_defs Let_def
      intro: slippage_same set_slippage_core split: order_event.splits option.splits)

interpretation tsl: order_impl tsl_core F "trailing_stop_limit_order_apply F" "\<lambda>u _. True" for F
  by unfold_locales
    (auto simp: trailing_stop_limit_order_apply_def order_update_defs Let_def
      intro: slippage_same set_slippage_core split: order_event.splits option.splits)

lemmas impl_rules =
  mo.apply_panic mo.apply_update_panic lo.apply_panic lo.apply_update_panic sm.apply_panic sm.apply_update_panic sl.apply_panic sl.apply_update_panic mtl.apply_panic mtl.apply_update_panic mit.apply_panic mit.apply_update_panic lit.apply_panic lit.apply_update_panic tsm.apply_panic tsm.apply_update_panic tsl.apply_panic tsl.apply_update_panic

interpretation anyo: order_impl "any_core :: ('d, 'f) order_any \<Rightarrow> ('d, 'f) order_core" F "any_apply F" any_accepts
  for F :: "'f f64_ops"
proof unfold_locales
  fix ev :: "'d order_event" and ord :: "('d, 'f) order_any" and u e c
  show "core_apply F ev (any_core ord) = None \<Longrightarrow> any_apply F ev ord = None"
    by (cases ord) (simp_all add: impl_rules)
  show "core_apply F (EvUpdated u) (any_core ord) = Some (None, c) \<Longrightarrow> \<not> any_accepts u ord \<Longrightarrow>
      any_apply F (EvUpdated u) ord = None"
    by (cases ord) (simp_all add: impl_rules)
  show "core_apply F ev (any_core ord) = Some (Some e, c) \<Longrightarrow>
      \<exists>ord'. any_apply F ev ord = Some (Some e, ord') \<and> any_core ord' = c"
    by (cases ord) (force dest: mo.apply_error lo.apply_error sm.apply_error sl.apply_error mtl.apply_error mit.apply_error lit.apply_error tsm.apply_error tsl.apply_error)+
  show "core_apply F (EvUpdated u) (any_core ord) = Some (None, c) \<Longrightarrow> any_accepts u ord \<Longrightarrow>
      \<exists>ord'. any_apply F (EvUpdated u) ord = Some (None, ord') \<and> any_core ord' = update_quantity u c"
    by (cases ord) (force dest: mo.apply_update lo.apply_update sm.apply_update sl.apply_update mtl.apply_update mit.apply_update lit.apply_update tsm.apply_update tsl.apply_update)+
  show "core_apply F ev (any_core ord) = Some (None, c) \<Longrightarrow> \<nexists>u. ev = EvUpdated u \<Longrightarrow>
      \<exists>ord' sl. any_apply F ev ord = Some (None, ord') \<and> any_core ord' = c \<lparr> o_slippage := sl \<rparr>"
    by (cases ord) (force dest: mo.apply_other lo.apply_other sm.apply_other sl.apply_other mtl.apply_other mit.apply_other lit.apply_other tsm.apply_other tsl.apply_other)+
qed

end
