(* ===== verification/Order_Lifecycle.thy ===== *)
theory Order_Lifecycle
  imports Order_Types
begin

text \<open>
  What holds of the orders a program can build, whatever their type: \<open>order_reach\<close> collects the
  orders made from an \<open>OrderInitialized\<close> event and any further events, applied with success or
  not, and \<open>order_built\<close> those whose events all succeeded.  The lemmas lift the invariant of the
  core (\<open>Orders\<close>) through the interface of the order types (\<open>order_impl\<close>), and the properties
  state accounting, finality, errors, absence of panics, the average price, event sourcing and
  the answers to requests.  The example history at the end of the definitions is a limit order
  that is submitted, accepted and filled in two trades.
\<close>

section \<open>Orders a program can build\<close>

inductive order_reach :: "'f f64_ops \<Rightarrow> ('d, 'f) order_any \<Rightarrow> bool" for F where
  created: "any_try_from init = Some (Inr ord) \<Longrightarrow> q_raw (oi_quantity init) \<le> U64_MAX \<Longrightarrow> order_reach F ord"
| applied: "order_reach F ord \<Longrightarrow> event_typed ev \<Longrightarrow> any_apply F ev ord = Some (r, ord') \<Longrightarrow> order_reach F ord'"

inductive order_built :: "'f f64_ops \<Rightarrow> ('d, 'f) order_any \<Rightarrow> bool" for F where
  built_new: "any_try_from init = Some (Inr ord) \<Longrightarrow> order_built F ord"
| built_event: "order_built F ord \<Longrightarrow> any_apply F ev ord = Some (None, ord') \<Longrightarrow> order_built F ord'"

section \<open>An example history\<close>

definition ex_base :: order_event_base where
  "ex_base = \<lparr> ev_trader_id = ''T'', ev_strategy_id = ''S'', ev_instrument_id = ''I'',
     ev_client_order_id = ''O-1'', ev_event_id = ''E'', ev_ts_event = 1, ev_ts_init = 1 \<rparr>"

definition ex_init :: "nat order_initialized" where
  "ex_init =
     (init_base Limit
        \<lparr> a_trader_id = ''T'', a_strategy_id = ''S'', a_instrument_id = ''I'', a_client_order_id = ''O-1'',
          a_order_side = Buy, a_quantity = \<lparr> q_raw = 100000000000, q_prec = 0 \<rparr>,
          a_time_in_force = Gtc, a_expire_time = None,
          a_post_only = False, a_reduce_only = False, a_quote_quantity = False, a_display_qty = None,
          a_emulation_trigger = None, a_trigger_instrument_id = None, a_contingency_type = None,
          a_order_list_id = None, a_linked_order_ids = None, a_parent_order_id = None,
          a_exec_algorithm_id = None, a_exec_algorithm_params = None, a_exec_spawn_id = None,
          a_tags = None, a_init_id = ''E-0'', a_ts_init = 1 \<rparr>)
       \<lparr> oi_price := Some \<lparr> p_raw = 5000000000, p_prec = 0 \<rparr> \<rparr>"

definition ex_submitted :: order_submitted where
  "ex_submitted = order_event_base.extend ex_base (order_submitted.fields ''A'')"

definition ex_accepted :: order_accepted where
  "ex_accepted = order_event_base.extend ex_base (order_accepted.fields ''V'' ''A'' 0)"

definition ex_fill :: "string \<Rightarrow> nat \<Rightarrow> int \<Rightarrow> order_filled" where
  "ex_fill trade qty px = order_event_base.extend ex_base
     (order_filled.fields ''V'' ''A'' trade Buy Limit \<lparr> q_raw = qty * 1000000000, q_prec = 0 \<rparr>
        \<lparr> p_raw = px * 1000000000, p_prec = 0 \<rparr> usd Taker False None None)"

definition ex_history :: "nat order_event list" where
  "ex_history = [EvInitialized ex_init, EvSubmitted ex_submitted, EvAccepted ex_accepted,
     EvFilled (ex_fill ''T-1'' 40 4), EvFilled (ex_fill ''T-2'' 60 5)]"

definition ex_pending_update :: order_pending_update where
  "ex_pending_update = order_event_base.extend ex_base (order_pending_update.fields ''A'' 0 None)"

definition ex_modify_rejected :: order_modify_rejected where
  "ex_modify_rejected = order_event_base.extend ex_base (order_modify_rejected.fields ''late'' 0 None None)"

section \<open>Creation\<close>

lemma construct_Inr:
  "construct checks init mk = Some (Inr ord) \<Longrightarrow> \<exists>c. core_new init = Some c \<and> ord = mk c"
  by (induction checks init mk rule: construct.induct) auto

lemma require_Inr: "require field v k = Some (Inr ord) \<Longrightarrow> \<exists>x. v = Some x \<and> k x = Some (Inr ord)"
  by (auto simp: require_def split: option.splits)

lemmas order_new_defs =
  market_order_new_checked_def limit_order_new_checked_def stop_market_order_new_checked_def
  stop_limit_order_new_checked_def market_to_limit_order_new_checked_def
  market_if_touched_order_new_checked_def limit_if_touched_order_new_checked_def
  trailing_stop_market_order_new_checked_def trailing_stop_limit_order_new_checked_def

lemmas order_try_from_defs =
  market_order_try_from_def limit_order_try_from_def stop_market_order_try_from_def
  stop_limit_order_try_from_def market_to_limit_order_try_from_def
  market_if_touched_order_try_from_def limit_if_touched_order_try_from_def
  trailing_stop_market_order_try_from_def trailing_stop_limit_order_try_from_def

lemma init_base_quantity [simp]: "oi_quantity (init_base ty a) = a_quantity a"
  by (simp add: init_base_def)

lemma args_quantity [simp]: "a_quantity (args_of_event e) = oi_quantity e"
  by (simp add: args_of_event_def)

text \<open>The initial event an order stores builds the same order again.\<close>

lemma construct_replay:
  assumes "construct checks i mk = Some (Inr ord)" and "\<And>c. core (mk c) = c" and "P i"
  shows "\<exists>i. core_new i = Some (core ord) \<and> P i"
  using construct_Inr [OF assms(1)] assms(2,3) by auto

lemma market_order_replay:
  assumes n: "market_order_new_checked a = Some (Inr ord)"
  shows "\<exists>i. core_new i = Some (mo_core ord) \<and> oi_quantity i = a_quantity a \<and>
    oi_order_type i = Market \<and> market_order_try_from i = Some (Inr ord)"
  by (rule construct_replay [where core = mo_core, OF n [unfolded market_order_new_checked_def]])
    (use n in \<open>simp_all add: market_order_try_from_def market_order_new_checked_def require_def
      args_of_event_def init_base_def\<close>)

lemma limit_order_replay:
  assumes n: "limit_order_new_checked a px = Some (Inr ord)"
  shows "\<exists>i. core_new i = Some (lo_core ord) \<and> oi_quantity i = a_quantity a \<and>
    oi_order_type i = Limit \<and> limit_order_try_from i = Some (Inr ord)"
  by (rule construct_replay [where core = lo_core, OF n [unfolded limit_order_new_checked_def]])
    (use n in \<open>simp_all add: limit_order_try_from_def limit_order_new_checked_def require_def
      args_of_event_def init_base_def\<close>)

lemma stop_market_order_replay:
  assumes n: "stop_market_order_new_checked a tpx tt = Some (Inr ord)"
  shows "\<exists>i. core_new i = Some (sm_core ord) \<and> oi_quantity i = a_quantity a \<and>
    oi_order_type i = StopMarket \<and> stop_market_order_try_from i = Some (Inr ord)"
  by (rule construct_replay [where core = sm_core, OF n [unfolded stop_market_order_new_checked_def]])
    (use n in \<open>simp_all add: stop_market_order_try_from_def stop_market_order_new_checked_def require_def
      args_of_event_def init_base_def\<close>)

lemma stop_limit_order_replay:
  assumes n: "stop_limit_order_new_checked a px tpx tt = Some (Inr ord)"
  shows "\<exists>i. core_new i = Some (sl_core ord) \<and> oi_quantity i = a_quantity a \<and>
    oi_order_type i = StopLimit \<and> stop_limit_order_try_from i = Some (Inr ord)"
  by (rule construct_replay [where core = sl_core, OF n [unfolded stop_limit_order_new_checked_def]])
    (use n in \<open>simp_all add: stop_limit_order_try_from_def stop_limit_order_new_checked_def require_def
      args_of_event_def init_base_def\<close>)

lemma market_to_limit_order_replay:
  assumes n: "market_to_limit_order_new_checked a = Some (Inr ord)"
  shows "\<exists>i. core_new i = Some (mtl_core ord) \<and> oi_quantity i = a_quantity a \<and>
    oi_order_type i = MarketToLimit \<and> market_to_limit_order_try_from i = Some (Inr ord)"
  by (rule construct_replay [where core = mtl_core, OF n [unfolded market_to_limit_order_new_checked_def]])
    (use n in \<open>simp_all add: market_to_limit_order_try_from_def market_to_limit_order_new_checked_def require_def
      args_of_event_def init_base_def\<close>)

lemma market_if_touched_order_replay:
  assumes n: "market_if_touched_order_new_checked a tpx tt = Some (Inr ord)"
  shows "\<exists>i. core_new i = Some (mit_core ord) \<and> oi_quantity i = a_quantity a \<and>
    oi_order_type i = MarketIfTouched \<and> market_if_touched_order_try_from i = Some (Inr ord)"
  by (rule construct_replay [where core = mit_core, OF n [unfolded market_if_touched_order_new_checked_def]])
    (use n in \<open>simp_all add: market_if_touched_order_try_from_def market_if_touched_order_new_checked_def require_def
      args_of_event_def init_base_def\<close>)

lemma limit_if_touched_order_replay:
  assumes n: "limit_if_touched_order_new_checked a px tpx tt = Some (Inr ord)"
  shows "\<exists>i. core_new i = Some (lit_core ord) \<and> oi_quantity i = a_quantity a \<and>
    oi_order_type i = LimitIfTouched \<and> limit_if_touched_order_try_from i = Some (Inr ord)"
  by (rule construct_replay [where core = lit_core, OF n [unfolded limit_if_touched_order_new_checked_def]])
    (use n in \<open>simp_all add: limit_if_touched_order_try_from_def limit_if_touched_order_new_checked_def require_def
      args_of_event_def init_base_def\<close>)

lemma trailing_stop_market_order_replay:
  assumes n: "trailing_stop_market_order_new_checked a tpx tt to tot = Some (Inr ord)"
  shows "\<exists>i. core_new i = Some (tsm_core ord) \<and> oi_quantity i = a_quantity a \<and>
    oi_order_type i = TrailingStopMarket \<and> trailing_stop_market_order_try_from i = Some (Inr ord)"
  by (rule construct_replay [where core = tsm_core, OF n [unfolded trailing_stop_market_order_new_checked_def]])
    (use n in \<open>simp_all add: trailing_stop_market_order_try_from_def trailing_stop_market_order_new_checked_def require_def
      args_of_event_def init_base_def\<close>)

lemma trailing_stop_limit_order_replay:
  assumes n: "trailing_stop_limit_order_new_checked a px tpx tt lo to tot = Some (Inr ord)"
  shows "\<exists>i. core_new i = Some (tsl_core ord) \<and> oi_quantity i = a_quantity a \<and>
    oi_order_type i = TrailingStopLimit \<and> trailing_stop_limit_order_try_from i = Some (Inr ord)"
  by (rule construct_replay [where core = tsl_core, OF n [unfolded trailing_stop_limit_order_new_checked_def]])
    (use n in \<open>simp_all add: trailing_stop_limit_order_try_from_def trailing_stop_limit_order_new_checked_def require_def
      args_of_event_def init_base_def\<close>)

lemmas order_replay =
  market_order_replay limit_order_replay stop_market_order_replay stop_limit_order_replay market_to_limit_order_replay market_if_touched_order_replay limit_if_touched_order_replay trailing_stop_market_order_replay trailing_stop_limit_order_replay

lemma map_sum_Inr_iff: "map_sum id f s = Inr y \<longleftrightarrow> (\<exists>x. s = Inr x \<and> y = f x)"
  by (cases s) auto

lemma any_try_from_replay:
  assumes "any_try_from init = Some (Inr ord)"
  shows "\<exists>i. core_new i = Some (any_core ord) \<and> oi_quantity i = oi_quantity init \<and>
    any_try_from i = Some (Inr ord)"
  using assms
  by (cases "oi_order_type init")
    (force simp: any_try_from_def order_try_from_defs map_sum_Inr_iff
      dest!: require_Inr dest: order_replay)+

section \<open>Replaying a history\<close>

lemma core_apply_events: "core_apply F ev c = Some (None, c') \<Longrightarrow> o_events c' = o_events c @ [ev]"
proof (erule core_apply_Some)
  fix s c1
  assume d: "core_dispatch F ev (remember_status ev c \<lparr> o_status := s \<rparr>) = Some (Inr c1)"
    and c': "c' = c1 \<lparr> o_ts_last := event_ts_event ev, o_events := o_events c1 @ [ev] \<rparr>"
  have "o_events c1 = o_events c"
  proof (cases "\<exists>f. ev = EvFilled f")
    case False
    then show ?thesis using core_dispatch_not_fill [OF d] by simp
  next
    case True
    then show ?thesis using d by (auto elim!: core_filled_Some)
  qed
  then show "o_events c' = o_events c @ [ev]" by (simp add: c')
qed simp

lemma update_quantity_fields [simp]:
  "o_events (update_quantity u c) = o_events c" "o_status (update_quantity u c) = o_status c"
  "o_filled_qty (update_quantity u c) = o_filled_qty c"
  "o_avg_px (update_quantity u c) = o_avg_px c"
  "o_commissions (update_quantity u c) = o_commissions c"
  by (simp_all add: update_quantity_def)

lemma any_apply_events:
  "any_apply F ev ord = Some (None, ord') \<Longrightarrow> o_events (any_core ord') = o_events (any_core ord) @ [ev]"
  by (erule anyo.apply_Some) (simp_all add: core_apply_events)

lemma apply_all_append:
  "apply_all F (evs @ [ev]) ord =
     (case apply_all F evs ord of
        None \<Rightarrow> None
      | Some (Inl e) \<Rightarrow> Some (Inl e)
      | Some (Inr ord') \<Rightarrow> apply_all F [ev] ord')"
  by (induction evs arbitrary: ord) (auto split: option.splits sum.splits bind_splits)

lemma apply_all_success: "any_apply F ev ord = Some (None, ord') \<Longrightarrow> apply_all F [ev] ord = Some (Inr ord')"
  by simp

lemma from_events_append:
  assumes "from_events F evs = Some (Inr ord)" and "any_apply F ev ord = Some (None, ord')"
  shows "from_events F (evs @ [ev]) = Some (Inr ord')"
  using assms apply_all_success [OF assms(2)]
  by (auto simp: from_events_def apply_all_append split: list.splits order_event.splits sum.splits bind_splits)

lemma core_new_events: "core_new i = Some c \<Longrightarrow> o_events c = [EvInitialized i]"
  by (auto simp: core_new_def split: bind_splits)

lemma core_new_money:
  "core_new i = Some c \<Longrightarrow> o_avg_px c = None \<and> o_commissions c = [] \<and> fills (o_events c) = []"
  by (auto simp: core_new_def fills_def split: bind_splits)

lemma order_built_replay: "order_built F ord \<Longrightarrow> from_events F (o_events (any_core ord)) = Some (Inr ord)"
proof (induction rule: order_built.induct)
  case (built_new init ord)
  obtain i where "core_new i = Some (any_core ord)" and "any_try_from i = Some (Inr ord)"
    using any_try_from_replay [OF built_new] by blast
  then show ?case by (simp add: core_new_events from_events_def)
next
  case (built_event ord ev ord')
  then show ?case using from_events_append by (simp add: any_apply_events)
qed

section \<open>The invariant of reachable orders\<close>

lemma order_inv_slippage [simp]: "order_inv (c \<lparr> o_slippage := sl \<rparr>) = order_inv c"
  by (simp add: order_inv_def qty_inv_def status_inv_def history_inv_def)

lemma core_apply_updated_open:
  assumes "core_apply F (EvUpdated u) c = Some (None, c')" and "order_inv c"
  shows "o_status c' \<noteq> Filled"
  using assms core_apply_not_fill_status [OF assms(1)] by (simp add: order_inv_def)

lemma order_inv_update_quantity:
  assumes "order_inv c" and "q_raw (ou_quantity u) \<le> U64_MAX" and "o_status c \<noteq> Filled"
  shows "order_inv (update_quantity u c)"
  using assms by (auto simp: order_inv_def qty_inv_def status_inv_def history_inv_def
      update_quantity_def quantity_saturating_sub_def)

lemma order_inv_any_apply:
  assumes "any_apply F ev ord = Some (r, ord')" and "order_inv (any_core ord)" and "event_typed ev"
  shows "order_inv (any_core ord')"
  using assms(1)
proof (cases rule: anyo.apply_Some)
  case (error e)
  then show ?thesis using order_inv_apply assms(2) by blast
next
  case (updated u c)
  then show ?thesis
    using order_inv_apply [OF updated(3) assms(2)] core_apply_updated_open [of F u _ c] assms(2,3)
    by (auto intro: order_inv_update_quantity)
next
  case (other c sl)
  then show ?thesis using order_inv_apply [OF other(3) assms(2)] by simp
qed

lemma order_reach_inv: "order_reach F ord \<Longrightarrow> order_inv (any_core ord)"
proof (induction rule: order_reach.induct)
  case (created init ord)
  then show ?case using any_try_from_replay [OF created(1)] core_new_Some by fastforce
next
  case (applied ord ev r ord')
  then show ?case using order_inv_any_apply by blast
qed

section \<open>Errors\<close>

lemma dispatch_error_kind:
  assumes "transition (o_status c) ev = Inr s" and "status_inv c"
  shows "core_dispatch F ev (remember_status ev c \<lparr> o_status := s \<rparr>) \<noteq> Some (Inl e)"
proof
  assume d: "core_dispatch F ev (remember_status ev c \<lparr> o_status := s \<rparr>) = Some (Inl e)"
  have "request_pending (o_status c)" and "o_previous_status c = None"
    using d assms(1) remember_status_previous [of c ev]
    by (cases ev; force simp: transition_initialized_event core_handler_defs request_pending_def
        dest: transition_reject_requests split: option.splits)+
  then show False using assms(2) by (simp add: status_inv_def)
qed

lemma core_apply_error_kind:
  assumes "core_apply F ev c = Some (Some e, c')" and "status_inv c"
  shows "e \<noteq> AlreadyInitialized \<and> e \<noteq> NoPreviousState"
  using assms(1) dispatch_error_kind [OF _ assms(2), of ev _ F]
  unfolding core_apply_def Let_def
  by (auto dest: transition_error split: if_splits option.splits sum.splits)

lemma core_apply_error_core:
  assumes "core_apply F ev c = Some (Some e, c')"
  shows "\<exists>p. c' = c \<lparr> o_previous_status := p \<rparr>"
proof -
  have "c' = c \<or> c' = c \<lparr> o_previous_status := Some (o_status c) \<rparr>"
    using assms by (rule core_apply_Some) (auto simp: remember_status_def)
  then show ?thesis
    by (elim disjE) (auto intro: exI [of _ "o_previous_status c"])
qed

section \<open>Average price and commissions\<close>

lemma avg_inv_update [simp]:
  "avg_inv (update_quantity u c) = avg_inv c" "avg_inv (c \<lparr> o_slippage := sl \<rparr>) = avg_inv c"
  by (simp_all add: avg_inv_def split: option.split)

lemma core_apply_fill_total:
  "core_apply F ev c = Some (r, c') \<Longrightarrow> fill_total (o_events c) \<le> fill_total (o_events c')"
  by (cases r) (auto simp: core_apply_events elim!: core_apply_Some)

lemma order_reach_avg:
  assumes "order_reach exact_f64 ord" and "fill_total (o_events (any_core ord)) \<le> U64_MAX"
  shows "avg_inv (any_core ord)"
  using assms
proof (induction rule: order_reach.induct)
  case (created init ord)
  then show ?case using any_try_from_replay [OF created(1)]
    by (auto simp: avg_inv_def dest!: core_new_money)
next
  case (applied ord ev r ord')
  note inv = order_reach_inv [OF applied(1)]
  have step: "avg_inv c'" if "core_apply exact_f64 ev (any_core ord) = Some (r', c')"
    and "fill_total (o_events c') \<le> U64_MAX" for r' c'
    using avg_inv_apply [OF that(1) inv _ that(2)] applied.IH core_apply_fill_total [OF that(1)] that(2)
    by linarith
  from applied(3) show ?case
    by (cases rule: anyo.apply_Some) (use step applied.prems in \<open>auto\<close>)
qed




lemma apply_all_reach:
  "apply_all F evs ord = Some (Inr ord') \<Longrightarrow> order_reach F ord \<Longrightarrow> list_all event_typed evs \<Longrightarrow> order_reach F ord'"
proof (induction evs arbitrary: ord)
  case (Cons ev evs)
  then show ?case by (auto split: bind_splits option.splits dest: order_reach.applied)
qed simp

lemma from_events_reach:
  assumes "from_events F (EvInitialized init # evs) = Some (Inr ord)"
    and "q_raw (oi_quantity init) \<le> U64_MAX" and "list_all event_typed evs"
  shows "order_reach F ord"
  using assms by (auto simp: from_events_def split: bind_splits sum.splits
      intro: apply_all_reach order_reach.created)

lemma apply_all_built:
  "apply_all F evs ord = Some (Inr ord') \<Longrightarrow> order_built F ord \<Longrightarrow> order_built F ord'"
proof (induction evs arbitrary: ord)
  case (Cons ev evs)
  then show ?case by (auto split: bind_splits option.splits dest: order_built.built_event)
qed simp

lemma from_events_built: "from_events F evs = Some (Inr ord) \<Longrightarrow> order_built F ord"
  by (auto simp: from_events_def split: bind_splits sum.splits list.splits order_event.splits
      intro: apply_all_built order_built.built_new)

section \<open>The example evaluated\<close>

lemmas ex_defs = ex_history_def ex_init_def ex_base_def ex_submitted_def ex_accepted_def ex_fill_def
  order_event_base.defs order_submitted.defs order_accepted.defs order_filled.defs

lemmas create_defs = from_events_def any_try_from_def init_base_def limit_order_try_from_def
  limit_order_new_checked_def require_def args_of_event_def order_check_quantity_def
  check_positive_quantity_def quantity_is_positive_def QUANTITY_UNDEF_def U64_MAX_def
  check_display_qty_def check_time_in_force_def core_new_def quantity_zero_def
  check_fixed_precision_def FIXED_PRECISION_def

lemmas apply_defs = limit_order_apply_def core_apply_def remember_status_def duplicate_trade_def
  transition_def core_submitted_def core_accepted_def core_filled_def fill_overfill_def fill_status_def
  fill_record_def core_set_avg_px_def core_set_slippage_def quantity_from_raw_def u64_saturating_add_def
  QUANTITY_RAW_MAX_def quantity_saturating_sub_def quantity_sub_def u64_checked_sub_def
  quantity_as_f64_def price_as_f64_def FIXED_SCALAR_def Let_def

lemma ex_history_ok:
  obtains ord :: "(nat, rat) order_any" where "from_events exact_f64 ex_history = Some (Inr ord)"
    and "o_status (any_core ord) = Filled" and "o_events (any_core ord) = ex_history"
    and "q_raw (o_filled_qty (any_core ord)) = 100000000000"
    and "o_avg_px (any_core ord) = Some (46 / 10)"
proof -
  have "case (from_events exact_f64 ex_history :: (order_error + (nat, rat) order_any) option) of
      Some (Inr ord) \<Rightarrow> o_status (any_core ord) = Filled \<and> o_events (any_core ord) = ex_history \<and>
        q_raw (o_filled_qty (any_core ord)) = 100000000000 \<and> o_avg_px (any_core ord) = Some (46 / 10)
    | _ \<Rightarrow> False"
    by (simp add: ex_defs create_defs apply_defs)
  then show thesis using that by (auto split: option.splits sum.splits)
qed

lemma ex_history_reach:
  "from_events F ex_history = Some (Inr ord) \<Longrightarrow> order_reach F ord"
  unfolding ex_history_def
  by (erule from_events_reach) (simp_all add: ex_init_def init_base_def U64_MAX_def)

lemma ex_history_fills: "fills ex_history = [ex_fill ''T-1'' 40 4, ex_fill ''T-2'' 60 5]"
  by (simp add: ex_history_def fills_def)

lemma ex_fill_simps [simp]:
  "q_raw (of_last_qty (ex_fill t q p)) = q * 1000000000" "p_raw (of_last_px (ex_fill t q p)) = p * 1000000000"
  "of_trade_id (ex_fill t q p) = t"
  by (simp_all add: ex_fill_def order_filled.defs order_event_base.defs)

lemma request_remembered:
  assumes "core_apply F ev c = Some (None, c1)" and "\<not> request_pending (o_status c)"
    and "(\<exists>p. ev = EvPendingUpdate p) \<or> (\<exists>p. ev = EvPendingCancel p)"
  shows "o_previous_status c1 = Some (o_status c) \<and>
    ((\<exists>p. ev = EvPendingUpdate p) \<longrightarrow> o_status c1 = PendingUpdate)"
proof -
  have tr: "\<exists>p. ev = EvPendingUpdate p \<Longrightarrow> transition (o_status c) ev = Inr s \<Longrightarrow> s = PendingUpdate" for s
    by (cases "o_status c") (auto simp: transition_def)
  from assms(1) show ?thesis
    by (cases rule: core_apply_Some)
      (use assms(2,3) tr in \<open>auto simp: remember_status_def request_pending_def core_handler_defs\<close>)
qed

lemma answer_restores:
  assumes "core_apply F ev c = Some (None, c1)" and "o_previous_status c = Some s"
    and "(\<exists>m. ev = EvModifyRejected m) \<or> (\<exists>x. ev = EvCancelRejected x) \<or>
      ((\<exists>u. ev = EvUpdated u) \<and> o_status c = PendingUpdate)"
  shows "o_status c1 = s"
proof -
  have tr: "\<exists>u. ev = EvUpdated u \<Longrightarrow> transition (o_status c) ev = Inr s' \<Longrightarrow> s' = o_status c" for s'
    using transition_updated by blast
  from assms(1) show ?thesis
    by (cases rule: core_apply_Some)
      (use assms(2,3) tr in \<open>auto simp: remember_status_def core_handler_defs core_updated_fields\<close>)
qed

section \<open>Properties\<close>

text \<open>
  C1: Accounting invariant.  Whatever events are applied to an order of any type, successfully or
  not, its filled quantity is the sum of the fills in its history (capped at the largest
  \<open>u64\<close>), its leaves quantity is what is left of the order quantity, the overfill is exactly the
  excess of a filled order, and the trade ids are those of the fills, without repetition.
\<close>

theorem order_accounting:
  assumes "order_reach F ord"
  defines "c \<equiv> any_core ord"
  shows "q_raw (o_filled_qty c) = min U64_MAX (fill_total (o_events c)) \<and>
    q_raw (o_leaves_qty c) = q_raw (o_quantity c) - q_raw (o_filled_qty c) \<and>
    q_raw (o_overfill_qty c) =
      (if o_status c = Filled then q_raw (o_filled_qty c) - q_raw (o_quantity c) else 0) \<and>
    (o_status c = Filled \<longrightarrow> q_raw (o_quantity c) \<le> q_raw (o_filled_qty c)) \<and>
    o_trade_ids c = map of_trade_id (fills (o_events c)) \<and> distinct (o_trade_ids c)"
  using order_reach_inv [OF assms(1)] unfolding c_def order_inv_def qty_inv_def history_inv_def by blast

theorem order_accounting_witness:
  "\<exists>ord :: (nat, rat) order_any. from_events exact_f64 ex_history = Some (Inr ord) \<and>
     q_raw (o_filled_qty (any_core ord)) = 100000000000 \<and>
     o_trade_ids (any_core ord) = [''T-1'', ''T-2'']"
proof (rule ex_history_ok)
  fix ord :: "(nat, rat) order_any"
  assume ord: "from_events exact_f64 ex_history = Some (Inr ord)"
    and ev: "o_events (any_core ord) = ex_history"
  show ?thesis
    using order_accounting [OF ex_history_reach [OF ord]] ord
    by (intro exI [of _ ord])
      (simp add: ev fill_total_def ex_history_fills U64_MAX_def)
qed



text \<open>
  Refused events.  An event refused by an order of any type changes nothing but the remembered
  previous status, and for an order built from its events the error is never \<open>AlreadyInitialized\<close>
  or \<open>NoPreviousState\<close>: the state machine refuses those cases first.
\<close>

lemma order_error_keeps_order:
  assumes "order_reach F ord" and "any_apply F ev ord = Some (Some e, ord')"
  shows "(\<exists>p. any_core ord' = (any_core ord) \<lparr> o_previous_status := p \<rparr>) \<and>
    e \<noteq> AlreadyInitialized \<and> e \<noteq> NoPreviousState"
  using assms(2)
proof (cases rule: anyo.apply_Some)
  case (error e')
  then show ?thesis
    using core_apply_error_core [OF error(2)] core_apply_error_kind [OF error(2)]
      order_reach_inv [OF assms(1)] by (simp add: order_inv_def)
qed simp_all



text \<open>
  C24: Average price.  In exact arithmetic the incrementally maintained average price of a
  filled order is the volume-weighted average of the prices of its fills.
\<close>

theorem order_avg_px_weighted:
  assumes "order_reach exact_f64 ord"
  defines "fs \<equiv> fills (o_events (any_core ord))"
  assumes "fill_total (o_events (any_core ord)) \<le> U64_MAX" and "0 < fill_total (o_events (any_core ord))"
  shows "o_avg_px (any_core ord) =
    Some ((\<Sum>f \<leftarrow> fs. of_int (p_raw (of_last_px f)) / 10 ^ 9 * of_nat (q_raw (of_last_qty f))) /
          of_nat (\<Sum>f \<leftarrow> fs. q_raw (of_last_qty f)))"
proof -
  have filled: "q_raw (o_filled_qty (any_core ord)) = fill_total (o_events (any_core ord))"
    using order_reach_inv [OF assms(1)] assms(3) by (simp add: order_inv_def qty_inv_def)
  define N where "N = fill_total (o_events (any_core ord))"
  have "fs \<noteq> []" using assms(4) by (auto simp: fs_def fill_total_def)
  then obtain a where a: "o_avg_px (any_core ord) = Some a" and "a * of_nat N = notional fs"
    using order_reach_avg [OF assms(1,3)] filled
    by (auto simp: avg_inv_def fs_def N_def split: option.splits)
  moreover have "N \<noteq> 0" using assms(4) by (simp add: N_def)
  ultimately have "a = notional fs / of_nat N" by (simp add: eq_divide_eq)
  then show ?thesis by (simp add: a notional_def N_def fill_total_def fs_def)
qed

theorem order_avg_px_weighted_witness:
  "\<exists>ord :: (nat, rat) order_any. from_events exact_f64 ex_history = Some (Inr ord) \<and>
     o_avg_px (any_core ord) = Some (23 / 5)"
proof (rule ex_history_ok)
  fix ord :: "(nat, rat) order_any"
  assume ord: "from_events exact_f64 ex_history = Some (Inr ord)"
    and ev: "o_events (any_core ord) = ex_history"
  show ?thesis
    using order_avg_px_weighted [OF ex_history_reach [OF ord]] ord
    by (intro exI [of _ ord]) (simp add: ev fill_total_def ex_history_fills U64_MAX_def)
qed

text \<open>
  C5: Event sourcing.  Rebuilding an order with \<open>from_events\<close> from the events it stores gives back
  the very same order, for every order type and every history of successfully applied events.
\<close>

theorem order_from_events_roundtrip:
  assumes "order_built F ord"
  shows "from_events F (o_events (any_core ord)) = Some (Inr ord)"
  using assms by (rule order_built_replay)

theorem order_from_events_roundtrip_witness:
  "\<exists>ord :: (nat, rat) order_any. from_events exact_f64 ex_history = Some (Inr ord) \<and>
     from_events exact_f64 (o_events (any_core ord)) = Some (Inr ord)"
proof (rule ex_history_ok)
  fix ord :: "(nat, rat) order_any"
  assume ord: "from_events exact_f64 ex_history = Some (Inr ord)"
  then show ?thesis
    using order_from_events_roundtrip [OF from_events_built [OF ord]] by blast
qed



text \<open>
  Requests come back.  When a modification or a cancel is requested of an order and the venue
  answers (the modification is rejected or carried out, the cancel is rejected), the order is in
  the status it had before the request.
\<close>

lemma order_request_returns:
  assumes "\<not> request_pending (o_status (any_core ord))"
    and "any_apply F req ord = Some (None, ord1)" and "any_apply F ans ord1 = Some (None, ord2)"
    and "(\<exists>p. req = EvPendingUpdate p) \<and> ((\<exists>m. ans = EvModifyRejected m) \<or> (\<exists>u. ans = EvUpdated u)) \<or>
      (\<exists>p. req = EvPendingCancel p) \<and> (\<exists>x. ans = EvCancelRejected x)"
  shows "o_status (any_core ord2) = o_status (any_core ord)"
proof -
  obtain c1 where c1: "core_apply F req (any_core ord) = Some (None, c1)"
    and ord1: "o_status (any_core ord1) = o_status c1" "o_previous_status (any_core ord1) = o_previous_status c1"
    using anyo.apply_ok_status [OF assms(2)] .
  obtain c2 where c2: "core_apply F ans (any_core ord1) = Some (None, c2)"
    and ord2: "o_status (any_core ord2) = o_status c2"
    using anyo.apply_ok_status [OF assms(3)] .
  have req: "o_previous_status (any_core ord1) = Some (o_status (any_core ord))"
    and upd: "\<exists>p. req = EvPendingUpdate p \<Longrightarrow> o_status (any_core ord1) = PendingUpdate"
    using request_remembered [OF c1 assms(1)] assms(4) by (auto simp: ord1)
  have "o_status c2 = o_status (any_core ord)"
    by (rule answer_restores [OF c2 req]) (use assms(4) upd in blast)
  then show ?thesis by (simp add: ord2)
qed

end
