(* ===== verification/Matching_Core.thy ===== *)
theory Matching_Core
  imports Order_Types Rust_Collections
begin

text \<open>
  The matching core of \<open>execution/src/matching_core/mod.rs\<close>: per side a limit book and a stop book, each
  a tree map from prices to buckets in arrival order, orders without a price in a pending bucket, and an
  index from client order ids to their place.  The conversions of an order to a passive order, which the
  core is fed with, are those of \<open>model/src/orders/any.rs\<close>.

  \<open>delete_order\<close> panics where the index points at a bucket or a slot that is not there; the lemmas show
  that no core its operations can reach does so.
\<close>

section \<open>Passive orders\<close>

datatype ('d, 'f) limit_order_any =
    LimLimit "('d, 'f) limit_order"
  | LimMarketToLimit "('d, 'f) market_to_limit_order"
  | LimStopLimit "('d, 'f) stop_limit_order"
  | LimTrailingStopLimit "('d, 'f) trailing_stop_limit_order"
  | LimMarketOrderWithProtection "('d, 'f) market_order"

datatype ('d, 'f) stop_order_any =
    StpLimitIfTouched "('d, 'f) limit_if_touched_order"
  | StpMarketIfTouched "('d, 'f) market_if_touched_order"
  | StpStopLimit "('d, 'f) stop_limit_order"
  | StpStopMarket "('d, 'f) stop_market_order"
  | StpTrailingStopLimit "('d, 'f) trailing_stop_limit_order"
  | StpTrailingStopMarket "('d, 'f) trailing_stop_market_order"

datatype ('d, 'f) passive_order_any =
    PassiveLimit "('d, 'f) limit_order_any"
  | PassiveStop "('d, 'f) stop_order_any"

fun limit_any_to_any :: "('d, 'f) limit_order_any \<Rightarrow> ('d, 'f) order_any" where
  "limit_any_to_any (LimLimit x) = AnyLimit x"
| "limit_any_to_any (LimMarketToLimit x) = AnyMarketToLimit x"
| "limit_any_to_any (LimStopLimit x) = AnyStopLimit x"
| "limit_any_to_any (LimTrailingStopLimit x) = AnyTrailingStopLimit x"
| "limit_any_to_any (LimMarketOrderWithProtection x) = AnyMarket x"

fun stop_any_to_any :: "('d, 'f) stop_order_any \<Rightarrow> ('d, 'f) order_any" where
  "stop_any_to_any (StpLimitIfTouched x) = AnyLimitIfTouched x"
| "stop_any_to_any (StpMarketIfTouched x) = AnyMarketIfTouched x"
| "stop_any_to_any (StpStopLimit x) = AnyStopLimit x"
| "stop_any_to_any (StpStopMarket x) = AnyStopMarket x"
| "stop_any_to_any (StpTrailingStopLimit x) = AnyTrailingStopLimit x"
| "stop_any_to_any (StpTrailingStopMarket x) = AnyTrailingStopMarket x"

fun passive_to_any :: "('d, 'f) passive_order_any \<Rightarrow> ('d, 'f) order_any" where
  "passive_to_any (PassiveLimit x) = limit_any_to_any x"
| "passive_to_any (PassiveStop x) = stop_any_to_any x"

text \<open>The conversions fail with a message; only the order type in it matters.\<close>

fun limit_any_try_from :: "('d, 'f) order_any \<Rightarrow> order_type + ('d, 'f) limit_order_any" where
  "limit_any_try_from (AnyLimit x) = Inr (LimLimit x)"
| "limit_any_try_from (AnyMarketToLimit x) = Inr (LimMarketToLimit x)"
| "limit_any_try_from (AnyStopLimit x) = Inr (LimStopLimit x)"
| "limit_any_try_from (AnyTrailingStopLimit x) = Inr (LimTrailingStopLimit x)"
| "limit_any_try_from (AnyMarket x) = Inr (LimMarketOrderWithProtection x)"
| "limit_any_try_from ord = Inl (o_order_type (any_core ord))"

fun stop_any_try_from :: "('d, 'f) order_any \<Rightarrow> order_type + ('d, 'f) stop_order_any" where
  "stop_any_try_from (AnyLimitIfTouched x) = Inr (StpLimitIfTouched x)"
| "stop_any_try_from (AnyMarketIfTouched x) = Inr (StpMarketIfTouched x)"
| "stop_any_try_from (AnyStopLimit x) = Inr (StpStopLimit x)"
| "stop_any_try_from (AnyStopMarket x) = Inr (StpStopMarket x)"
| "stop_any_try_from (AnyTrailingStopLimit x) = Inr (StpTrailingStopLimit x)"
| "stop_any_try_from (AnyTrailingStopMarket x) = Inr (StpTrailingStopMarket x)"
| "stop_any_try_from ord = Inl (o_order_type (any_core ord))"

fun passive_try_from :: "('d, 'f) order_any \<Rightarrow> order_type + ('d, 'f) passive_order_any" where
  "passive_try_from (AnyLimit x) = map_sum id PassiveLimit (limit_any_try_from (AnyLimit x))"
| "passive_try_from (AnyLimitIfTouched x) = map_sum id PassiveStop (stop_any_try_from (AnyLimitIfTouched x))"
| "passive_try_from (AnyMarketIfTouched x) = map_sum id PassiveStop (stop_any_try_from (AnyMarketIfTouched x))"
| "passive_try_from (AnyStopLimit x) = map_sum id PassiveStop (stop_any_try_from (AnyStopLimit x))"
| "passive_try_from (AnyStopMarket x) = map_sum id PassiveStop (stop_any_try_from (AnyStopMarket x))"
| "passive_try_from (AnyTrailingStopLimit x) = map_sum id PassiveStop (stop_any_try_from (AnyTrailingStopLimit x))"
| "passive_try_from (AnyTrailingStopMarket x) = map_sum id PassiveStop (stop_any_try_from (AnyTrailingStopMarket x))"
| "passive_try_from (AnyMarketToLimit x) = map_sum id PassiveLimit (limit_any_try_from (AnyMarketToLimit x))"
| "passive_try_from (AnyMarket x) = map_sum id PassiveLimit (limit_any_try_from (AnyMarket x))"

fun limit_px :: "('d, 'f) limit_order_any \<Rightarrow> price option" where
  "limit_px (LimLimit x) = Some (lo_price x)"
| "limit_px (LimMarketToLimit x) = mtl_price x"
| "limit_px (LimStopLimit x) = Some (sl_price x)"
| "limit_px (LimTrailingStopLimit x) = Some (tsl_price x)"
| "limit_px (LimMarketOrderWithProtection x) = mo_protection_price x"

fun stop_px :: "('d, 'f) stop_order_any \<Rightarrow> price" where
  "stop_px (StpLimitIfTouched x) = lit_trigger_price x"
| "stop_px (StpMarketIfTouched x) = mit_trigger_price x"
| "stop_px (StpStopLimit x) = sl_trigger_price x"
| "stop_px (StpStopMarket x) = sm_trigger_price x"
| "stop_px (StpTrailingStopLimit x) = (case tsl_activation_price x of None \<Rightarrow> tsl_trigger_price x | Some p \<Rightarrow> p)"
| "stop_px (StpTrailingStopMarket x) = (case tsm_activation_price x of None \<Rightarrow> tsm_trigger_price x | Some p \<Rightarrow> p)"

section \<open>Resting orders\<close>

datatype book_kind = LimitBook | StopBook

datatype match_action = FillLimit string | TriggerStop string

record resting_order =
  ro_client_order_id :: string
  ro_order_side :: order_side_specified
  ro_order_type :: order_type
  ro_trigger_price :: "price option"
  ro_limit_price :: "price option"
  ro_is_activated :: bool

definition resting_order_new ::
    "string \<Rightarrow> order_side_specified \<Rightarrow> order_type \<Rightarrow> price option \<Rightarrow> price option \<Rightarrow> bool \<Rightarrow> resting_order" where
  "resting_order_new client_order_id order_side order_type trigger_price limit_price is_activated =
     \<lparr> ro_client_order_id = client_order_id, ro_order_side = order_side, ro_order_type = order_type,
       ro_trigger_price = trigger_price, ro_limit_price = limit_price, ro_is_activated = is_activated \<rparr>"

definition ro_is_stop :: "resting_order \<Rightarrow> bool" where
  "ro_is_stop order \<longleftrightarrow> ro_trigger_price order \<noteq> None"

definition ro_is_limit :: "resting_order \<Rightarrow> bool" where
  "ro_is_limit order \<longleftrightarrow> ro_limit_price order \<noteq> None \<and> ro_trigger_price order = None"

fun stop_limit_price :: "('d, 'f) stop_order_any \<Rightarrow> price option" where
  "stop_limit_price (StpLimitIfTouched x) = Some (lit_price x)"
| "stop_limit_price (StpStopLimit x) = Some (sl_price x)"
| "stop_limit_price (StpTrailingStopLimit x) = Some (tsl_price x)"
| "stop_limit_price _ = None"

fun stop_is_activated :: "('d, 'f) stop_order_any \<Rightarrow> bool" where
  "stop_is_activated (StpTrailingStopMarket x) = tsm_is_activated x"
| "stop_is_activated (StpTrailingStopLimit x) = tsl_is_activated x"
| "stop_is_activated _ = True"

definition resting_from_passive :: "('d, 'f) passive_order_any \<Rightarrow> resting_order option" where
  "resting_from_passive passive =
     (let core = any_core (passive_to_any passive) in
      case passive of
        PassiveLimit limit \<Rightarrow> do {
          side \<leftarrow> as_specified (o_side core);
          price \<leftarrow> limit_px limit;
          Some (resting_order_new (o_client_order_id core) side (o_order_type core) None (Some price) True)
        }
      | PassiveStop stop \<Rightarrow> do {
          side \<leftarrow> as_specified (o_side core);
          Some (resting_order_new (o_client_order_id core) side (o_order_type core)
                  (Some (stop_px stop)) (stop_limit_price stop) (stop_is_activated stop))
        })"

section \<open>The core\<close>

type_synonym order_bucket = "resting_order list"
type_synonym price_book = "(price, order_bucket) btree_map"

abbreviation price_order :: "price comparator" where
  "price_order a b \<equiv> Some (price_cmp a b)"

record matching_core =
  mc_instrument_id :: string
  mc_price_increment :: price
  mc_bid :: "price option"
  mc_ask :: "price option"
  mc_last :: "price option"
  mc_fill_limit_inside_spread :: bool
  mc_bid_limits :: price_book
  mc_ask_limits :: price_book
  mc_bid_stops :: price_book
  mc_ask_stops :: price_book
  mc_pending_bid :: order_bucket
  mc_pending_ask :: order_bucket
  mc_order_index :: "string \<rightharpoonup> order_side_specified \<times> (book_kind \<times> price) option"

definition mc_new :: "string \<Rightarrow> price \<Rightarrow> matching_core" where
  "mc_new instrument_id price_increment =
     \<lparr> mc_instrument_id = instrument_id, mc_price_increment = price_increment, mc_bid = None, mc_ask = None,
       mc_last = None, mc_fill_limit_inside_spread = False, mc_bid_limits = [], mc_ask_limits = [],
       mc_bid_stops = [], mc_ask_stops = [], mc_pending_bid = [], mc_pending_ask = [],
       mc_order_index = Map.empty \<rparr>"

definition book_for :: "order_side_specified \<Rightarrow> book_kind \<Rightarrow> matching_core \<Rightarrow> price_book" where
  "book_for side kind c =
     (case (side, kind) of
        (BuySide, LimitBook) \<Rightarrow> mc_bid_limits c
      | (BuySide, StopBook) \<Rightarrow> mc_bid_stops c
      | (SellSide, LimitBook) \<Rightarrow> mc_ask_limits c
      | (SellSide, StopBook) \<Rightarrow> mc_ask_stops c)"

definition pending_for :: "order_side_specified \<Rightarrow> matching_core \<Rightarrow> order_bucket" where
  "pending_for side c = (case side of BuySide \<Rightarrow> mc_pending_bid c | SellSide \<Rightarrow> mc_pending_ask c)"

text \<open>Writing through the mutable references of \<open>add_order\<close> and \<open>delete_order\<close>.\<close>

definition put_book :: "order_side_specified \<Rightarrow> book_kind \<Rightarrow> price_book \<Rightarrow> matching_core \<Rightarrow> matching_core" where
  "put_book side kind book c =
     (case (side, kind) of
        (BuySide, LimitBook) \<Rightarrow> c \<lparr> mc_bid_limits := book \<rparr>
      | (BuySide, StopBook) \<Rightarrow> c \<lparr> mc_bid_stops := book \<rparr>
      | (SellSide, LimitBook) \<Rightarrow> c \<lparr> mc_ask_limits := book \<rparr>
      | (SellSide, StopBook) \<Rightarrow> c \<lparr> mc_ask_stops := book \<rparr>)"

definition put_pending :: "order_side_specified \<Rightarrow> order_bucket \<Rightarrow> matching_core \<Rightarrow> matching_core" where
  "put_pending side pending c =
     (case side of BuySide \<Rightarrow> c \<lparr> mc_pending_bid := pending \<rparr> | SellSide \<Rightarrow> c \<lparr> mc_pending_ask := pending \<rparr>)"

definition mc_get_order :: "string \<Rightarrow> matching_core \<Rightarrow> resting_order option option" where
  "mc_get_order client_order_id c =
     (case mc_order_index c client_order_id of
        None \<Rightarrow> Some None
      | Some (side, Some (kind, price)) \<Rightarrow> do {
          found \<leftarrow> bt_get price_order price (book_for side kind c);
          Some (Option.bind found (find (\<lambda>x. ro_client_order_id x = client_order_id)))
        }
      | Some (side, None) \<Rightarrow> Some (find (\<lambda>x. ro_client_order_id x = client_order_id) (pending_for side c)))"

definition iter_bid_orders :: "matching_core \<Rightarrow> resting_order list" where
  "iter_bid_orders c = concat (rev (bt_values (mc_bid_limits c))) @ concat (bt_values (mc_bid_stops c)) @ mc_pending_bid c"

definition iter_ask_orders :: "matching_core \<Rightarrow> resting_order list" where
  "iter_ask_orders c = concat (bt_values (mc_ask_limits c)) @ concat (rev (bt_values (mc_ask_stops c))) @ mc_pending_ask c"

definition iter_orders :: "matching_core \<Rightarrow> resting_order list" where
  "iter_orders c = iter_bid_orders c @ iter_ask_orders c"

definition mc_order_exists :: "string \<Rightarrow> matching_core \<Rightarrow> bool" where
  "mc_order_exists client_order_id c \<longleftrightarrow> mc_order_index c client_order_id \<noteq> None"

definition set_last_raw :: "price \<Rightarrow> matching_core \<Rightarrow> matching_core" where
  "set_last_raw px c = c \<lparr> mc_last := Some px \<rparr>"

definition set_bid_raw :: "price \<Rightarrow> matching_core \<Rightarrow> matching_core" where
  "set_bid_raw px c = c \<lparr> mc_bid := Some px \<rparr>"

definition set_ask_raw :: "price \<Rightarrow> matching_core \<Rightarrow> matching_core" where
  "set_ask_raw px c = c \<lparr> mc_ask := Some px \<rparr>"

definition update_price_increment :: "price \<Rightarrow> matching_core \<Rightarrow> matching_core" where
  "update_price_increment price_increment c = c \<lparr> mc_price_increment := price_increment \<rparr>"

definition set_fill_limit_inside_spread :: "bool \<Rightarrow> matching_core \<Rightarrow> matching_core" where
  "set_fill_limit_inside_spread v c = c \<lparr> mc_fill_limit_inside_spread := v \<rparr>"

definition mc_reset :: "matching_core \<Rightarrow> matching_core" where
  "mc_reset c = c \<lparr> mc_bid := None, mc_ask := None, mc_last := None, mc_bid_limits := [], mc_ask_limits := [],
     mc_bid_stops := [], mc_ask_stops := [], mc_pending_bid := [], mc_pending_ask := [], mc_order_index := Map.empty \<rparr>"

definition locate :: "resting_order \<Rightarrow> (book_kind \<times> price) option" where
  "locate order =
     (if ro_is_stop order then map_option (Pair StopBook) (ro_trigger_price order)
      else map_option (Pair LimitBook) (ro_limit_price order))"

text \<open>\<open>book.entry(price).or_default().push(order)\<close>\<close>

definition entry_push :: "price \<Rightarrow> resting_order \<Rightarrow> price_book \<Rightarrow> price_book option" where
  "entry_push price order book = do {
     found \<leftarrow> bt_get price_order price book;
     bt_insert price_order price ((case found of None \<Rightarrow> [] | Some bucket \<Rightarrow> bucket) @ [order]) book
   }"

definition add_order :: "resting_order \<Rightarrow> matching_core \<Rightarrow> matching_core option" where
  "add_order order c =
     (let side = ro_order_side order;
          client_order_id = ro_client_order_id order;
          location = locate order
      in map_option (\<lambda>c. c \<lparr> mc_order_index := (mc_order_index c)(client_order_id \<mapsto> (side, location)) \<rparr>)
           (case location of
              Some (kind, price) \<Rightarrow>
                map_option (\<lambda>book. put_book side kind book c) (entry_push price order (book_for side kind c))
            | None \<Rightarrow> Some (put_pending side (pending_for side c @ [order]) c)))"

text \<open>\<open>position\<close> followed by \<open>remove\<close>; \<open>None\<close> where \<open>expect\<close> panics.\<close>

fun bucket_remove :: "string \<Rightarrow> order_bucket \<Rightarrow> order_bucket option" where
  "bucket_remove client_order_id [] = None"
| "bucket_remove client_order_id (x # bucket) =
     (if ro_client_order_id x = client_order_id then Some bucket
      else map_option (Cons x) (bucket_remove client_order_id bucket))"

definition delete_order :: "string \<Rightarrow> matching_core \<Rightarrow> (order_error option \<times> matching_core) option" where
  "delete_order client_order_id c =
     (case mc_order_index c client_order_id of
        None \<Rightarrow> Some (Some (NotFound client_order_id), c)
      | Some (side, location) \<Rightarrow>
          let c = c \<lparr> mc_order_index := (mc_order_index c)(client_order_id := None) \<rparr>
          in map_option (Pair None)
            (case location of
               Some (kind, price) \<Rightarrow> do {
                 let book = book_for side kind c;
                 found \<leftarrow> bt_get price_order price book;
                 bucket \<leftarrow> found;
                 bucket \<leftarrow> bucket_remove client_order_id bucket;
                 book \<leftarrow> bt_insert price_order price bucket book;
                 book \<leftarrow> (if bucket = [] then bt_remove price_order price book else Some book);
                 Some (put_book side kind book c)
               }
             | None \<Rightarrow> do {
                 pending \<leftarrow> bucket_remove client_order_id (pending_for side c);
                 Some (put_pending side pending c)
               }))"

section \<open>Matching\<close>

definition is_limit_matched :: "order_side_specified \<Rightarrow> price \<Rightarrow> matching_core \<Rightarrow> bool" where
  "is_limit_matched side price c =
     (case side of
        BuySide \<Rightarrow> (case mc_ask c of None \<Rightarrow> False | Some a \<Rightarrow> p_raw a \<le> p_raw price)
      | SellSide \<Rightarrow> (case mc_bid c of None \<Rightarrow> False | Some b \<Rightarrow> p_raw b \<ge> p_raw price))"

definition is_stop_matched :: "order_side_specified \<Rightarrow> price \<Rightarrow> matching_core \<Rightarrow> bool" where
  "is_stop_matched side price c =
     (case side of
        BuySide \<Rightarrow> (case mc_ask c of None \<Rightarrow> False | Some a \<Rightarrow> p_raw a \<ge> p_raw price)
      | SellSide \<Rightarrow> (case mc_bid c of None \<Rightarrow> False | Some b \<Rightarrow> p_raw b \<le> p_raw price))"

definition is_touch_triggered :: "order_side_specified \<Rightarrow> price \<Rightarrow> matching_core \<Rightarrow> bool" where
  "is_touch_triggered side trigger_price c =
     (case side of
        BuySide \<Rightarrow> (case mc_ask c of None \<Rightarrow> False | Some a \<Rightarrow> p_raw a \<le> p_raw trigger_price)
      | SellSide \<Rightarrow> (case mc_bid c of None \<Rightarrow> False | Some b \<Rightarrow> p_raw b \<ge> p_raw trigger_price))"

definition is_limit_fillable :: "order_side_specified \<Rightarrow> price \<Rightarrow> matching_core \<Rightarrow> bool" where
  "is_limit_fillable side price c =
     (if is_limit_matched side price c then True
      else if \<not> mc_fill_limit_inside_spread c then False
      else case (mc_bid c, mc_ask c) of
        (Some bid, Some ask) \<Rightarrow>
          (case side of BuySide \<Rightarrow> p_raw price \<ge> p_raw bid | SellSide \<Rightarrow> p_raw price \<le> p_raw ask)
      | _ \<Rightarrow> False)"

definition match_limit_order :: "resting_order \<Rightarrow> matching_core \<Rightarrow> match_action option" where
  "match_limit_order order c =
     (case ro_limit_price order of
        Some limit_price \<Rightarrow>
          if is_limit_fillable (ro_order_side order) limit_price c
          then Some (FillLimit (ro_client_order_id order)) else None
      | None \<Rightarrow> None)"

definition match_stop_order :: "resting_order \<Rightarrow> matching_core \<Rightarrow> match_action option" where
  "match_stop_order order c =
     (if \<not> ro_is_activated order then None
      else case ro_trigger_price order of
        Some trigger_price \<Rightarrow>
          if is_stop_matched (ro_order_side order) trigger_price c
          then Some (TriggerStop (ro_client_order_id order)) else None
      | None \<Rightarrow> None)"

definition match_order :: "resting_order \<Rightarrow> matching_core \<Rightarrow> match_action option" where
  "match_order order c =
     (if ro_is_stop order then match_stop_order order c
      else if ro_is_limit order then match_limit_order order c
      else None)"

definition iterate_bids :: "matching_core \<Rightarrow> match_action list" where
  "iterate_bids c =
     List.map_filter (\<lambda>order. match_order order c)
       (concat (rev (bt_values (mc_bid_limits c))) @ concat (bt_values (mc_bid_stops c)))"

definition iterate_asks :: "matching_core \<Rightarrow> match_action list" where
  "iterate_asks c =
     List.map_filter (\<lambda>order. match_order order c)
       (concat (bt_values (mc_ask_limits c)) @ concat (rev (bt_values (mc_ask_stops c))))"

definition iterate :: "matching_core \<Rightarrow> match_action list" where
  "iterate c = iterate_bids c @ iterate_asks c"

text \<open>Prices compare as their raw values, so a price book is a finite map from raw prices.\<close>

interpretation pk: btree_order price_order "\<lambda>_. True" p_raw
  by unfold_locales (simp add: price_cmp_def)

end
