(* ===== verification/Matching_Queues.thy ===== *)
theory Matching_Queues
  imports Matching_Core "HOL-Library.Multiset"
begin

text \<open>
  The matching core as a family of queues.  \<open>core_queues\<close> reads a core as one list of orders for each side
  and each kind of book, in the order matching visits them; \<open>spec_add\<close> and \<open>spec_delete\<close> say what adding
  and deleting an order mean on such queues.  The lemmas show that the tree maps, buckets and the index
  implement them, under an invariant that every operation keeps.
\<close>

definition ro_rank :: "resting_order \<Rightarrow> int" where
  "ro_rank x = (case locate x of None \<Rightarrow> 0 | Some (_, p) \<Rightarrow> p_raw p)"

definition descending :: "order_side_specified \<Rightarrow> book_kind option \<Rightarrow> bool" where
  "descending s slot \<longleftrightarrow> slot \<noteq> None \<and> (s = BuySide) = (slot = Some LimitBook)"

definition ahead :: "order_side_specified \<Rightarrow> book_kind option \<Rightarrow> resting_order \<Rightarrow> resting_order \<Rightarrow> bool" where
  "ahead s slot x order \<longleftrightarrow> (if descending s slot then ro_rank order \<le> ro_rank x else ro_rank x \<le> ro_rank order)"

definition queue_insert :: "order_side_specified \<Rightarrow> book_kind option \<Rightarrow> resting_order \<Rightarrow> resting_order list \<Rightarrow> resting_order list" where
  "queue_insert s slot order q = takeWhile (\<lambda>x. ahead s slot x order) q @ [order] @ dropWhile (\<lambda>x. ahead s slot x order) q"

definition book_queue :: "order_side_specified \<Rightarrow> book_kind \<Rightarrow> price_book \<Rightarrow> resting_order list" where
  "book_queue s kind book =
     concat (if descending s (Some kind) then rev (bt_values book) else bt_values book)"

definition core_queues :: "matching_core \<Rightarrow> order_side_specified \<Rightarrow> book_kind option \<Rightarrow> resting_order list" where
  "core_queues c s slot = (case slot of None \<Rightarrow> pending_for s c | Some kind \<Rightarrow> book_queue s kind (book_for s kind c))"

definition slot_of :: "resting_order \<Rightarrow> book_kind option" where
  "slot_of x = map_option fst (locate x)"

definition spec_add where
  "spec_add order Q = (\<lambda>s slot. if s = ro_order_side order \<and> slot = slot_of order then queue_insert s slot order (Q s slot) else Q s slot)"

definition spec_delete where
  "spec_delete client_order_id Q = (\<lambda>s slot. filter (\<lambda>x. ro_client_order_id x \<noteq> client_order_id) (Q s slot))"

definition flat where
  "flat Q = Q BuySide (Some LimitBook) @ Q BuySide (Some StopBook) @ Q BuySide None @
            Q SellSide (Some LimitBook) @ Q SellSide (Some StopBook) @ Q SellSide None"

definition bucket_ok :: "order_side_specified \<Rightarrow> book_kind \<Rightarrow> price \<times> order_bucket \<Rightarrow> bool" where
  "bucket_ok s kind q \<longleftrightarrow> snd q \<noteq> [] \<and>
     (\<forall>x \<in> set (snd q). ro_order_side x = s \<and> slot_of x = Some kind \<and> ro_rank x = p_raw (fst q))"

definition book_ok :: "order_side_specified \<Rightarrow> book_kind \<Rightarrow> price_book \<Rightarrow> bool" where
  "book_ok s kind book \<longleftrightarrow> pk.bt_wf book \<and> (\<forall>q \<in> set book. bucket_ok s kind q)"

definition core_inv :: "matching_core \<Rightarrow> bool" where
  "core_inv c \<longleftrightarrow> (\<forall>s kind. book_ok s kind (book_for s kind c)) \<and>
     (\<forall>s. \<forall>x \<in> set (pending_for s c). ro_order_side x = s \<and> locate x = None) \<and>
     distinct (map ro_client_order_id (flat (core_queues c))) \<and>
     (\<forall>x \<in> set (flat (core_queues c)). mc_order_index c (ro_client_order_id x) = Some (ro_order_side x, locate x)) \<and>
     dom (mc_order_index c) = ro_client_order_id ` set (flat (core_queues c))"

abbreviation not_id :: "string \<Rightarrow> resting_order \<Rightarrow> bool" where
  "not_id client_order_id x \<equiv> ro_client_order_id x \<noteq> client_order_id"

lemma locate_slot: "locate x = Some (kind, p) \<Longrightarrow> slot_of x = Some kind \<and> ro_rank x = p_raw p"
  by (simp add: slot_of_def ro_rank_def)

lemma split_while:
  assumes "\<forall>x \<in> set us. P x" and "\<forall>x \<in> set ws. \<not> P x"
  shows "takeWhile P (us @ ws) = us" and "dropWhile P (us @ ws) = ws"
  using assms by (cases ws; simp)+

lemma queue_insert_split:
  assumes "\<forall>x \<in> set us. ahead s slot x order" and "\<forall>x \<in> set ws. \<not> ahead s slot x order"
  shows "queue_insert s slot order (us @ ws) = us @ [order] @ ws"
  using split_while [OF assms] by (simp add: queue_insert_def)

lemma book_ok_ranks:
  assumes "book_ok s kind book" and "set part \<subseteq> set book" and "x \<in> set (concat (map snd part))"
  shows "\<exists>q \<in> set part. ro_rank x = p_raw (fst q)"
proof -
  obtain q where q: "q \<in> set part" "x \<in> set (snd q)" using assms(3) by auto
  then have "q \<in> set book" using assms(2) by blast
  then have "ro_rank x = p_raw (fst q)" using assms(1) q(2) by (simp add: book_ok_def bucket_ok_def)
  then show ?thesis using q(1) by blast
qed

lemma wf_put:
  assumes "pk.bt_wf (us @ ms @ ws)" and "\<forall>q \<in> set us. p_raw (fst q) < p_raw p" and "\<forall>q \<in> set ws. p_raw p < p_raw (fst q)"
    and "p_raw k = p_raw p"
  shows "pk.bt_wf (us @ [(k, v)] @ ws)"
  using assms by (auto simp: pk.bt_wf_def sorted_wrt_append)

lemma bucket_split:
  assumes "book_ok s kind book"
  obtains us ms ws where "book = us @ ms @ ws"
    "\<forall>q \<in> set us. p_raw (fst q) < p_raw p" "\<forall>q \<in> set ws. p_raw p < p_raw (fst q)"
    "case pk.lkp book (p_raw p) of None \<Rightarrow> ms = [] | Some v \<Rightarrow> \<exists>k. ms = [(k, v)] \<and> p_raw k = p_raw p"
  using pk.split_key [of book "p_raw p"] assms by (auto simp: book_ok_def)

lemma push_queue:
  assumes us: "\<forall>x \<in> set (concat (map snd us)). ro_rank x < ro_rank order"
    and ms: "\<forall>x \<in> set ms. ro_rank x = ro_rank order"
    and ws: "\<forall>x \<in> set (concat (map snd ws)). ro_rank order < ro_rank x"
  shows "book_queue s kind (us @ [(k, ms @ [order])] @ ws) = queue_insert s (Some kind) order (book_queue s kind (us @ [(k, ms)] @ ws))"
proof (cases "descending s (Some kind)")
  case True
  have "queue_insert s (Some kind) order ((concat (rev (map snd ws)) @ ms) @ concat (rev (map snd us)))
    = (concat (rev (map snd ws)) @ ms) @ [order] @ concat (rev (map snd us))"
    using us ms ws True by (intro queue_insert_split) (auto simp: ahead_def not_le intro: less_imp_le)
  then show ?thesis using True by (simp add: book_queue_def)
next
  case False
  have "queue_insert s (Some kind) order ((concat (map snd us) @ ms) @ concat (map snd ws))
    = (concat (map snd us) @ ms) @ [order] @ concat (map snd ws)"
    using us ms ws False by (intro queue_insert_split) (auto simp: ahead_def not_le intro: less_imp_le)
  then show ?thesis using False by (simp add: book_queue_def)
qed

lemma book_queue_empty_bucket: "book_queue s kind (us @ [(k, [])] @ ws) = book_queue s kind (us @ ws)"
  by (simp add: book_queue_def)

lemma entry_push_queue:
  assumes inv: "book_ok s kind book" and order: "locate order = Some (kind, p)" "ro_order_side order = s"
  shows "\<exists>book'. entry_push p order book = Some book' \<and> book_ok s kind book' \<and>
    book_queue s kind book' = queue_insert s (Some kind) order (book_queue s kind book)"
proof -
  obtain us ms ws where parts: "book = us @ ms @ ws"
    "\<forall>q \<in> set us. p_raw (fst q) < p_raw p" "\<forall>q \<in> set ws. p_raw p < p_raw (fst q)"
    "case pk.lkp book (p_raw p) of None \<Rightarrow> ms = [] | Some v \<Rightarrow> \<exists>k. ms = [(k, v)] \<and> p_raw k = p_raw p"
    by (rule bucket_split [OF inv])
  have rank: "slot_of order = Some kind" "ro_rank order = p_raw p" using locate_slot [OF order(1)] by simp_all
  have wf: "pk.bt_wf book" using inv by (simp add: book_ok_def)
  define old where "old = (case pk.lkp book (p_raw p) of None \<Rightarrow> [] | Some b \<Rightarrow> b)"
  have ms: "ms = [] \<or> (\<exists>k' v'. ms = [(k', v')] \<and> p_raw k' = p_raw p)" using parts(4) by (auto split: option.splits)
  obtain k where k: "p_raw k = p_raw p"
    "bt_insert price_order p (old @ [order]) (us @ ms @ ws) = Some (us @ [(k, old @ [order])] @ ws)"
    using pk.insert_split [OF parts(2,3) _ _ ms, of "old @ [order]"] by auto
  have push: "entry_push p order book = Some (us @ [(k, old @ [order])] @ ws)"
    using k pk.get_at [OF wf, of p] by (simp add: entry_push_def old_def parts(1))
  have old: "book_queue s kind book = book_queue s kind (us @ [(k, old)] @ ws)"
    using parts(1,4) by (auto simp: old_def book_queue_def split: option.splits)
  have sub: "set us \<subseteq> set book" "set ms \<subseteq> set book" "set ws \<subseteq> set book" by (auto simp: parts(1))
  have olds: "\<forall>x \<in> set old. ro_order_side x = s \<and> slot_of x = Some kind \<and> ro_rank x = p_raw p"
    using parts(1,4) inv by (auto simp: old_def book_ok_def bucket_ok_def split: option.splits)
  have ok: "book_ok s kind (us @ [(k, old @ [order])] @ ws)"
  proof -
    have "pk.bt_wf (us @ [(k, old @ [order])] @ ws)" using wf wf_put [OF _ parts(2,3) k(1)] by (simp add: parts(1))
    moreover have "bucket_ok s kind (k, old @ [order])" using olds rank order(2) k(1) by (auto simp: bucket_ok_def)
    ultimately show ?thesis using inv by (auto simp: book_ok_def parts(1))
  qed
  have q: "book_queue s kind (us @ [(k, old @ [order])] @ ws) = queue_insert s (Some kind) order (book_queue s kind book)"
    unfolding old
  proof (rule push_queue)
    show "\<forall>x \<in> set (concat (map snd us)). ro_rank x < ro_rank order"
      using book_ok_ranks [OF inv sub(1)] parts(2) rank(2) by metis
    show "\<forall>x \<in> set (concat (map snd ws)). ro_rank order < ro_rank x"
      using book_ok_ranks [OF inv sub(3)] parts(3) rank(2) by metis
    show "\<forall>x \<in> set old. ro_rank x = ro_rank order" using olds rank(2) by simp
  qed
  show ?thesis using push ok q by blast
qed

lemma bucket_remove_filter:
  assumes "x \<in> set bucket" and "distinct (map ro_client_order_id bucket)"
  shows "bucket_remove (ro_client_order_id x) bucket = Some (filter (not_id (ro_client_order_id x)) bucket)"
  using assms
proof (induction bucket)
  case (Cons y bucket)
  show ?case
  proof (cases "ro_client_order_id y = ro_client_order_id x")
    case True
    then have "\<forall>z \<in> set bucket. ro_client_order_id z \<noteq> ro_client_order_id x" using Cons.prems(2) by (auto simp: image_iff)
    then show ?thesis using True by (simp add: filter_id_conv)
  next
    case False
    then show ?thesis using Cons by auto
  qed
qed simp

lemma book_queue_set: "set (book_queue s kind book) = (\<Union>q \<in> set book. set (snd q))"
  by (simp add: book_queue_def)

lemma distinct_book_queue:
  "distinct (map f (book_queue s kind book)) \<longleftrightarrow> distinct (map f (concat (bt_values book)))"
proof -
  have "mset (book_queue s kind book) = mset (concat (bt_values book))"
    by (simp add: book_queue_def mset_concat rev_map [symmetric] multiset.map_comp flip: sum_mset_sum_list)
  then have "mset (map f (book_queue s kind book)) = mset (map f (concat (bt_values book)))" by simp
  then show ?thesis by (rule mset_eq_imp_distinct_iff)
qed

lemma filter_book_queue: "filter P (book_queue s kind book) = book_queue s kind (map (apsnd (filter P)) book)"
  by (simp add: book_queue_def filter_concat rev_map comp_def)

lemma bucket_of:
  assumes inv: "book_ok s kind book" and dist: "distinct (map ro_client_order_id (book_queue s kind book))"
    and x: "x \<in> set (book_queue s kind book)" and loc: "locate x = Some (kind, p)"
  shows "\<exists>bucket. bt_get price_order p book = Some (Some bucket) \<and> x \<in> set bucket \<and> distinct (map ro_client_order_id bucket)"
proof -
  have wf: "pk.bt_wf book" using inv by (simp add: book_ok_def)
  obtain q where q: "q \<in> set book" "x \<in> set (snd q)" using x by (auto simp: book_queue_set)
  have "p_raw (fst q) = p_raw p" using inv q locate_slot [OF loc] by (auto simp: book_ok_def bucket_ok_def)
  then have "pk.lkp book (p_raw p) = Some (snd q)" using pk.wf_sub [OF wf q(1)] by simp
  moreover have "distinct (map ro_client_order_id (snd q))"
    using dist q(1) by (induction book) (auto simp: distinct_book_queue)
  ultimately show ?thesis using pk.get_at [OF wf, of p] q(2) by auto
qed

lemma delete_queue:
  assumes inv: "book_ok s kind book" and dist: "distinct (map ro_client_order_id (book_queue s kind book))"
    and x: "x \<in> set (book_queue s kind book)" and loc: "locate x = Some (kind, p)"
  shows "\<exists>bucket bucket' book' book''. bt_get price_order p book = Some (Some bucket) \<and>
    bucket_remove (ro_client_order_id x) bucket = Some bucket' \<and> bt_insert price_order p bucket' book = Some book' \<and>
    (if bucket' = [] then bt_remove price_order p book' else Some book') = Some book'' \<and>
    book_ok s kind book'' \<and> book_queue s kind book'' = filter (not_id (ro_client_order_id x)) (book_queue s kind book)"
proof -
  obtain us ms ws where parts: "book = us @ ms @ ws"
    "\<forall>q \<in> set us. p_raw (fst q) < p_raw p" "\<forall>q \<in> set ws. p_raw p < p_raw (fst q)"
    "case pk.lkp book (p_raw p) of None \<Rightarrow> ms = [] | Some v \<Rightarrow> \<exists>k. ms = [(k, v)] \<and> p_raw k = p_raw p"
    by (rule bucket_split [OF inv])
  let ?id = "ro_client_order_id x"
  have wf: "pk.bt_wf book" using inv by (simp add: book_ok_def)
  have rank: "ro_rank x = p_raw p" using locate_slot [OF loc] by simp
  obtain q where q: "q \<in> set book" "x \<in> set (snd q)" using x by (auto simp: book_queue_set)
  have q_rank: "p_raw (fst q) = p_raw p" using inv q rank by (auto simp: book_ok_def bucket_ok_def)
  have "q \<in> set ms" using q(1) q_rank parts(1-3) by auto
  then obtain k bucket where ms: "ms = [(k, bucket)]" "pk.lkp book (p_raw p) = Some bucket" "p_raw k = p_raw p" "x \<in> set bucket"
    using parts(4) q(2) by (auto split: option.splits)
  have dist': "distinct (map ro_client_order_id (concat (map snd us) @ bucket @ concat (map snd ws)))"
    using dist by (simp add: distinct_book_queue parts(1) ms(1))
  have get: "bt_get price_order p book = Some (Some bucket)" using pk.get_at [OF wf, of p] ms(2) by simp
  define bucket' where "bucket' = filter (not_id ?id) bucket"
  have rem: "bucket_remove ?id bucket = Some bucket'"
    using dist' ms(4) unfolding bucket'_def by (intro bucket_remove_filter) simp_all
  obtain k' where k': "p_raw k' = p_raw p" "bt_insert price_order p bucket' book = Some (us @ [(k', bucket')] @ ws)"
    using pk.insert_split [OF parts(2,3), of ms bucket'] ms(1,3) by (auto simp: parts(1))
  define book'' where "book'' = (if bucket' = [] then us @ ws else us @ [(k', bucket')] @ ws)"
  have rem2: "(if bucket' = [] then bt_remove price_order p (us @ [(k', bucket')] @ ws) else Some (us @ [(k', bucket')] @ ws)) = Some book''"
    unfolding book''_def by (cases "bucket' = []") (simp_all add: pk.remove_split [OF parts(2) _ _ k'(1), simplified])
  have others: "\<forall>q \<in> set us \<union> set ws. \<forall>y \<in> set (snd q). ro_client_order_id y \<noteq> ?id" 
  proof (intro ballI notI)
    fix q y assume q: "q \<in> set us \<union> set ws" "y \<in> set (snd q)" "ro_client_order_id y = ?id"
    then have "?id \<in> set (map ro_client_order_id (concat (map snd us))) \<union> set (map ro_client_order_id (concat (map snd ws)))"
      unfolding set_map image_Un [symmetric] by (intro image_eqI [where x = y]) auto
    moreover have "?id \<in> set (map ro_client_order_id bucket)" using ms(4) by simp
    ultimately show False using dist' unfolding map_append distinct_append set_append by blast
  qed
  have keep: "part = us \<or> part = ws \<Longrightarrow> map (apsnd (filter (not_id ?id))) part = part" for part
  proof (intro map_idI)
    fix q assume "part = us \<or> part = ws" and "q \<in> set part"
    then have "\<forall>y \<in> set (snd q). not_id ?id y" using others by blast
    then show "apsnd (filter (not_id ?id)) q = q" by (cases q) simp
  qed
  have "filter (not_id ?id) (book_queue s kind book) = book_queue s kind (us @ [(k, bucket')] @ ws)"
    unfolding filter_book_queue parts(1) ms(1) by (simp add: keep bucket'_def)
  then have queue: "book_queue s kind book'' = filter (not_id ?id) (book_queue s kind book)"
    by (simp add: book''_def book_queue_def)
  have "pk.bt_wf (us @ [(k', bucket')] @ ws)" using wf wf_put [OF _ parts(2,3) k'(1)] by (simp add: parts(1))
  moreover have "bucket_ok s kind (k, bucket)" using inv by (simp add: book_ok_def parts(1) ms(1))
  then have "bucket' \<noteq> [] \<Longrightarrow> bucket_ok s kind (k', bucket')" using ms(3) k'(1) by (auto simp: bucket_ok_def bucket'_def)
  ultimately have "book_ok s kind book''"
    using inv by (auto simp: book_ok_def book''_def parts(1) pk.bt_wf_def sorted_wrt_append)
  then show ?thesis using get rem k'(2) rem2 queue by blast
qed

lemma put_book_sel [simp]:
  "book_for s' kind' (put_book s kind book c) = (if s' = s \<and> kind' = kind then book else book_for s' kind' c)"
  "pending_for s' (put_book s kind book c) = pending_for s' c"
  "mc_order_index (put_book s kind book c) = mc_order_index c"
  by (auto simp: book_for_def put_book_def pending_for_def split: order_side_specified.splits book_kind.splits)

lemma put_pending_sel [simp]:
  "book_for s' kind' (put_pending s pending c) = book_for s' kind' c"
  "pending_for s' (put_pending s pending c) = (if s' = s then pending else pending_for s' c)"
  "mc_order_index (put_pending s pending c) = mc_order_index c"
  by (auto simp: book_for_def put_pending_def pending_for_def split: order_side_specified.splits book_kind.splits)

lemma put_index_sel [simp]:
  "book_for s kind (c \<lparr> mc_order_index := m \<rparr>) = book_for s kind c"
  "pending_for s (c \<lparr> mc_order_index := m \<rparr>) = pending_for s c"
  by (auto simp: book_for_def pending_for_def split: order_side_specified.splits book_kind.splits)

lemma iter_orders_flat: "iter_orders c = flat (core_queues c)"
  by (simp add: iter_orders_def iter_bid_orders_def iter_ask_orders_def flat_def core_queues_def book_queue_def
      descending_def book_for_def pending_for_def)

lemma slot_cases:
  obtains "slot = None" | "slot = Some LimitBook" | "slot = Some StopBook"
  by (cases slot; metis book_kind.exhaust)

lemma set_flat: "x \<in> set (flat Q) \<longleftrightarrow> (\<exists>s slot. x \<in> set (Q s slot))"
proof
  assume "\<exists>s slot. x \<in> set (Q s slot)"
  then obtain s slot where "x \<in> set (Q s slot)" by blast
  then show "x \<in> set (flat Q)" by (cases s; cases slot rule: slot_cases) (auto simp: flat_def)
qed (auto simp: flat_def)

lemma mset_queue_insert: "mset (queue_insert s slot order q) = add_mset order (mset q)"
proof -
  have "mset q = mset (takeWhile (\<lambda>x. ahead s slot x order) q @ dropWhile (\<lambda>x. ahead s slot x order) q)" by simp
  then show ?thesis unfolding queue_insert_def mset_append by simp
qed

lemma mset_spec_add: "mset (flat (spec_add order Q)) = add_mset order (mset (flat Q))"
proof (cases "slot_of order" rule: slot_cases)
  case 1
  then show ?thesis by (cases "ro_order_side order") (simp_all add: flat_def spec_add_def mset_queue_insert)
next
  case 2
  then show ?thesis by (cases "ro_order_side order") (simp_all add: flat_def spec_add_def mset_queue_insert)
next
  case 3
  then show ?thesis by (cases "ro_order_side order") (simp_all add: flat_def spec_add_def mset_queue_insert)
qed

lemma flat_spec_delete: "flat (spec_delete client_order_id Q) = filter (not_id client_order_id) (flat Q)"
  by (simp add: flat_def spec_delete_def)

lemma distinct_flat_part: "distinct (map f (flat Q)) \<Longrightarrow> distinct (map f (Q s slot))"
  by (cases s; cases slot rule: slot_cases) (auto simp: flat_def)

lemma pending_insert:
  assumes "\<forall>x \<in> set q. locate x = None" and "locate order = None"
  shows "queue_insert s None order q = q @ [order]"
  using queue_insert_split [of q s None order "[]"] assms by (simp add: ahead_def descending_def ro_rank_def)

lemma core_inv_parts:
  assumes "core_inv c"
  shows "book_ok s kind (book_for s kind c)" and "x \<in> set (pending_for s c) \<Longrightarrow> ro_order_side x = s \<and> locate x = None"
    and "distinct (map ro_client_order_id (flat (core_queues c)))"
    and "x \<in> set (flat (core_queues c)) \<Longrightarrow> mc_order_index c (ro_client_order_id x) = Some (ro_order_side x, locate x)"
    and "dom (mc_order_index c) = ro_client_order_id ` set (flat (core_queues c))"
  using assms by (auto simp: core_inv_def)

lemma add_order_queues:
  assumes inv: "core_inv c"
  shows "\<exists>c'. add_order order c = Some c' \<and> core_queues c' = spec_add order (core_queues c) \<and>
    mc_order_index c' = (mc_order_index c)(ro_client_order_id order \<mapsto> (ro_order_side order, locate order)) \<and>
    (\<forall>s kind. book_ok s kind (book_for s kind c')) \<and>
    (\<forall>s. \<forall>x \<in> set (pending_for s c'). ro_order_side x = s \<and> locate x = None)"
proof (cases "locate order")
  case None
  let ?s = "ro_order_side order"
  have q: "queue_insert ?s None order (pending_for ?s c) = pending_for ?s c @ [order]"
    using core_inv_parts(2) [OF inv] None by (intro pending_insert) auto
  have add: "add_order order c = Some ((put_pending ?s (pending_for ?s c @ [order]) c)
      \<lparr> mc_order_index := (mc_order_index c)(ro_client_order_id order \<mapsto> (?s, locate order)) \<rparr>)"
    by (simp add: add_order_def None Let_def)
  show ?thesis
    unfolding add using core_inv_parts(1,2) [OF inv] None q
    by (auto simp: core_queues_def spec_add_def slot_of_def fun_eq_iff split: option.splits)
next
  case (Some l)
  obtain kind p where l: "locate order = Some (kind, p)" using Some by (cases l) simp
  let ?s = "ro_order_side order"
  obtain book where b: "entry_push p order (book_for ?s kind c) = Some book" "book_ok ?s kind book"
    "book_queue ?s kind book = queue_insert ?s (Some kind) order (book_queue ?s kind (book_for ?s kind c))"
    using entry_push_queue [OF core_inv_parts(1) [OF inv] l refl] by blast
  have add: "add_order order c = Some ((put_book ?s kind book c)
      \<lparr> mc_order_index := (mc_order_index c)(ro_client_order_id order \<mapsto> (?s, locate order)) \<rparr>)"
    by (simp add: add_order_def l b Let_def)
  show ?thesis
    unfolding add using core_inv_parts(1,2) [OF inv] l b(2,3)
    by (auto simp: core_queues_def spec_add_def slot_of_def fun_eq_iff split: option.splits)
qed

lemma add_order_inv:
  assumes inv: "core_inv c" and fresh: "ro_client_order_id order \<notin> ro_client_order_id ` set (iter_orders c)"
  obtains c' where "add_order order c = Some c'" "core_queues c' = spec_add order (core_queues c)" "core_inv c'"
proof -
  obtain c' where c': "add_order order c = Some c'" "core_queues c' = spec_add order (core_queues c)"
    "mc_order_index c' = (mc_order_index c)(ro_client_order_id order \<mapsto> (ro_order_side order, locate order))"
    "\<forall>s kind. book_ok s kind (book_for s kind c')" "\<forall>s. \<forall>x \<in> set (pending_for s c'). ro_order_side x = s \<and> locate x = None"
    using add_order_queues [OF inv] by blast
  have ms: "mset (flat (core_queues c')) = mset (order # flat (core_queues c))" by (simp add: c'(2) mset_spec_add)
  have sets: "set (flat (core_queues c')) = insert order (set (flat (core_queues c)))" using mset_eq_setD [OF ms] by simp
  have "mset (map ro_client_order_id (flat (core_queues c'))) = mset (map ro_client_order_id (order # flat (core_queues c)))"
    unfolding mset_map ms ..
  then have "distinct (map ro_client_order_id (flat (core_queues c')))"
    using mset_eq_imp_distinct_iff core_inv_parts(3) [OF inv] fresh by (fastforce simp: iter_orders_flat)
  moreover have "\<forall>x \<in> set (flat (core_queues c)). ro_client_order_id x \<noteq> ro_client_order_id order"
    using fresh by (auto simp: iter_orders_flat image_iff)
  ultimately have "core_inv c'"
    using c'(3-5) sets core_inv_parts(4,5) [OF inv] by (auto simp: core_inv_def)
  then show thesis using that c'(1,2) by blast
qed

lemma resting_place:
  assumes inv: "core_inv c" and x: "x \<in> set (core_queues c s slot)"
  shows "ro_order_side x = s \<and> slot_of x = slot"
proof (cases slot)
  case None
  then show ?thesis using core_inv_parts(2) [OF inv] x by (simp add: core_queues_def slot_of_def)
next
  case (Some kind)
  then show ?thesis using core_inv_parts(1) [OF inv, of s kind] x
    by (auto simp: core_queues_def book_queue_set book_ok_def bucket_ok_def)
qed

lemma resting_in_queue:
  assumes "core_inv c" and "x \<in> set (iter_orders c)"
  shows "x \<in> set (core_queues c (ro_order_side x) (slot_of x))"
  using assms resting_place by (metis iter_orders_flat set_flat)

lemma queue_other_filter:
  assumes inv: "core_inv c" and x: "x \<in> set (iter_orders c)" and other: "\<not> (s = ro_order_side x \<and> slot = slot_of x)"
  shows "filter (not_id (ro_client_order_id x)) (core_queues c s slot) = core_queues c s slot"
proof (rule filter_True, intro ballI notI)
  fix y assume y: "y \<in> set (core_queues c s slot)" and "ro_client_order_id y = ro_client_order_id x"
  then have "y = x"
    using core_inv_parts(3) [OF inv] x set_flat [of y "core_queues c"] by (auto simp: distinct_map iter_orders_flat dest: inj_onD)
  then show False using resting_place [OF inv y] other by simp
qed

lemma delete_order_absent:
  assumes "core_inv c" and "client_order_id \<notin> ro_client_order_id ` set (iter_orders c)"
  shows "delete_order client_order_id c = Some (Some (NotFound client_order_id), c)"
  using assms core_inv_parts(5) [of c] by (auto simp: delete_order_def iter_orders_flat split: option.splits)

lemma delete_order_queues:
  assumes inv: "core_inv c" and x: "x \<in> set (iter_orders c)"
  shows "\<exists>c'. delete_order (ro_client_order_id x) c = Some (None, c') \<and>
    core_queues c' = spec_delete (ro_client_order_id x) (core_queues c) \<and>
    mc_order_index c' = (mc_order_index c)(ro_client_order_id x := None) \<and>
    (\<forall>s kind. book_ok s kind (book_for s kind c')) \<and>
    (\<forall>s. \<forall>y \<in> set (pending_for s c'). ro_order_side y = s \<and> locate y = None)"
proof -
  let ?id = "ro_client_order_id x" and ?s = "ro_order_side x"
  have idx: "mc_order_index c ?id = Some (?s, locate x)" using core_inv_parts(4) [OF inv] x by (simp add: iter_orders_flat)
  have inq: "x \<in> set (core_queues c ?s (slot_of x))" by (rule resting_in_queue [OF inv x])
  have dist: "distinct (map ro_client_order_id (core_queues c ?s slot))" for slot
    by (rule distinct_flat_part [OF core_inv_parts(3) [OF inv]])
  have spec: "core_queues c' = spec_delete ?id (core_queues c)"
    if "core_queues c' ?s (slot_of x) = filter (not_id ?id) (core_queues c ?s (slot_of x))"
      and "\<And>s slot. \<not> (s = ?s \<and> slot = slot_of x) \<Longrightarrow> core_queues c' s slot = core_queues c s slot" for c'
  proof (intro ext)
    fix s slot show "core_queues c' s slot = spec_delete ?id (core_queues c) s slot"
      using that queue_other_filter [OF inv x, of s slot]
      by (cases "s = ?s \<and> slot = slot_of x") (simp_all add: spec_delete_def)
  qed
  show ?thesis
  proof (cases "locate x")
    case None
    then have slot: "slot_of x = None" by (simp add: slot_of_def)
    let ?p = "filter (not_id ?id) (pending_for ?s c)"
    let ?c = "put_pending ?s ?p (c \<lparr> mc_order_index := (mc_order_index c)(?id := None) \<rparr>)"
    have "bucket_remove ?id (pending_for ?s c) = Some ?p"
      using inq dist [of None] by (intro bucket_remove_filter) (simp_all add: core_queues_def slot)
    then have del: "delete_order ?id c = Some (None, ?c)" by (simp add: delete_order_def idx None Let_def)
    have "core_queues ?c = spec_delete ?id (core_queues c)"
      by (rule spec) (auto simp: core_queues_def slot split: option.splits)
    then show ?thesis using del core_inv_parts(1,2) [OF inv] by auto
  next
    case (Some l)
    obtain kind p where l: "locate x = Some (kind, p)" using Some by (cases l) simp
    then have slot: "slot_of x = Some kind" by (simp add: slot_of_def)
    obtain bucket bucket' book' book where b: "bt_get price_order p (book_for ?s kind c) = Some (Some bucket)"
      "bucket_remove ?id bucket = Some bucket'" "bt_insert price_order p bucket' (book_for ?s kind c) = Some book'"
      "(if bucket' = [] then bt_remove price_order p book' else Some book') = Some book"
      "book_ok ?s kind book" "book_queue ?s kind book = filter (not_id ?id) (book_queue ?s kind (book_for ?s kind c))"
      using delete_queue [OF core_inv_parts(1) [OF inv] _ _ l, of ?s] inq dist [of "Some kind"]
      by (auto simp: core_queues_def slot)
    let ?c = "put_book ?s kind book (c \<lparr> mc_order_index := (mc_order_index c)(?id := None) \<rparr>)"
    have del: "delete_order ?id c = Some (None, ?c)" using b(1-4) by (simp add: delete_order_def idx l Let_def)
    have "core_queues ?c = spec_delete ?id (core_queues c)"
      by (rule spec) (auto simp: core_queues_def slot b(6) split: option.splits)
    then show ?thesis using del core_inv_parts(1,2) [OF inv] b(5) by auto
  qed
qed

lemma delete_order_inv:
  assumes inv: "core_inv c" and x: "x \<in> set (iter_orders c)"
  obtains c' where "delete_order (ro_client_order_id x) c = Some (None, c')"
    "core_queues c' = spec_delete (ro_client_order_id x) (core_queues c)" "core_inv c'"
proof -
  obtain c' where c': "delete_order (ro_client_order_id x) c = Some (None, c')"
    "core_queues c' = spec_delete (ro_client_order_id x) (core_queues c)"
    "mc_order_index c' = (mc_order_index c)(ro_client_order_id x := None)"
    "\<forall>s kind. book_ok s kind (book_for s kind c')" "\<forall>s. \<forall>y \<in> set (pending_for s c'). ro_order_side y = s \<and> locate y = None"
    using delete_order_queues [OF inv x] by blast
  have "flat (core_queues c') = filter (not_id (ro_client_order_id x)) (flat (core_queues c))"
    by (simp add: c'(2) flat_spec_delete)
  then have "core_inv c'"
    using c'(3-5) core_inv_parts(3-5) [OF inv] by (auto simp: core_inv_def distinct_map_filter)
  then show thesis using that c'(1,2) by blast
qed

lemma find_distinct:
  assumes "x \<in> set xs" and "distinct (map ro_client_order_id xs)"
  shows "find (\<lambda>y. ro_client_order_id y = ro_client_order_id x) xs = Some x"
  using assms by (induction xs) (auto simp: image_iff)

lemma get_order_find:
  assumes inv: "core_inv c"
  shows "mc_get_order client_order_id c = Some (find (\<lambda>x. ro_client_order_id x = client_order_id) (iter_orders c))"
proof (cases "client_order_id \<in> ro_client_order_id ` set (iter_orders c)")
  case False
  then have "mc_order_index c client_order_id = None" using core_inv_parts(5) [OF inv] by (auto simp: iter_orders_flat)
  moreover have "find (\<lambda>x. ro_client_order_id x = client_order_id) (iter_orders c) = None" using False by (auto simp: find_None_iff)
  ultimately show ?thesis by (simp add: mc_get_order_def)
next
  case True
  then obtain x where x: "x \<in> set (iter_orders c)" "client_order_id = ro_client_order_id x" by blast
  have idx: "mc_order_index c (ro_client_order_id x) = Some (ro_order_side x, locate x)"
    using core_inv_parts(4) [OF inv] x(1) by (simp add: iter_orders_flat)
  have all: "find (\<lambda>y. ro_client_order_id y = ro_client_order_id x) (iter_orders c) = Some x"
    using core_inv_parts(3) [OF inv] x(1) by (intro find_distinct) (simp_all add: iter_orders_flat)
  have inq: "x \<in> set (core_queues c (ro_order_side x) (slot_of x))" by (rule resting_in_queue [OF inv x(1)])
  have dist: "distinct (map ro_client_order_id (core_queues c (ro_order_side x) (slot_of x)))"
    by (rule distinct_flat_part [OF core_inv_parts(3) [OF inv]])
  show ?thesis
  proof (cases "locate x")
    case None
    then show ?thesis using find_distinct [OF inq dist] all by (simp add: mc_get_order_def x(2) idx core_queues_def slot_of_def)
  next
    case (Some l)
    obtain kind p where l: "locate x = Some (kind, p)" using Some by (cases l) simp
    let ?book = "book_for (ro_order_side x) kind c"
    have ok: "book_ok (ro_order_side x) kind ?book" by (rule core_inv_parts(1) [OF inv])
    have inb: "x \<in> set (book_queue (ro_order_side x) kind ?book)" and
      dsb: "distinct (map ro_client_order_id (book_queue (ro_order_side x) kind ?book))"
      using inq dist by (simp_all add: core_queues_def slot_of_def l)
    obtain bucket where b: "bt_get price_order p ?book = Some (Some bucket)" "x \<in> set bucket" "distinct (map ro_client_order_id bucket)"
      using bucket_of [OF ok dsb inb l] by blast
    show ?thesis using b(1) find_distinct [OF b(2,3)] all by (simp add: mc_get_order_def x(2) idx l)
  qed
qed

end
