(* ===== verification/Matching_Claims.thy ===== *)
theory Matching_Claims
  imports Matching_Queues
begin

text \<open>
  What the matching core promises, for every core its operations can reach: lookups, additions and deletions by
  id, and matching in price-time priority.
\<close>

inductive core_reach :: "matching_core \<Rightarrow> bool" where
  reach_new: "core_reach (mc_new instrument_id price_increment)"
| reach_add: "core_reach c \<Longrightarrow> \<not> mc_order_exists (ro_client_order_id order) c \<Longrightarrow> add_order order c = Some c' \<Longrightarrow> core_reach c'"
| reach_delete: "core_reach c \<Longrightarrow> delete_order client_order_id c = Some (e, c') \<Longrightarrow> core_reach c'"
| reach_last: "core_reach c \<Longrightarrow> core_reach (set_last_raw p c)"
| reach_bid: "core_reach c \<Longrightarrow> core_reach (set_bid_raw p c)"
| reach_ask: "core_reach c \<Longrightarrow> core_reach (set_ask_raw p c)"
| reach_increment: "core_reach c \<Longrightarrow> core_reach (update_price_increment p c)"
| reach_inside: "core_reach c \<Longrightarrow> core_reach (set_fill_limit_inside_spread v c)"
| reach_reset: "core_reach c \<Longrightarrow> core_reach (mc_reset c)"

definition would_fill :: "matching_core \<Rightarrow> resting_order \<Rightarrow> bool" where
  "would_fill c x = (case ro_limit_price x of None \<Rightarrow> False | Some p \<Rightarrow> is_limit_fillable (ro_order_side x) p c)"

definition would_trigger :: "matching_core \<Rightarrow> resting_order \<Rightarrow> bool" where
  "would_trigger c x = (case ro_trigger_price x of None \<Rightarrow> False | Some p \<Rightarrow> is_stop_matched (ro_order_side x) p c)"

definition limit_fills :: "matching_core \<Rightarrow> order_side_specified \<Rightarrow> match_action list" where
  "limit_fills c s = map (FillLimit \<circ> ro_client_order_id) (takeWhile (would_fill c) (core_queues c s (Some LimitBook)))"

definition stop_triggers :: "matching_core \<Rightarrow> order_side_specified \<Rightarrow> match_action list" where
  "stop_triggers c s = map (TriggerStop \<circ> ro_client_order_id)
     (filter ro_is_activated (takeWhile (would_trigger c) (core_queues c s (Some StopBook))))"

definition ex_limit :: resting_order where
  "ex_limit = resting_order_new ''O-1'' BuySide Limit None (Some \<lparr> p_raw = 100, p_prec = 0 \<rparr>) True"

definition ex_touch :: resting_order where
  "ex_touch = resting_order_new ''O-2'' BuySide MarketIfTouched (Some \<lparr> p_raw = 98, p_prec = 0 \<rparr>) None True"

definition ex_core :: matching_core where
  "ex_core = the (add_order ex_touch (the (add_order ex_limit
     (set_ask_raw \<lparr> p_raw = 99, p_prec = 0 \<rparr> (mc_new ''ETH'' \<lparr> p_raw = 1, p_prec = 0 \<rparr>)))))"

lemma order_exists_iff: "core_inv c \<Longrightarrow> mc_order_exists i c \<longleftrightarrow> i \<in> ro_client_order_id ` set (iter_orders c)"
  unfolding mc_order_exists_def iter_orders_flat using core_inv_parts(5) [of c] by blast

lemma core_inv_empty:
  assumes "\<And>s kind. book_for s kind c = []" and "\<And>s. pending_for s c = []" and "mc_order_index c = Map.empty"
  shows "core_inv c"
  using assms by (simp add: core_inv_def book_ok_def flat_def core_queues_def book_queue_def)

lemma core_inv_cong:
  assumes "\<And>s kind. book_for s kind c' = book_for s kind c" and "\<And>s. pending_for s c' = pending_for s c"
    and "mc_order_index c' = mc_order_index c"
  shows "core_inv c' \<longleftrightarrow> core_inv c" and "core_queues c' = core_queues c"
proof -
  show "core_queues c' = core_queues c" by (intro ext) (simp add: core_queues_def assms split: option.splits)
  then show "core_inv c' \<longleftrightarrow> core_inv c" by (simp add: core_inv_def assms)
qed

lemma core_setters [simp]:
  "core_inv (set_last_raw p c) \<longleftrightarrow> core_inv c" "core_inv (set_bid_raw p c) \<longleftrightarrow> core_inv c"
  "core_inv (set_ask_raw p c) \<longleftrightarrow> core_inv c" "core_inv (update_price_increment p c) \<longleftrightarrow> core_inv c"
  "core_inv (set_fill_limit_inside_spread v c) \<longleftrightarrow> core_inv c"
  by (rule core_inv_cong; simp add: set_last_raw_def set_bid_raw_def set_ask_raw_def update_price_increment_def
      set_fill_limit_inside_spread_def book_for_def pending_for_def split: order_side_specified.splits book_kind.splits)+

lemma core_reach_inv: "core_reach c \<Longrightarrow> core_inv c"
proof (induction rule: core_reach.induct)
  case (reach_new instrument_id price_increment)
  show ?case by (rule core_inv_empty) (auto simp: mc_new_def book_for_def pending_for_def split: order_side_specified.splits book_kind.splits)
next
  case (reach_add c order c')
  then have "ro_client_order_id order \<notin> ro_client_order_id ` set (iter_orders c)" by (simp add: order_exists_iff)
  then obtain c2 where "add_order order c = Some c2" "core_inv c2" by (rule add_order_inv [OF reach_add.IH])
  then show ?case using reach_add.hyps by simp
next
  case (reach_delete c client_order_id e c')
  show ?case
  proof (cases "client_order_id \<in> ro_client_order_id ` set (iter_orders c)")
    case True
    then obtain x where x: "x \<in> set (iter_orders c)" "client_order_id = ro_client_order_id x" by blast
    obtain c2 where "delete_order (ro_client_order_id x) c = Some (None, c2)" "core_inv c2"
      by (rule delete_order_inv [OF reach_delete.IH x(1)])
    then show ?thesis using reach_delete.hyps x(2) by simp
  next
    case False
    then show ?thesis using delete_order_absent [OF reach_delete.IH] reach_delete by simp
  qed
next
  case (reach_reset c)
  show ?case by (rule core_inv_empty) (auto simp: mc_reset_def book_for_def pending_for_def split: order_side_specified.splits book_kind.splits)
qed simp_all

lemma level_sorted:
  assumes "\<forall>x \<in> set bucket. ro_rank x = r"
  shows "sorted_wrt (\<lambda>x y. ro_rank x \<le> ro_rank y) bucket" and "sorted_wrt (\<lambda>x y. ro_rank y \<le> ro_rank x) bucket"
  using assms by (induction bucket) auto

lemma levels_sorted:
  assumes "sorted_wrt (<) (map p_raw (bt_keys book))"
    and "\<forall>q \<in> set book. \<forall>x \<in> set (snd q). ro_rank x = p_raw (fst q)"
  shows "sorted_wrt (\<lambda>x y. ro_rank x \<le> ro_rank y) (concat (bt_values book)) \<and>
    sorted_wrt (\<lambda>x y. ro_rank y \<le> ro_rank x) (concat (rev (bt_values book)))"
  using assms
proof (induction book)
  case (Cons q book)
  have below: "\<forall>x \<in> set (snd q). \<forall>q' \<in> set book. \<forall>y \<in> set (snd q'). ro_rank x \<le> ro_rank y"
    using Cons.prems by (auto intro: less_imp_le)
  show ?case using Cons level_sorted [of "snd q" "p_raw (fst q)"] below by (auto simp: sorted_wrt_append)
qed simp

lemma book_queue_sorted:
  assumes "book_ok s kind book"
  shows "sorted_wrt (ahead s (Some kind)) (book_queue s kind book)"
proof -
  have "sorted_wrt (<) (map p_raw (bt_keys book))" using assms by (simp add: book_ok_def pk.bt_wf_def)
  moreover have "\<forall>q \<in> set book. \<forall>x \<in> set (snd q). ro_rank x = p_raw (fst q)" using assms by (simp add: book_ok_def bucket_ok_def)
  ultimately show ?thesis
    using levels_sorted [of book] by (cases "descending s (Some kind)") (simp_all add: book_queue_def ahead_def [abs_def])
qed

lemma prefix_filter:
  assumes "sorted_wrt R xs" and "\<And>x y. x \<in> set xs \<Longrightarrow> y \<in> set xs \<Longrightarrow> R x y \<Longrightarrow> P y \<Longrightarrow> P x"
  shows "filter P xs = takeWhile P xs"
  using assms
proof (induction xs)
  case (Cons x xs)
  have "\<not> P x \<Longrightarrow> \<forall>y \<in> set xs. \<not> P y" using Cons.prems by auto
  moreover have "filter P xs = takeWhile P xs" using Cons.prems by (intro Cons.IH) auto
  ultimately show ?case by (auto simp: filter_empty_conv)
qed simp

lemma map_filter_if:
  assumes "\<And>x. x \<in> set xs \<Longrightarrow> g x = (if P x then Some (f x) else None)"
  shows "List.map_filter g xs = map f (filter P xs)"
  using assms by (induction xs) (simp_all add: map_filter_def)

lemma map_filter_append: "List.map_filter g (xs @ ys) = List.map_filter g xs @ List.map_filter g ys"
  by (simp add: map_filter_def)

lemma slot_limit: "slot_of x = Some LimitBook \<Longrightarrow> ro_trigger_price x = None \<and> (\<exists>p. ro_limit_price x = Some p \<and> ro_rank x = p_raw p)"
  by (auto simp: slot_of_def locate_def ro_is_stop_def ro_rank_def split: if_splits)

lemma slot_stop: "slot_of x = Some StopBook \<Longrightarrow> \<exists>p. ro_trigger_price x = Some p \<and> ro_rank x = p_raw p"
  by (auto simp: slot_of_def locate_def ro_is_stop_def ro_rank_def split: if_splits)

lemma limit_queue_actions:
  assumes inv: "core_inv c"
  shows "List.map_filter (\<lambda>x. match_order x c) (core_queues c s (Some LimitBook)) = limit_fills c s"
proof -
  let ?q = "core_queues c s (Some LimitBook)"
  have place: "ro_order_side x = s \<and> ro_trigger_price x = None \<and> (\<exists>p. ro_limit_price x = Some p \<and> ro_rank x = p_raw p)"
    if "x \<in> set ?q" for x using resting_place [OF inv that] slot_limit by blast
  have "match_order x c = (if would_fill c x then Some ((FillLimit \<circ> ro_client_order_id) x) else None)" if "x \<in> set ?q" for x
    using place [OF that] by (auto simp: match_order_def ro_is_stop_def ro_is_limit_def match_limit_order_def would_fill_def)
  then have "List.map_filter (\<lambda>x. match_order x c) ?q = map (FillLimit \<circ> ro_client_order_id) (filter (would_fill c) ?q)"
    by (rule map_filter_if)
  moreover have "filter (would_fill c) ?q = takeWhile (would_fill c) ?q"
  proof (rule prefix_filter)
    show "sorted_wrt (ahead s (Some LimitBook)) ?q"
      using book_queue_sorted [OF core_inv_parts(1) [OF inv]] by (simp add: core_queues_def)
    fix x y assume "x \<in> set ?q" "y \<in> set ?q" "ahead s (Some LimitBook) x y" "would_fill c y"
    then show "would_fill c x"
      using place [of x] place [of y]
      by (cases s) (auto simp: would_fill_def is_limit_fillable_def is_limit_matched_def ahead_def descending_def split: option.splits if_splits)
  qed
  ultimately show ?thesis by (simp add: limit_fills_def)
qed

lemma stop_queue_actions:
  assumes inv: "core_inv c"
  shows "List.map_filter (\<lambda>x. match_order x c) (core_queues c s (Some StopBook)) = stop_triggers c s"
proof -
  let ?q = "core_queues c s (Some StopBook)"
  have place: "ro_order_side x = s \<and> (\<exists>p. ro_trigger_price x = Some p \<and> ro_rank x = p_raw p)"
    if "x \<in> set ?q" for x using resting_place [OF inv that] slot_stop by blast
  have "match_order x c = (if would_trigger c x \<and> ro_is_activated x then Some ((TriggerStop \<circ> ro_client_order_id) x) else None)"
    if "x \<in> set ?q" for x
    using place [OF that] by (auto simp: match_order_def ro_is_stop_def match_stop_order_def would_trigger_def)
  then have "List.map_filter (\<lambda>x. match_order x c) ?q
    = map (TriggerStop \<circ> ro_client_order_id) (filter (\<lambda>x. would_trigger c x \<and> ro_is_activated x) ?q)"
    by (rule map_filter_if)
  moreover have "filter (would_trigger c) ?q = takeWhile (would_trigger c) ?q"
  proof (rule prefix_filter)
    show "sorted_wrt (ahead s (Some StopBook)) ?q"
      using book_queue_sorted [OF core_inv_parts(1) [OF inv]] by (simp add: core_queues_def)
    fix x y assume "x \<in> set ?q" "y \<in> set ?q" "ahead s (Some StopBook) x y" "would_trigger c y"
    then show "would_trigger c x"
      using place [of x] place [of y]
      by (cases s) (auto simp: would_trigger_def is_stop_matched_def ahead_def descending_def split: option.splits)
  qed
  then have "filter (\<lambda>x. would_trigger c x \<and> ro_is_activated x) ?q = filter ro_is_activated (takeWhile (would_trigger c) ?q)"
    by (metis (mono_tags, lifting) filter_filter filter_cong)
  ultimately show ?thesis by (simp add: stop_triggers_def)
qed

lemma iterate_queues:
  assumes inv: "core_inv c"
  shows "iterate c = limit_fills c BuySide @ stop_triggers c BuySide @ limit_fills c SellSide @ stop_triggers c SellSide"
  using limit_queue_actions [OF inv, of BuySide] stop_queue_actions [OF inv, of BuySide]
    limit_queue_actions [OF inv, of SellSide] stop_queue_actions [OF inv, of SellSide]
  by (simp add: iterate_def iterate_bids_def iterate_asks_def core_queues_def book_queue_def descending_def book_for_def map_filter_append)

lemma set_map_filter: "set (List.map_filter g xs) = {a. \<exists>x \<in> set xs. g x = Some a}"
  by (induction xs) (auto simp: map_filter_def)

lemma action_order:
  assumes "match_order y c = Some (TriggerStop i)"
  shows "ro_client_order_id y = i"
  using assms by (auto simp: match_order_def match_stop_order_def match_limit_order_def split: if_splits option.splits)

lemma iterate_member:
  assumes inv: "core_inv c" and x: "x \<in> set (iter_orders c)" and slot: "slot_of x = Some StopBook"
  shows "TriggerStop (ro_client_order_id x) \<in> set (iterate c) \<longleftrightarrow> match_order x c = Some (TriggerStop (ro_client_order_id x))"
proof -
  define q where "q = concat (map (\<lambda>(s, kind). core_queues c s (Some kind))
    [(BuySide, LimitBook), (BuySide, StopBook), (SellSide, LimitBook), (SellSide, StopBook)])"
  have "iterate c = List.map_filter (\<lambda>y. match_order y c) q"
    by (simp add: iterate_def iterate_bids_def iterate_asks_def q_def core_queues_def book_queue_def descending_def
        book_for_def map_filter_append)
  then have it: "set (iterate c) = {a. \<exists>y \<in> set q. match_order y c = Some a}" by (simp add: set_map_filter)
  have sub: "set q \<subseteq> set (iter_orders c)" by (auto simp: q_def iter_orders_flat flat_def)
  have xq: "x \<in> set q" using resting_in_queue [OF inv x] slot by (cases "ro_order_side x") (auto simp: q_def)
  have "y = x" if "y \<in> set q" "ro_client_order_id y = ro_client_order_id x" for y
    using core_inv_parts(3) [OF inv] x that sub by (auto simp: distinct_map iter_orders_flat dest: inj_onD)
  then show ?thesis using xq action_order unfolding it by blast
qed

lemmas ex_core_simps = ex_core_def ex_limit_def ex_touch_def resting_order_new_def mc_new_def set_ask_raw_def add_order_def
  locate_def ro_is_stop_def ro_is_limit_def entry_push_def book_for_def put_book_def mc_order_exists_def price_cmp_def cmp_int_def Let_def

lemma ex_core_reach: "core_reach ex_core"
proof -
  let ?c = "set_ask_raw \<lparr> p_raw = 99, p_prec = 0 \<rparr> (mc_new ''ETH'' \<lparr> p_raw = 1, p_prec = 0 \<rparr>)"
  have r0: "core_reach ?c" by (rule reach_ask, rule reach_new)
  have "\<not> mc_order_exists (ro_client_order_id ex_limit) ?c" "add_order ex_limit ?c = Some (the (add_order ex_limit ?c))"
    by (simp_all add: ex_core_simps)
  then have r1: "core_reach (the (add_order ex_limit ?c))" by (rule reach_add [OF r0])
  have "\<not> mc_order_exists (ro_client_order_id ex_touch) (the (add_order ex_limit ?c))"
    "add_order ex_touch (the (add_order ex_limit ?c)) = Some ex_core"
    by (simp_all add: ex_core_simps)
  then show ?thesis by (rule reach_add [OF r1])
qed

text \<open>
  C12: Every matching core its operations can reach is exactly a family of queues, one for each side and kind
  of book.  Adding an order under a new id never fails and puts the order behind all orders that are at least as
  good in price, before all that are worse; deleting an id takes its order out of its queue and never panics,
  an unknown id is reported and changes nothing; a lookup finds the resting order with that id.
\<close>

theorem core_refines_queues:
  assumes "core_reach c"
  shows "(\<not> mc_order_exists (ro_client_order_id order) c \<longrightarrow>
      (\<exists>c'. add_order order c = Some c' \<and> core_queues c' = spec_add order (core_queues c))) \<and>
    (\<exists>e c'. delete_order i c = Some (e, c') \<and> core_queues c' = spec_delete i (core_queues c) \<and>
       e = (if mc_order_exists i c then None else Some (NotFound i)) \<and> \<not> mc_order_exists i c') \<and>
    mc_get_order i c = Some (find (\<lambda>x. ro_client_order_id x = i) (iter_orders c)) \<and>
    iter_orders c = flat (core_queues c)"
proof -
  have inv: "core_inv c" by (rule core_reach_inv [OF assms])
  have add: "\<exists>c'. add_order order c = Some c' \<and> core_queues c' = spec_add order (core_queues c)"
    using add_order_queues [OF inv, of order] by blast
  have del: "\<exists>e c'. delete_order i c = Some (e, c') \<and> core_queues c' = spec_delete i (core_queues c) \<and>
    e = (if mc_order_exists i c then None else Some (NotFound i)) \<and> \<not> mc_order_exists i c'"
  proof (cases "mc_order_exists i c")
    case True
    then obtain x where x: "x \<in> set (iter_orders c)" "i = ro_client_order_id x" using order_exists_iff [OF inv] by blast
    obtain c' where "delete_order i c = Some (None, c')" "core_queues c' = spec_delete i (core_queues c)"
      "mc_order_index c' = (mc_order_index c)(i := None)"
      using delete_order_queues [OF inv x(1)] unfolding x(2) by blast
    then show ?thesis using True by (intro exI [of _ None] exI [of _ c']) (simp add: mc_order_exists_def)
  next
    case False
    then have none: "i \<notin> ro_client_order_id ` set (flat (core_queues c))" using order_exists_iff [OF inv] by (simp add: iter_orders_flat)
    then have "spec_delete i (core_queues c) = core_queues c"
      by (intro ext) (auto simp: spec_delete_def filter_id_conv set_flat image_iff)
    then show ?thesis using delete_order_absent [OF inv, of i] none False by (simp add: iter_orders_flat)
  qed
  show ?thesis using add del get_order_find [OF inv, of i] iter_orders_flat [of c] by blast
qed

theorem core_refines_queues_witness:
  "core_queues ex_core BuySide (Some LimitBook) = [ex_limit] \<and>
   (\<exists>c'. delete_order ''O-1'' ex_core = Some (None, c') \<and> core_queues c' BuySide (Some LimitBook) = [])"
proof -
  have q: "core_queues ex_core BuySide (Some LimitBook) = [ex_limit]"
    by (simp add: ex_core_simps core_queues_def book_queue_def)
  have "mc_order_exists ''O-1'' ex_core" by (simp add: ex_core_simps)
  then obtain c' where "delete_order ''O-1'' ex_core = Some (None, c')" "core_queues c' = spec_delete ''O-1'' (core_queues ex_core)"
    using core_refines_queues [OF ex_core_reach, of undefined "''O-1''"] by auto
  then show ?thesis using q by (simp add: spec_delete_def ex_limit_def resting_order_new_def)
qed

text \<open>
  C14: Matching is in price-time priority.  In every reachable core the limit queues are sorted best price first and
  the stop queues nearest trigger first; the orders a market fills are a prefix of a limit queue, and the orders it
  triggers are the activated ones in a prefix of a stop queue, bids before asks and limits before stops.
\<close>

theorem core_matches_in_priority:
  assumes "core_reach c"
  shows "iterate c = limit_fills c BuySide @ stop_triggers c BuySide @ limit_fills c SellSide @ stop_triggers c SellSide \<and>
    (\<forall>s kind. sorted_wrt (ahead s (Some kind)) (core_queues c s (Some kind)))"
  using iterate_queues [OF core_reach_inv [OF assms]]
    book_queue_sorted [OF core_inv_parts(1) [OF core_reach_inv [OF assms]]] by (simp add: core_queues_def)

theorem core_matches_in_priority_witness:
  "core_reach ex_core \<and> iterate ex_core = [FillLimit ''O-1'', TriggerStop ''O-2'']"
  using core_matches_in_priority [OF ex_core_reach] ex_core_reach
  by (simp add: limit_fills_def stop_triggers_def core_queues_def book_queue_def descending_def would_fill_def would_trigger_def
      is_limit_fillable_def is_limit_matched_def is_stop_matched_def ex_core_simps)

text \<open>
  C15: An if-touched order fires on the wrong side of its trigger price.  A resting market-if-touched or
  limit-if-touched order is triggered by \<open>iterate\<close> exactly when the touch condition of \<open>is_touch_triggered\<close>
  does not hold, whenever the opposite quote differs from the trigger price.
\<close>

theorem if_touched_fires_untouched:
  assumes "core_reach c" and "order \<in> set (iter_orders c)"
    and "ro_order_type order = MarketIfTouched \<or> ro_order_type order = LimitIfTouched"
    and "ro_trigger_price order = Some trigger" and "ro_is_activated order"
    and "(case ro_order_side order of BuySide \<Rightarrow> mc_ask c | SellSide \<Rightarrow> mc_bid c) = Some quote" and "p_raw quote \<noteq> p_raw trigger"
  shows "TriggerStop (ro_client_order_id order) \<in> set (iterate c) \<longleftrightarrow> \<not> is_touch_triggered (ro_order_side order) trigger c"
proof -
  have inv: "core_inv c" by (rule core_reach_inv [OF assms(1)])
  have slot: "slot_of order = Some StopBook" by (simp add: slot_of_def locate_def ro_is_stop_def assms(4))
  have act: "match_order order c = (if is_stop_matched (ro_order_side order) trigger c then Some (TriggerStop (ro_client_order_id order)) else None)"
    using assms(4,5) by (simp add: match_order_def ro_is_stop_def match_stop_order_def)
  have "TriggerStop (ro_client_order_id order) \<in> set (iterate c) \<longleftrightarrow> match_order order c = Some (TriggerStop (ro_client_order_id order))"
    by (rule iterate_member [OF inv assms(2) slot])
  also have "\<dots> \<longleftrightarrow> \<not> is_touch_triggered (ro_order_side order) trigger c"
    using assms(6,7) unfolding act by (cases "ro_order_side order") (auto simp: is_stop_matched_def is_touch_triggered_def)
  finally show ?thesis .
qed

theorem if_touched_fires_untouched_witness:
  "\<not> is_touch_triggered BuySide \<lparr> p_raw = 98, p_prec = 0 \<rparr> ex_core \<and> TriggerStop ''O-2'' \<in> set (iterate ex_core)"
proof -
  have "\<not> is_touch_triggered BuySide \<lparr> p_raw = 98, p_prec = 0 \<rparr> ex_core"
    by (simp add: is_touch_triggered_def ex_core_simps)
  moreover have "TriggerStop (ro_client_order_id ex_touch) \<in> set (iterate ex_core) \<longleftrightarrow>
      \<not> is_touch_triggered (ro_order_side ex_touch) \<lparr> p_raw = 98, p_prec = 0 \<rparr> ex_core"
    by (rule if_touched_fires_untouched [OF ex_core_reach, where quote = "\<lparr> p_raw = 99, p_prec = 0 \<rparr>"])
      (simp_all add: ex_core_simps iter_orders_def iter_bid_orders_def)
  ultimately show ?thesis by (simp add: ex_touch_def resting_order_new_def)
qed

end
