(* ===== verification/Topic_Matching.thy ===== *)
theory Topic_Matching
  imports Prelude
begin

text \<open>
  Wildcard matching of topics, \<open>common/src/msgbus/matching.rs\<close>.  Topics and patterns are byte strings.  The
  loop of \<open>is_matching_greedy\<close> resets its topic index when it backtracks, so it is a partial function
  here and that it ends is a theorem.  The reference is \<open>glob\<close>, the recursive reading of a pattern.
\<close>

abbreviation star :: char where
  "star \<equiv> CHR ''*''"

abbreviation question :: char where
  "question \<equiv> CHR ''?''"

function skip_stars :: "string \<Rightarrow> nat \<Rightarrow> nat" where
  "skip_stars pattern j = (if j < length pattern \<and> pattern ! j = star then skip_stars pattern (j + 1) else j)"
  by pat_completeness auto
termination
  by (relation "measure (\<lambda>(pattern, j). length pattern - j)") auto

declare skip_stars.simps [simp del]

text \<open>\<open>None\<close> would be a loop that does not end.\<close>

partial_function (option) greedy_loop ::
    "string \<Rightarrow> string \<Rightarrow> nat \<Rightarrow> nat \<Rightarrow> nat option \<Rightarrow> nat \<Rightarrow> bool option" where
  "greedy_loop topic pattern i j star_idx match_idx =
     (if i < length topic then
        if j < length pattern \<and> (pattern ! j = question \<or> pattern ! j = topic ! i) then
          greedy_loop topic pattern (i + 1) (j + 1) star_idx match_idx
        else if j < length pattern \<and> pattern ! j = star then
          greedy_loop topic pattern i (j + 1) (Some j) i
        else case star_idx of
          Some si \<Rightarrow> greedy_loop topic pattern (match_idx + 1) (si + 1) star_idx (match_idx + 1)
        | None \<Rightarrow> Some False
      else Some (skip_stars pattern j = length pattern))"

definition is_matching_greedy :: "string \<Rightarrow> string \<Rightarrow> bool option" where
  "is_matching_greedy topic pattern = greedy_loop topic pattern 0 0 None 0"

definition is_matching :: "string \<Rightarrow> string \<Rightarrow> bool option" where
  "is_matching topic pattern =
     (if length topic = length pattern \<and> star \<notin> set pattern \<and> question \<notin> set pattern
      then Some (topic = pattern) else is_matching_greedy topic pattern)"

definition check_no_wildcards :: "string \<Rightarrow> bool" where
  "check_no_wildcards s \<longleftrightarrow> \<not> list_ex (\<lambda>b. b = star \<or> b = question) s"

fun glob :: "string \<Rightarrow> string \<Rightarrow> bool" where
  "glob [] ts = (ts = [])"
| "glob (p # ps) [] = (p = star \<and> glob ps [])"
| "glob (p # ps) (t # ts) =
     (if p = star then glob ps (t # ts) \<or> glob (p # ps) ts else (p = question \<or> p = t) \<and> glob ps ts)"

definition loop_ok :: "string \<Rightarrow> string \<Rightarrow> nat \<Rightarrow> nat \<Rightarrow> nat option \<Rightarrow> nat \<Rightarrow> bool" where
  "loop_ok topic pattern i j star_idx match_idx \<longleftrightarrow> i \<le> length topic \<and> j \<le> length pattern \<and>
     (case star_idx of None \<Rightarrow> True
      | Some s \<Rightarrow> s < j \<and> match_idx \<le> i \<and> j - (s + 1) = i - match_idx \<and> star \<notin> set (take (j - (s + 1)) (drop (s + 1) pattern)))"

definition still_open :: "string \<Rightarrow> string \<Rightarrow> nat \<Rightarrow> nat \<Rightarrow> nat option \<Rightarrow> nat \<Rightarrow> bool" where
  "still_open topic pattern i j star_idx match_idx \<longleftrightarrow> glob (drop j pattern) (drop i topic) \<or>
     (\<exists>s k. star_idx = Some s \<and> match_idx < k \<and> k \<le> length topic \<and> glob (drop (s + 1) pattern) (drop k topic))"

definition loop_measures :: "string \<Rightarrow> string \<Rightarrow> (nat \<times> nat \<times> nat option \<times> nat \<Rightarrow> nat) list" where
  "loop_measures topic pattern =
     [\<lambda>(i, j, star_idx, m). case star_idx of None \<Rightarrow> length pattern + 1 | Some s \<Rightarrow> length pattern - s,
      \<lambda>(i, j, star_idx, m). length topic - m, \<lambda>(i, j, star_idx, m). length topic - i]"

section \<open>The reference\<close>

lemma glob_star: "glob (star # ps) ts \<longleftrightarrow> (\<exists>k \<le> length ts. glob ps (drop k ts))"
proof (induction ts)
  case (Cons t ts)
  show ?case
  proof
    assume "glob (star # ps) (t # ts)"
    then consider "glob ps (t # ts)" | k where "k \<le> length ts" "glob ps (drop k ts)" using Cons.IH by auto
    then show "\<exists>k \<le> length (t # ts). glob ps (drop k (t # ts))"
    proof cases
      case 1
      then show ?thesis by (intro exI [of _ 0]) simp
    next
      case (2 k)
      then show ?thesis by (intro exI [of _ "Suc k"]) simp
    qed
  next
    assume "\<exists>k \<le> length (t # ts). glob ps (drop k (t # ts))"
    then obtain k where k: "k \<le> Suc (length ts)" "glob ps (drop k (t # ts))" by auto
    then show "glob (star # ps) (t # ts)" using Cons.IH by (cases k) auto
  qed
qed auto

lemma glob_star_later: "glob (star # ps) (drop n ts) \<Longrightarrow> glob (star # ps) ts"
proof -
  assume "glob (star # ps) (drop n ts)"
  then obtain k where "k \<le> length ts - n" "glob ps (drop (k + n) ts)" by (auto simp: glob_star)
  then show ?thesis by (cases "n \<le> length ts") (auto simp: glob_star intro!: exI [of _ "min (k + n) (length ts)"] simp: min_def)
qed

lemma glob_segment:
  assumes "star \<notin> set us" and "glob (us @ ps) ts"
  shows "length us \<le> length ts \<and> glob ps (drop (length us) ts)"
  using assms
proof (induction us arbitrary: ts)
  case (Cons u us)
  then show ?case by (cases ts) auto
qed simp

lemma glob_literal: "star \<notin> set ps \<Longrightarrow> question \<notin> set ps \<Longrightarrow> glob ps ts \<longleftrightarrow> ps = ts"
proof (induction ps arbitrary: ts)
  case (Cons p ps)
  then show ?case by (cases ts) auto
qed auto

lemma glob_empty: "glob ps [] \<longleftrightarrow> list_all (\<lambda>b. b = star) ps"
  by (induction ps) auto

lemma skip_stars_end: "j \<le> length ps \<Longrightarrow> skip_stars ps j = length ps \<longleftrightarrow> glob (drop j ps) []"
proof (induction ps j rule: skip_stars.induct)
  case (1 ps j)
  show ?case
  proof (cases "j < length ps")
    case True
    then have "drop j ps = ps ! j # drop (j + 1) ps" by (simp add: Cons_nth_drop_Suc)
    then show ?thesis using 1 True skip_stars.simps [of ps j] by (cases "ps ! j = star") auto
  next
    case False
    then show ?thesis using 1 skip_stars.simps [of ps j] by simp
  qed
qed

section \<open>The loop\<close>

text \<open>
  Between the last \<open>*\<close> and the pattern index there is no other \<open>*\<close>, and that segment is laid against the topic
  from \<open>match_idx\<close> to the topic index; what is still open is the rest at the two indices, or the segment after
  the \<open>*\<close> at a later place.
\<close>

lemma later_places:
  assumes ok: "loop_ok topic pattern i j (Some s) m" and k: "m < k" "k \<le> length topic"
    and g: "glob (drop (s + 1) pattern) (drop k topic)"
  shows "i < length topic" and "\<exists>n > i. n \<le> length topic \<and> glob (drop j pattern) (drop n topic)"
proof -
  let ?us = "take (j - (s + 1)) (drop (s + 1) pattern)"
  have len: "length ?us = i - m" "m \<le> i" using ok by (auto simp: loop_ok_def)
  have split: "drop (s + 1) pattern = ?us @ drop j pattern"
  proof -
    have "s + 1 \<le> j" using ok by (simp add: loop_ok_def)
    then have "j - (s + 1) + (s + 1) = j" by (rule le_add_diff_inverse2)
    then have "drop (j - (s + 1)) (drop (s + 1) pattern) = drop j pattern" by (simp only: drop_drop)
    then show ?thesis by (metis append_take_drop_id)
  qed
  have "length ?us \<le> length (drop k topic) \<and> glob (drop j pattern) (drop (length ?us) (drop k topic))"
    using ok g split by (intro glob_segment) (auto simp: loop_ok_def)
  then have "i - m \<le> length topic - k" "glob (drop j pattern) (drop (i - m + k) topic)" unfolding len(1) by auto
  then show "i < length topic" and "\<exists>n > i. n \<le> length topic \<and> glob (drop j pattern) (drop n topic)"
    using k len(2) by (auto intro!: exI [of _ "i - m + k"])
qed

lemma open_at_end:
  assumes "loop_ok topic pattern i j star_idx m" and "\<not> i < length topic"
  shows "still_open topic pattern i j star_idx m \<longleftrightarrow> skip_stars pattern j = length pattern"
proof -
  have "\<not> (\<exists>s k. star_idx = Some s \<and> m < k \<and> k \<le> length topic \<and> glob (drop (s + 1) pattern) (drop k topic))"
    using later_places(1) assms by blast
  moreover have "j \<le> length pattern" "drop i topic = []" using assms by (auto simp: loop_ok_def)
  ultimately show ?thesis using skip_stars_end [of j pattern] unfolding still_open_def by metis
qed

lemma nth_drop: "i < length xs \<Longrightarrow> drop i xs = xs ! i # drop (i + 1) xs"
  by (simp add: Cons_nth_drop_Suc)

lemma step_char:
  assumes ok: "loop_ok topic pattern i j star_idx m" and i: "i < length topic" and j: "j < length pattern"
    and b: "pattern ! j = question \<or> pattern ! j = topic ! i" and topic: "star \<notin> set topic"
  shows "loop_ok topic pattern (i + 1) (j + 1) star_idx m"
    and "still_open topic pattern i j star_idx m \<longleftrightarrow> still_open topic pattern (i + 1) (j + 1) star_idx m"
proof -
  have ns: "pattern ! j \<noteq> star" 
  proof
    assume "pattern ! j = star"
    then have "topic ! i = star" using b by simp
    then show False using topic nth_mem [OF i] by simp
  qed
  have "take (j + 1 - (s + 1)) (drop (s + 1) pattern) = take (j - (s + 1)) (drop (s + 1) pattern) @ [pattern ! j]" if sj: "s < j" for s
  proof -
    obtain n where "j = s + 1 + n" using less_iff_Suc_add [of s j] sj by auto
    then show ?thesis using j by (simp add: take_Suc_conv_app_nth)
  qed
  then show "loop_ok topic pattern (i + 1) (j + 1) star_idx m"
    using ok i j ns by (auto simp: loop_ok_def split: option.splits)
  have "glob (drop j pattern) (drop i topic) \<longleftrightarrow> glob (drop (j + 1) pattern) (drop (i + 1) topic)"
    using ns b by (simp add: nth_drop [OF i] nth_drop [OF j])
  then show "still_open topic pattern i j star_idx m \<longleftrightarrow> still_open topic pattern (i + 1) (j + 1) star_idx m"
    by (simp add: still_open_def)
qed

lemma step_star:
  assumes ok: "loop_ok topic pattern i j star_idx m" and i: "i < length topic" and j: "j < length pattern"
    and b: "pattern ! j = star"
  shows "loop_ok topic pattern i (j + 1) (Some j) i"
    and "still_open topic pattern i j star_idx m \<longleftrightarrow> still_open topic pattern i (j + 1) (Some j) i"
proof -
  show "loop_ok topic pattern i (j + 1) (Some j) i" using ok j by (simp add: loop_ok_def)
  have here: "glob (drop j pattern) (drop n topic) \<longleftrightarrow> (\<exists>k \<ge> n. k \<le> length topic \<and> glob (drop (j + 1) pattern) (drop k topic))"
    if n: "n \<le> length topic" for n
  proof -
    have "glob (drop j pattern) (drop n topic) \<longleftrightarrow> (\<exists>k \<le> length topic - n. glob (drop (j + 1) pattern) (drop (k + n) topic))"
      using b by (simp add: nth_drop [OF j] glob_star)
    also have "\<dots> \<longleftrightarrow> (\<exists>k \<ge> n. k \<le> length topic \<and> glob (drop (j + 1) pattern) (drop k topic))"
    proof
      assume "\<exists>k \<le> length topic - n. glob (drop (j + 1) pattern) (drop (k + n) topic)"
      then obtain k where "k \<le> length topic - n" "glob (drop (j + 1) pattern) (drop (k + n) topic)" by blast
      then show "\<exists>k \<ge> n. k \<le> length topic \<and> glob (drop (j + 1) pattern) (drop k topic)"
        using n by (intro exI [of _ "k + n"]) simp
    next
      assume "\<exists>k \<ge> n. k \<le> length topic \<and> glob (drop (j + 1) pattern) (drop k topic)"
      then obtain k where "n \<le> k" "k \<le> length topic" "glob (drop (j + 1) pattern) (drop k topic)" by blast
      then show "\<exists>k \<le> length topic - n. glob (drop (j + 1) pattern) (drop (k + n) topic)"
        by (intro exI [of _ "k - n"]) simp
    qed
    finally show ?thesis .
  qed
  have "glob (drop j pattern) (drop i topic)" if later: "\<exists>n > i. n \<le> length topic \<and> glob (drop j pattern) (drop n topic)"
  proof -
    obtain n where n: "i < n" "n \<le> length topic" "glob (drop j pattern) (drop n topic)" using later by blast
    then obtain k where "n \<le> k" "k \<le> length topic" "glob (drop (j + 1) pattern) (drop k topic)" using here [of n] by blast
    then have "i \<le> k \<and> k \<le> length topic \<and> glob (drop (j + 1) pattern) (drop k topic)" using n(1) by simp
    then show ?thesis unfolding here [OF less_imp_le [OF i]] by blast
  qed
  then have "still_open topic pattern i j star_idx m \<longleftrightarrow> glob (drop j pattern) (drop i topic)"
    using ok later_places(2) [of topic pattern i j _ m] by (auto simp: still_open_def)
  also have "\<dots> \<longleftrightarrow> still_open topic pattern i (j + 1) (Some j) i"
    using here [of i] i by (auto simp: still_open_def order_le_less)
  finally show "still_open topic pattern i j star_idx m \<longleftrightarrow> still_open topic pattern i (j + 1) (Some j) i" .
qed

lemma step_mismatch:
  assumes "i < length topic" and "\<not> (j < length pattern \<and> (pattern ! j = question \<or> pattern ! j = topic ! i))"
    and "\<not> (j < length pattern \<and> pattern ! j = star)"
  shows "\<not> glob (drop j pattern) (drop i topic)"
  using assms by (cases "j < length pattern") (auto simp: nth_drop)

lemma next_or_later:
  fixes m n :: nat
  assumes "m + 1 \<le> n"
  shows "(\<exists>k. m < k \<and> k \<le> n \<and> G k) \<longleftrightarrow> G (m + 1) \<or> (\<exists>k. m + 1 < k \<and> k \<le> n \<and> G k)"
proof
  assume "\<exists>k. m < k \<and> k \<le> n \<and> G k"
  then obtain k where "m < k" "k \<le> n" "G k" by blast
  then show "G (m + 1) \<or> (\<exists>k. m + 1 < k \<and> k \<le> n \<and> G k)" by (cases "k = m + 1") auto
next
  assume "G (m + 1) \<or> (\<exists>k. m + 1 < k \<and> k \<le> n \<and> G k)"
  then show "\<exists>k. m < k \<and> k \<le> n \<and> G k"
  proof
    assume "G (m + 1)"
    then show ?thesis using assms by (intro exI [of _ "m + 1"]) simp
  next
    assume "\<exists>k. m + 1 < k \<and> k \<le> n \<and> G k"
    then obtain k where "m + 1 < k" "k \<le> n" "G k" by blast
    then show ?thesis by (intro exI [of _ k]) simp
  qed
qed

lemma step_back:
  assumes ok: "loop_ok topic pattern i j (Some s) m" and i: "i < length topic" and no: "\<not> glob (drop j pattern) (drop i topic)"
  shows "loop_ok topic pattern (m + 1) (s + 1) (Some s) (m + 1)"
    and "still_open topic pattern i j (Some s) m \<longleftrightarrow> still_open topic pattern (m + 1) (s + 1) (Some s) (m + 1)"
proof -
  show "loop_ok topic pattern (m + 1) (s + 1) (Some s) (m + 1)" using ok i by (auto simp: loop_ok_def)
  have "m + 1 \<le> length topic" using ok i by (auto simp: loop_ok_def)
  from next_or_later [OF this, of "\<lambda>k. glob (drop (s + 1) pattern) (drop k topic)"]
  show "still_open topic pattern i j (Some s) m \<longleftrightarrow> still_open topic pattern (m + 1) (s + 1) (Some s) (m + 1)"
    using no by (simp add: still_open_def)
qed

lemma greedy_loop_glob:
  assumes "star \<notin> set topic" and "loop_ok topic pattern i j star_idx m"
  shows "greedy_loop topic pattern i j star_idx m = Some (still_open topic pattern i j star_idx m)"
proof -
  have "\<forall>i j star_idx m. st = (i, j, star_idx, m) \<longrightarrow> loop_ok topic pattern i j star_idx m \<longrightarrow>
    greedy_loop topic pattern i j star_idx m = Some (still_open topic pattern i j star_idx m)" for st
  proof (induction st rule: wf_induct [OF wf_measures [of "loop_measures topic pattern"]])
    case (1 st)
    note IH = 1 [rule_format, OF _ refl]
    show ?case
    proof (intro allI impI)
      fix i j star_idx m
      assume st: "st = (i, j, star_idx, m)" and ok: "loop_ok topic pattern i j star_idx m"
      note loop = greedy_loop.simps [of topic pattern i j star_idx m]
      show "greedy_loop topic pattern i j star_idx m = Some (still_open topic pattern i j star_idx m)"
      proof (cases "i < length topic")
        case False
        then show ?thesis using loop open_at_end [OF ok] by simp
      next
        case i: True
        consider (char) "j < length pattern" "pattern ! j = question \<or> pattern ! j = topic ! i"
          | (wild) "j < length pattern" "\<not> (pattern ! j = question \<or> pattern ! j = topic ! i)" "pattern ! j = star"
          | (stuck) "\<not> (j < length pattern \<and> (pattern ! j = question \<or> pattern ! j = topic ! i))" "\<not> (j < length pattern \<and> pattern ! j = star)"
          by blast
        then show ?thesis
        proof cases
          case char
          note s = step_char [OF ok i char assms(1)]
          have "((i + 1, j + 1, star_idx, m), st) \<in> measures (loop_measures topic pattern)"
            using i by (simp add: st loop_measures_def)
          from IH [OF this s(1)] show ?thesis using loop i char s(2) by simp
        next
          case wild
          note s = step_star [OF ok i wild(1,3)]
          have "((i, j + 1, Some j, i), st) \<in> measures (loop_measures topic pattern)"
            using ok wild(1) by (auto simp: st loop_measures_def loop_ok_def split: option.splits)
          from IH [OF this s(1)] show ?thesis using loop i wild s(2) by simp
        next
          case stuck
          note no = step_mismatch [OF i stuck]
          show ?thesis
          proof (cases star_idx)
            case None
            then show ?thesis using loop i stuck no by (auto simp: still_open_def)
          next
            case (Some si)
            note s = step_back [OF ok [unfolded Some] i no]
            have "((m + 1, si + 1, Some si, m + 1), st) \<in> measures (loop_measures topic pattern)"
              using ok i by (auto simp: st Some loop_measures_def loop_ok_def)
            from IH [OF this s(1)] show ?thesis using loop i stuck s(2) Some by auto
          qed
        qed
      qed
    qed
  qed
  then show ?thesis using assms(2) by blast
qed

lemma greedy_loop_ends:
  assumes "\<forall>s. star_idx = Some s \<longrightarrow> s < j \<and> m \<le> i"
  shows "\<exists>b. greedy_loop topic pattern i j star_idx m = Some b"
proof -
  have "\<forall>i j star_idx m. st = (i, j, star_idx, m) \<longrightarrow> (\<forall>s. star_idx = Some s \<longrightarrow> s < j \<and> m \<le> i) \<longrightarrow>
    (\<exists>b. greedy_loop topic pattern i j star_idx m = Some b)" for st
  proof (induction st rule: wf_induct [OF wf_measures [of "loop_measures topic pattern"]])
    case (1 st)
    show ?case
    proof (intro allI impI)
      fix i j star_idx m
      assume st: "st = (i, j, star_idx, m)" and ok: "\<forall>s. star_idx = Some s \<longrightarrow> s < j \<and> m \<le> i"
      have char: "i < length topic \<Longrightarrow> \<exists>b. greedy_loop topic pattern (i + 1) (j + 1) star_idx m = Some b"
        by (rule 1 [rule_format, OF _ refl]) (use ok in \<open>auto simp: st loop_measures_def\<close>)
      have wild: "j < length pattern \<Longrightarrow> \<exists>b. greedy_loop topic pattern i (j + 1) (Some j) i = Some b"
        by (rule 1 [rule_format, OF _ refl]) (use ok in \<open>auto simp: st loop_measures_def split: option.splits\<close>)
      have stuck: "i < length topic \<Longrightarrow> star_idx = Some si \<Longrightarrow> \<exists>b. greedy_loop topic pattern (m + 1) (si + 1) (Some si) (m + 1) = Some b" for si
        by (rule 1 [rule_format, OF _ refl]) (use ok in \<open>auto simp: st loop_measures_def\<close>)
      show "\<exists>b. greedy_loop topic pattern i j star_idx m = Some b"
        using greedy_loop.simps [of topic pattern i j star_idx m] char wild stuck by (auto split: option.splits)
    qed
  qed
  then show ?thesis using assms by blast
qed

lemma topic_matching_glob:
  assumes "check_no_wildcards topic"
  shows "is_matching topic pattern = Some (glob pattern topic)"
proof -
  have ns: "star \<notin> set topic" using assms by (auto simp: check_no_wildcards_def list_ex_iff)
  have "greedy_loop topic pattern 0 0 None 0 = Some (glob pattern topic)"
    using greedy_loop_glob [OF ns, of pattern 0 0 None 0] by (simp add: loop_ok_def still_open_def)
  then show ?thesis using glob_literal [of pattern topic] by (auto simp: is_matching_def is_matching_greedy_def)
qed

text \<open>
  Matching ends on every input, whatever bytes the topic and the pattern hold.
\<close>

lemma topic_matching_ends: "\<exists>b. is_matching topic pattern = Some b"
  using greedy_loop_ends [of None 0 0 0 topic pattern] by (auto simp: is_matching_def is_matching_greedy_def)

text \<open>
  C35: Topic matching is the wildcard relation, and its loop always ends: for every topic without wildcards,
  which is what a topic is, and every pattern the routine returns, and answers whether the pattern matches
  with \<open>*\<close> for any run of characters and \<open>?\<close> for any one.
\<close>

theorem topic_matching_correct:
  assumes "check_no_wildcards topic"
  shows "is_matching topic pattern = Some (glob pattern topic)"
  by (rule topic_matching_glob [OF assms])

theorem topic_matching_correct_witness:
  "check_no_wildcards ''data.quotes.AAPL'' \<and> is_matching ''data.quotes.AAPL'' ''data.*.A?PL'' = Some True"
proof -
  have "check_no_wildcards ''data.quotes.AAPL''" by (simp add: check_no_wildcards_def)
  then show ?thesis using topic_matching_correct [of "''data.quotes.AAPL''" "''data.*.A?PL''"] by simp
qed

end
