(* ===== verification/Pub_Sub.thy ===== *)
theory Pub_Sub
  imports Topic_Matching Rust_Collections "HOL-Library.Multiset"
begin

text \<open>
  Subscriptions and their order, and what a publisher promises its subscribers.  \<open>TypedSubscription\<close>
  (\<open>common/src/msgbus/typed_router.rs\<close>) and \<open>Subscription\<close> (\<open>common/src/msgbus/core.rs\<close>) have the same
  fields, equality and order, and are one record here.  A handler is its id and an opaque callback; publishing
  answers the handlers to call, in order.

  Strings are interned by a third-party crate, whose comparison is the parameter \<open>U\<close>; \<open>ustr_order_ok\<close> says that it
  is a linear order.

  The specification is a plain list of subscriptions, kept in order, searched in full for every topic.  The locale
  \<open>pub_sub\<close> is the contract of a publisher with caches; the typed router and the bus interpret it.
\<close>

section \<open>Subscriptions\<close>

record 'h handler =
  h_id :: string
  h_run :: 'h

record 'h subscription =
  sub_handler :: "'h handler"
  sub_handler_id :: string
  sub_pattern :: string
  sub_priority :: nat

definition subscription_new :: "string \<Rightarrow> 'h handler \<Rightarrow> nat option \<Rightarrow> 'h subscription" where
  "subscription_new pattern handler priority =
     \<lparr> sub_handler = handler, sub_handler_id = h_id handler, sub_pattern = pattern,
       sub_priority = (case priority of None \<Rightarrow> 0 | Some p \<Rightarrow> p) \<rparr>"

definition sub_eq :: "'h subscription \<Rightarrow> 'h subscription \<Rightarrow> bool" where
  "sub_eq a b \<longleftrightarrow> sub_pattern a = sub_pattern b \<and> sub_handler_id a = sub_handler_id b"

type_synonym ustr_order = "string \<Rightarrow> string \<Rightarrow> ordering"

fun then_with :: "ordering \<Rightarrow> ordering \<Rightarrow> ordering" where
  "then_with Equal b = b"
| "then_with a _ = a"

definition sub_cmp :: "ustr_order \<Rightarrow> 'h subscription \<Rightarrow> 'h subscription \<Rightarrow> ordering" where
  "sub_cmp U a b =
     then_with (then_with (cmp_int (int (sub_priority b)) (int (sub_priority a))) (U (sub_pattern a) (sub_pattern b)))
       (U (sub_handler_id a) (sub_handler_id b))"

text \<open>\<open>slice::sort\<close>, which is stable.\<close>

fun insort_by :: "('a \<Rightarrow> 'a \<Rightarrow> ordering) \<Rightarrow> 'a \<Rightarrow> 'a list \<Rightarrow> 'a list" where
  "insort_by cmp x [] = [x]"
| "insort_by cmp x (y # ys) = (if cmp x y = Greater then y # insort_by cmp x ys else x # y # ys)"

definition sort_by :: "('a \<Rightarrow> 'a \<Rightarrow> ordering) \<Rightarrow> 'a list \<Rightarrow> 'a list" where
  "sort_by cmp xs = foldr (insort_by cmp) xs []"

text \<open>Whether a topic matches a pattern.  The routine always answers (\<open>Topic_Matching\<close>).\<close>

definition is_matching_backtracking :: "string \<Rightarrow> string \<Rightarrow> bool" where
  "is_matching_backtracking topic pattern \<longleftrightarrow> is_matching topic pattern = Some True"

definition ustr_order_ok :: "ustr_order \<Rightarrow> bool" where
  "ustr_order_ok U \<longleftrightarrow> (\<forall>a b. U a b = Equal \<longleftrightarrow> a = b) \<and> (\<forall>a b. U a b = Less \<longleftrightarrow> U b a = Greater) \<and>
     (\<forall>a b c. U a b = Less \<longrightarrow> U b c = Less \<longrightarrow> U a c = Less)"

section \<open>The specification\<close>

datatype 'h bus_op = SubscribeOp string "'h handler" nat | UnsubscribeOp string "'h handler" | PublishOp string

definition spec_subscribe :: "ustr_order \<Rightarrow> string \<Rightarrow> 'h handler \<Rightarrow> nat \<Rightarrow> 'h subscription list \<Rightarrow> 'h subscription list" where
  "spec_subscribe U pattern handler priority subs =
     (let sub = subscription_new pattern handler (Some priority) in
      if list_ex (sub_eq sub) subs then subs else insort_by (sub_cmp U) sub subs)"

definition spec_unsubscribe :: "string \<Rightarrow> 'h handler \<Rightarrow> 'h subscription list \<Rightarrow> 'h subscription list" where
  "spec_unsubscribe pattern handler subs =
     filter (\<lambda>s. \<not> (sub_pattern s = pattern \<and> sub_handler_id s = h_id handler)) subs"

definition spec_deliver :: "string \<Rightarrow> 'h subscription list \<Rightarrow> 'h handler list" where
  "spec_deliver topic subs = map sub_handler (filter (\<lambda>s. glob (sub_pattern s) topic) subs)"

fun spec_run :: "ustr_order \<Rightarrow> 'h bus_op list \<Rightarrow> 'h subscription list \<Rightarrow> 'h handler list list \<times> 'h subscription list" where
  "spec_run U [] subs = ([], subs)"
| "spec_run U (SubscribeOp pattern handler priority # ops) subs = spec_run U ops (spec_subscribe U pattern handler priority subs)"
| "spec_run U (UnsubscribeOp pattern handler # ops) subs = spec_run U ops (spec_unsubscribe pattern handler subs)"
| "spec_run U (PublishOp topic # ops) subs = apfst (Cons (spec_deliver topic subs)) (spec_run U ops subs)"

text \<open>The same operations on a publisher, given its three entry points; the handlers each message goes to are recorded.\<close>

fun bus_run ::
    "(string \<Rightarrow> 'h handler \<Rightarrow> nat \<Rightarrow> 's \<Rightarrow> 's) \<Rightarrow> (string \<Rightarrow> 'h handler \<Rightarrow> 's \<Rightarrow> 's) \<Rightarrow>
     (string \<Rightarrow> 's \<Rightarrow> ('h handler list \<times> 's) option) \<Rightarrow> 'h bus_op list \<Rightarrow> 's \<Rightarrow> ('h handler list list \<times> 's) option" where
  "bus_run sub unsub pub [] s = Some ([], s)"
| "bus_run sub unsub pub (SubscribeOp pattern handler priority # ops) s = bus_run sub unsub pub ops (sub pattern handler priority s)"
| "bus_run sub unsub pub (UnsubscribeOp pattern handler # ops) s = bus_run sub unsub pub ops (unsub pattern handler s)"
| "bus_run sub unsub pub (PublishOp topic # ops) s = do {
     (handlers, s) \<leftarrow> pub topic s;
     (rest, s) \<leftarrow> bus_run sub unsub pub ops s;
     Some (handlers # rest, s)
   }"

definition topics_ok :: "'h bus_op list \<Rightarrow> bool" where
  "topics_ok ops \<longleftrightarrow> list_all (\<lambda>op. case op of PublishOp topic \<Rightarrow> check_no_wildcards topic | _ \<Rightarrow> True) ops"

definition sub_before :: "ustr_order \<Rightarrow> 'h subscription \<Rightarrow> 'h subscription \<Rightarrow> bool" where
  "sub_before U a b \<longleftrightarrow> sub_cmp U a b = Less"

definition subs_ordered :: "ustr_order \<Rightarrow> 'h subscription list \<Rightarrow> bool" where
  "subs_ordered U subs \<longleftrightarrow> sorted_wrt (sub_before U) subs"

definition keys_distinct :: "'h subscription list \<Rightarrow> bool" where
  "keys_distinct subs \<longleftrightarrow> distinct (map (\<lambda>s. (sub_pattern s, sub_handler_id s)) subs)"

section \<open>The order of subscriptions\<close>

lemma matching_glob: "check_no_wildcards topic \<Longrightarrow> is_matching_backtracking topic pattern \<longleftrightarrow> glob pattern topic"
  by (simp add: is_matching_backtracking_def topic_matching_glob)

lemma ustr_order_facts:
  assumes "ustr_order_ok U"
  shows "U a b = Equal \<longleftrightarrow> a = b" and "U a b = Greater \<longleftrightarrow> U b a = Less" and "U a b = Less \<Longrightarrow> U b c = Less \<Longrightarrow> U a c = Less"
  using assms unfolding ustr_order_ok_def by blast+

lemma then_with_Less: "then_with a b = Less \<longleftrightarrow> a = Less \<or> (a = Equal \<and> b = Less)"
  by (cases a) auto

lemma then_with_Equal: "then_with a b = Equal \<longleftrightarrow> a = Equal \<and> b = Equal"
  by (cases a) auto

lemma sub_before_iff:
  assumes "ustr_order_ok U"
  shows "sub_before U a b \<longleftrightarrow> sub_priority b < sub_priority a \<or> (sub_priority a = sub_priority b \<and>
    (U (sub_pattern a) (sub_pattern b) = Less \<or>
     (sub_pattern a = sub_pattern b \<and> U (sub_handler_id a) (sub_handler_id b) = Less)))"
  using ustr_order_facts(1) [OF assms]
  by (auto simp: sub_before_def sub_cmp_def then_with_Less then_with_Equal cmp_int_def split: if_splits)

lemma sub_before_trans:
  assumes U: "ustr_order_ok U" and ab: "sub_before U a b" and bc: "sub_before U b c"
  shows "sub_before U a c"
proof -
  have le: "sub_priority b \<le> sub_priority a" "sub_priority c \<le> sub_priority b"
    using ab bc by (auto simp: sub_before_iff [OF U])
  show ?thesis
  proof (cases "sub_priority c < sub_priority a")
    case True
    then show ?thesis by (simp add: sub_before_iff [OF U])
  next
    case False
    then have eq: "sub_priority a = sub_priority b" "sub_priority b = sub_priority c" using le by simp_all
    let ?p = "\<lambda>x y. U (sub_pattern x) (sub_pattern y) = Less" and ?h = "\<lambda>x y. U (sub_handler_id x) (sub_handler_id y) = Less"
    have "?p a b \<or> (sub_pattern a = sub_pattern b \<and> ?h a b)" "?p b c \<or> (sub_pattern b = sub_pattern c \<and> ?h b c)"
      using ab bc eq by (simp_all add: sub_before_iff [OF U])
    then have "?p a c \<or> (sub_pattern a = sub_pattern c \<and> ?h a c)"
      using ustr_order_facts(3) [OF U] by metis
    then show ?thesis using eq by (simp add: sub_before_iff [OF U])
  qed
qed

lemma sub_before_irrefl: "ustr_order_ok U \<Longrightarrow> \<not> sub_before U a a"
  using ustr_order_facts(1) [of U] by (metis sub_before_iff less_irrefl ordering.distinct(1))

lemma sub_cmp_cases:
  assumes U: "ustr_order_ok U" and ne: "\<not> sub_eq a b"
  shows "(sub_cmp U a b = Greater \<longrightarrow> sub_before U b a) \<and> (sub_cmp U a b \<noteq> Greater \<longrightarrow> sub_before U a b)"
proof -
  note F = ustr_order_facts [OF U]
  have tw: "then_with x y = Greater \<longleftrightarrow> x = Greater \<or> (x = Equal \<and> y = Greater)" for x y by (cases x) auto
  have "sub_cmp U a b = Greater \<longrightarrow> sub_before U b a"
    by (auto simp: sub_cmp_def tw then_with_Equal sub_before_iff [OF U] F(1,2) cmp_int_def split: if_splits)
  moreover have "sub_cmp U a b \<noteq> Equal" using ne by (auto simp: sub_cmp_def then_with_Equal sub_eq_def F(1))
  then have "sub_cmp U a b \<noteq> Greater \<longrightarrow> sub_before U a b" unfolding sub_before_def by (cases "sub_cmp U a b") auto
  ultimately show ?thesis by blast
qed

section \<open>Sorting\<close>

lemma mset_insort_by: "mset (insort_by cmp x xs) = add_mset x (mset xs)"
  by (induction xs) auto

lemma mset_sort_by: "mset (sort_by cmp xs) = mset xs"
  unfolding sort_by_def by (induction xs) (simp_all add: mset_insort_by)

lemma set_insort_by [simp]: "set (insort_by cmp x xs) = insert x (set xs)"
  using arg_cong [OF mset_insort_by, of set_mset] by simp

lemma set_sort_by [simp]: "set (sort_by cmp xs) = set xs"
  using mset_eq_setD [OF mset_sort_by] .

lemma insort_ordered:
  assumes U: "ustr_order_ok U" and "\<forall>y \<in> set ys. \<not> sub_eq x y" and "subs_ordered U ys"
  shows "subs_ordered U (insort_by (sub_cmp U) x ys)"
  using assms(2,3)
proof (induction ys)
  case (Cons y ys)
  have c: "(sub_cmp U x y = Greater \<longrightarrow> sub_before U y x) \<and> (sub_cmp U x y \<noteq> Greater \<longrightarrow> sub_before U x y)"
    using sub_cmp_cases [OF U, of x y] Cons.prems(1) by simp
  show ?case
  proof (cases "sub_cmp U x y = Greater")
    case True
    then show ?thesis using c Cons by (auto simp: subs_ordered_def)
  next
    case False
    then have xy: "sub_before U x y" using c by simp
    then have "\<forall>z \<in> set ys. sub_before U x z"
      using Cons.prems(2) sub_before_trans [OF U xy] by (auto simp: subs_ordered_def)
    then show ?thesis using False xy Cons.prems(2) by (simp add: subs_ordered_def)
  qed
qed (simp add: subs_ordered_def)

lemma keys_distinct_Cons: "keys_distinct (x # xs) \<longleftrightarrow> (\<forall>y \<in> set xs. \<not> sub_eq x y) \<and> keys_distinct xs"
  by (auto simp: keys_distinct_def sub_eq_def image_iff)

lemma keys_distinct_mset: "mset xs = mset ys \<Longrightarrow> keys_distinct xs \<longleftrightarrow> keys_distinct ys"
  unfolding keys_distinct_def by (rule mset_eq_imp_distinct_iff) (simp only: mset_map)

lemma keys_distinct_filter: "keys_distinct xs \<Longrightarrow> keys_distinct (filter P xs)"
  by (simp add: keys_distinct_def distinct_map_filter)

lemma sort_ordered: "ustr_order_ok U \<Longrightarrow> keys_distinct xs \<Longrightarrow> subs_ordered U (sort_by (sub_cmp U) xs)"
proof (induction xs)
  case (Cons x xs)
  have "subs_ordered U (insort_by (sub_cmp U) x (sort_by (sub_cmp U) xs))"
    using Cons by (intro insort_ordered) (auto simp: keys_distinct_Cons)
  then show ?case by (simp add: sort_by_def)
qed (simp add: sort_by_def subs_ordered_def)

lemma ordered_unique:
  assumes U: "ustr_order_ok U" and "subs_ordered U xs" and "subs_ordered U ys" and "set xs = set ys"
  shows "xs = ys"
  using assms(2-4)
proof (induction xs arbitrary: ys)
  case (Cons x xs)
  then obtain y ys' where ys: "ys = y # ys'" by (cases ys) auto
  have irr: "\<not> sub_before U a a" for a by (rule sub_before_irrefl [OF U])
  have "x = y"
  proof (rule ccontr)
    assume "x \<noteq> y"
    then have "x \<in> set ys'" "y \<in> set xs" using Cons.prems(3) ys by auto
    then have "sub_before U y x" "sub_before U x y" using Cons.prems(1,2) ys by (auto simp: subs_ordered_def)
    then show False using sub_before_trans [OF U] irr by blast
  qed
  moreover have "x \<notin> set xs" "y \<notin> set ys'" using Cons.prems(1,2) ys irr by (auto simp: subs_ordered_def)
  then have "set xs = set ys'" using Cons.prems(3) ys \<open>x = y\<close> by auto
  then have "xs = ys'" using Cons.IH [of ys'] Cons.prems(1,2) ys by (simp add: subs_ordered_def)
  ultimately show ?case using ys by simp
qed simp

lemma ordered_filter: "subs_ordered U xs \<Longrightarrow> subs_ordered U (filter P xs)"
  by (simp add: subs_ordered_def sorted_wrt_filter)

lemma sort_by_unique:
  assumes "ustr_order_ok U" and "subs_ordered U ys" and "keys_distinct xs" and "set xs = set ys"
  shows "sort_by (sub_cmp U) xs = ys"
  using assms by (intro ordered_unique [OF assms(1) sort_ordered]) auto

section \<open>The contract of a publisher\<close>

locale pub_sub =
  fixes ready :: bool
    and U :: ustr_order
    and start :: 's
    and sub :: "string \<Rightarrow> 'h handler \<Rightarrow> nat \<Rightarrow> 's \<Rightarrow> 's"
    and unsub :: "string \<Rightarrow> 'h handler \<Rightarrow> 's \<Rightarrow> 's"
    and pub :: "string \<Rightarrow> 's \<Rightarrow> ('h handler list \<times> 's) option"
    and wf :: "'s \<Rightarrow> bool"
    and abs :: "'s \<Rightarrow> 'h subscription list"
  assumes start_ok: "ready \<Longrightarrow> wf start \<and> abs start = []"
    and sub_ok: "wf s \<Longrightarrow> wf (sub pattern handler priority s) \<and>
      abs (sub pattern handler priority s) = spec_subscribe U pattern handler priority (abs s)"
    and unsub_ok: "wf s \<Longrightarrow> wf (unsub pattern handler s) \<and> abs (unsub pattern handler s) = spec_unsubscribe pattern handler (abs s)"
    and pub_ok: "wf s \<Longrightarrow> check_no_wildcards topic \<Longrightarrow>
      \<exists>s'. pub topic s = Some (spec_deliver topic (abs s), s') \<and> wf s' \<and> abs s' = abs s"
begin

lemma run_from: "wf s \<Longrightarrow> topics_ok ops \<Longrightarrow>
  \<exists>s'. bus_run sub unsub pub ops s = Some (fst (spec_run U ops (abs s)), s') \<and> wf s' \<and> abs s' = snd (spec_run U ops (abs s))"
proof (induction ops arbitrary: s)
  case (Cons op ops)
  have rest: "topics_ok ops" using Cons.prems(2) by (simp add: topics_ok_def)
  show ?case
  proof (cases op)
    case (SubscribeOp pattern handler priority)
    then show ?thesis using sub_ok [OF Cons.prems(1)] Cons.IH [OF _ rest, of "sub pattern handler priority s"] by simp
  next
    case (UnsubscribeOp pattern handler)
    then show ?thesis using unsub_ok [OF Cons.prems(1)] Cons.IH [OF _ rest, of "unsub pattern handler s"] by simp
  next
    case (PublishOp topic)
    then obtain s' where "pub topic s = Some (spec_deliver topic (abs s), s')" "wf s'" "abs s' = abs s"
      using pub_ok [OF Cons.prems(1)] Cons.prems(2) by (auto simp: topics_ok_def)
    then show ?thesis using Cons.IH [OF _ rest, of s'] PublishOp by auto
  qed
qed simp

lemma run_refines:
  assumes ready and "topics_ok ops"
  shows "\<exists>s'. bus_run sub unsub pub ops start = Some (fst (spec_run U ops []), s')"
  using run_from [of start ops] start_ok assms by auto

end

end
