(* ===== verification/Topic_Router.thy ===== *)
theory Topic_Router
  imports Pub_Sub
begin

text \<open>
  The typed router of \<open>common/src/msgbus/typed_router.rs\<close>: a sorted vector of subscriptions and a cache from
  topics to indices into it, which is cleared whenever the vector changes.  An index out of range panics.
\<close>

record 'h topic_router =
  rt_subscriptions :: "'h subscription list"
  rt_topic_cache :: "(string, nat list) index_map"

definition router_new :: "'h topic_router" where
  "router_new = \<lparr> rt_subscriptions = [], rt_topic_cache = [] \<rparr>"

definition router_subscribe :: "ustr_order \<Rightarrow> string \<Rightarrow> 'h handler \<Rightarrow> nat \<Rightarrow> 'h topic_router \<Rightarrow> 'h topic_router" where
  "router_subscribe U pattern handler priority r =
     (let sub = subscription_new pattern handler (Some priority) in
      if list_ex (\<lambda>s. sub_eq s sub) (rt_subscriptions r) then r
      else r \<lparr> rt_subscriptions := sort_by (sub_cmp U) (rt_subscriptions r @ [sub]), rt_topic_cache := [] \<rparr>)"

text \<open>\<open>position\<close> followed by \<open>remove\<close>.\<close>

fun remove_sub :: "string \<Rightarrow> string \<Rightarrow> 'h subscription list \<Rightarrow> 'h subscription list option" where
  "remove_sub pattern handler_id [] = None"
| "remove_sub pattern handler_id (s # subs) =
     (if sub_pattern s = pattern \<and> sub_handler_id s = handler_id then Some subs
      else map_option (Cons s) (remove_sub pattern handler_id subs))"

definition remove_handler :: "string \<Rightarrow> string \<Rightarrow> 'h topic_router \<Rightarrow> 'h topic_router" where
  "remove_handler pattern handler_id r =
     (case remove_sub pattern handler_id (rt_subscriptions r) of
        None \<Rightarrow> r
      | Some subs \<Rightarrow> r \<lparr> rt_subscriptions := subs, rt_topic_cache := [] \<rparr>)"

definition router_unsubscribe :: "string \<Rightarrow> 'h handler \<Rightarrow> 'h topic_router \<Rightarrow> 'h topic_router" where
  "router_unsubscribe pattern handler r =
     (let handler_id = h_id handler in
      case remove_sub pattern handler_id (rt_subscriptions r) of
        None \<Rightarrow> r
      | Some subs \<Rightarrow> r \<lparr> rt_subscriptions := subs, rt_topic_cache := [] \<rparr>)"

definition find_matches :: "string \<Rightarrow> 'h subscription list \<Rightarrow> nat list" where
  "find_matches topic subs =
     map fst (filter (\<lambda>(idx, sub). is_matching_backtracking topic (sub_pattern sub)) (enumerate 0 subs))"

definition get_matching_indices :: "string \<Rightarrow> 'h topic_router \<Rightarrow> nat list option" where
  "get_matching_indices topic r = im_get (rt_topic_cache r) topic"

text \<open>\<open>topic_cache.entry(topic).or_insert_with(..)\<close>: the indices for a topic, cached.\<close>

definition cached_indices :: "string \<Rightarrow> 'h topic_router \<Rightarrow> nat list \<times> 'h topic_router" where
  "cached_indices topic r =
     (case im_get (rt_topic_cache r) topic of
        Some indices \<Rightarrow> (indices, r)
      | None \<Rightarrow>
          let indices = find_matches topic (rt_subscriptions r)
          in (indices, r \<lparr> rt_topic_cache := im_insert topic indices (rt_topic_cache r) \<rparr>))"

definition sub_at :: "'h subscription list \<Rightarrow> nat \<Rightarrow> 'h subscription option" where
  "sub_at subs idx = (if idx < length subs then Some (subs ! idx) else None)"

text \<open>The handlers \<open>publish\<close> calls, in the order of the calls.\<close>

definition router_publish :: "string \<Rightarrow> 'h topic_router \<Rightarrow> ('h handler list \<times> 'h topic_router) option" where
  "router_publish topic r =
     (let (indices, r) = cached_indices topic r
      in map_option (\<lambda>subs. (map sub_handler subs, r)) (those (map (sub_at (rt_subscriptions r)) indices)))"

definition get_or_compute_matching_indices :: "string \<Rightarrow> 'h topic_router \<Rightarrow> (nat list \<times> 'h topic_router) option" where
  "get_or_compute_matching_indices topic r =
     (let r = (if im_get (rt_topic_cache r) topic = None
               then r \<lparr> rt_topic_cache := im_insert topic (find_matches topic (rt_subscriptions r)) (rt_topic_cache r) \<rparr>
               else r)
      in map_option (\<lambda>indices. (indices, r)) (im_get (rt_topic_cache r) topic))"

definition get_matching_handlers :: "string \<Rightarrow> 'h topic_router \<Rightarrow> ('h handler list \<times> 'h topic_router) option" where
  "get_matching_handlers topic r = do {
     (indices, r) \<leftarrow> get_or_compute_matching_indices topic r;
     subs \<leftarrow> those (map (sub_at (rt_subscriptions r)) indices);
     Some (map sub_handler subs, r)
   }"

definition fill_matching_handlers ::
    "string \<Rightarrow> 'h handler list \<Rightarrow> 'h topic_router \<Rightarrow> ('h handler list \<times> 'h topic_router) option" where
  "fill_matching_handlers topic buf r =
     (let (indices, r) = cached_indices topic r
      in map_option (\<lambda>subs. (buf @ map sub_handler subs, r)) (those (map (sub_at (rt_subscriptions r)) indices)))"

definition router_clear :: "'h topic_router \<Rightarrow> 'h topic_router" where
  "router_clear r = r \<lparr> rt_subscriptions := [], rt_topic_cache := [] \<rparr>"

text \<open>Subscriptions are in order and the cached indices are the current ones.\<close>

definition router_ok :: "ustr_order \<Rightarrow> 'h topic_router \<Rightarrow> bool" where
  "router_ok U r \<longleftrightarrow> ustr_order_ok U \<and> subs_ordered U (rt_subscriptions r) \<and> keys_distinct (rt_subscriptions r) \<and>
     (\<forall>topic indices. im_get (rt_topic_cache r) topic = Some indices \<longrightarrow> indices = find_matches topic (rt_subscriptions r))"

lemma router_ok_cleared:
  "ustr_order_ok U \<Longrightarrow> subs_ordered U subs \<Longrightarrow> keys_distinct subs \<Longrightarrow>
   router_ok U (r \<lparr> rt_subscriptions := subs, rt_topic_cache := [] \<rparr>)"
  by (simp add: router_ok_def)

lemma sub_eq_sym: "sub_eq a b \<longleftrightarrow> sub_eq b a"
  by (auto simp: sub_eq_def)

lemma router_subscribe_ok:
  assumes ok: "router_ok U r"
  shows "router_ok U (router_subscribe U pattern handler priority r) \<and>
    rt_subscriptions (router_subscribe U pattern handler priority r)
      = spec_subscribe U pattern handler priority (rt_subscriptions r)"
proof -
  let ?sub = "subscription_new pattern handler (Some priority)" and ?subs = "rt_subscriptions r"
  have U: "ustr_order_ok U" and ord: "subs_ordered U ?subs" and dist: "keys_distinct ?subs" using ok by (simp_all add: router_ok_def)
  have sym: "list_ex (\<lambda>s. sub_eq s ?sub) ?subs = list_ex (sub_eq ?sub) ?subs" by (simp add: list_ex_iff sub_eq_sym)
  show ?thesis
  proof (cases "list_ex (sub_eq ?sub) ?subs")
    case True
    then show ?thesis using ok by (simp add: router_subscribe_def spec_subscribe_def sym Let_def)
  next
    case False
    then have new: "\<forall>y \<in> set ?subs. \<not> sub_eq ?sub y" by (simp add: list_ex_iff)
    have ms: "mset (?subs @ [?sub]) = mset (?sub # ?subs)" by simp
    have kd: "keys_distinct (?subs @ [?sub])" using keys_distinct_mset [OF ms] new dist by (simp add: keys_distinct_Cons)
    have ins: "subs_ordered U (insort_by (sub_cmp U) ?sub ?subs)" by (rule insort_ordered [OF U new ord])
    have "sort_by (sub_cmp U) (?subs @ [?sub]) = insort_by (sub_cmp U) ?sub ?subs"
      by (rule sort_by_unique [OF U ins kd]) auto
    moreover have "keys_distinct (insort_by (sub_cmp U) ?sub ?subs)"
      using keys_distinct_mset [of "insort_by (sub_cmp U) ?sub ?subs" "?sub # ?subs"] new dist
      by (simp add: mset_insort_by keys_distinct_Cons)
    ultimately show ?thesis using False ins U
      by (simp add: router_subscribe_def spec_subscribe_def sym Let_def router_ok_cleared)
  qed
qed

lemma remove_sub_filter:
  assumes "keys_distinct subs"
  shows "(case remove_sub pattern handler_id subs of None \<Rightarrow> subs | Some subs' \<Rightarrow> subs')
    = filter (\<lambda>s. \<not> (sub_pattern s = pattern \<and> sub_handler_id s = handler_id)) subs"
  using assms
proof (induction subs)
  case (Cons s subs)
  show ?case
  proof (cases "sub_pattern s = pattern \<and> sub_handler_id s = handler_id")
    case True
    then have "\<forall>y \<in> set subs. \<not> (sub_pattern y = pattern \<and> sub_handler_id y = handler_id)"
      using Cons.prems by (auto simp: keys_distinct_Cons sub_eq_def)
    then show ?thesis using True by (simp add: filter_id_conv)
  next
    case False
    then show ?thesis using Cons by (auto simp: keys_distinct_Cons split: option.splits)
  qed
qed simp

lemma router_unsubscribe_ok:
  assumes ok: "router_ok U r"
  shows "router_ok U (router_unsubscribe pattern handler r) \<and>
    rt_subscriptions (router_unsubscribe pattern handler r) = spec_unsubscribe pattern handler (rt_subscriptions r)"
proof -
  have U: "ustr_order_ok U" and ord: "subs_ordered U (rt_subscriptions r)" and dist: "keys_distinct (rt_subscriptions r)"
    using ok by (simp_all add: router_ok_def)
  note f = remove_sub_filter [OF dist, of pattern "h_id handler", folded spec_unsubscribe_def]
  have "subs_ordered U (spec_unsubscribe pattern handler (rt_subscriptions r))"
    "keys_distinct (spec_unsubscribe pattern handler (rt_subscriptions r))"
    using ord dist by (simp_all add: spec_unsubscribe_def ordered_filter keys_distinct_filter)
  then show ?thesis
    using f ok U by (cases "remove_sub pattern (h_id handler) (rt_subscriptions r)")
      (simp_all add: router_unsubscribe_def Let_def router_ok_cleared)
qed

lemma those_find_matches:
  "those (map (sub_at subs) (find_matches topic subs)) = Some (filter (\<lambda>s. is_matching_backtracking topic (sub_pattern s)) subs)"
proof -
  have "those (map (sub_at (pre @ subs)) (map fst (filter (\<lambda>(idx, sub). is_matching_backtracking topic (sub_pattern sub)) (enumerate (length pre) subs))))
    = Some (filter (\<lambda>s. is_matching_backtracking topic (sub_pattern s)) subs)" for pre
  proof (induction subs arbitrary: pre)
    case (Cons s subs)
    show ?case using Cons.IH [of "pre @ [s]"] by (simp add: sub_at_def nth_append)
  qed simp
  from this [of "[]"] show ?thesis by (simp add: find_matches_def)
qed

lemma cached_indices_ok:
  assumes ok: "router_ok U r"
  obtains r' where "cached_indices topic r = (find_matches topic (rt_subscriptions r), r')" "router_ok U r'"
    "rt_subscriptions r' = rt_subscriptions r"
proof (cases "im_get (rt_topic_cache r) topic")
  case None
  let ?r = "r \<lparr> rt_topic_cache := im_insert topic (find_matches topic (rt_subscriptions r)) (rt_topic_cache r) \<rparr>"
  have "router_ok U ?r" using ok by (auto simp: router_ok_def im_insert_get)
  then show thesis using that [of ?r] None by (simp add: cached_indices_def Let_def)
next
  case (Some indices)
  then have "indices = find_matches topic (rt_subscriptions r)" using ok by (simp add: router_ok_def)
  then show thesis using that [of r] Some ok by (simp add: cached_indices_def)
qed

lemma router_publish_ok:
  assumes ok: "router_ok U r" and t: "check_no_wildcards topic"
  shows "\<exists>r'. router_publish topic r = Some (spec_deliver topic (rt_subscriptions r), r') \<and> router_ok U r' \<and>
    rt_subscriptions r' = rt_subscriptions r"
proof -
  obtain r' where r': "cached_indices topic r = (find_matches topic (rt_subscriptions r), r')" "router_ok U r'"
    "rt_subscriptions r' = rt_subscriptions r" by (rule cached_indices_ok [OF ok])
  have "router_publish topic r = Some (spec_deliver topic (rt_subscriptions r), r')"
    by (simp add: router_publish_def r' those_find_matches spec_deliver_def matching_glob [OF t])
  then show ?thesis using r' by blast
qed

interpretation router: pub_sub "ustr_order_ok U" U router_new "router_subscribe U" router_unsubscribe router_publish "router_ok U" rt_subscriptions
  for U :: ustr_order
proof unfold_locales
  show "ustr_order_ok U \<Longrightarrow> router_ok U router_new \<and> rt_subscriptions router_new = []"
    by (simp add: router_ok_def router_new_def subs_ordered_def keys_distinct_def)
qed (simp_all add: router_subscribe_ok router_unsubscribe_ok router_publish_ok)

end
