(* ===== verification/Message_Bus.thy ===== *)
theory Message_Bus
  imports Topic_Router "HOL-Library.List_Lexorder" "HOL-Library.Char_ord"
begin

text \<open>
  The part of the message bus that dispatches through \<open>dyn Any\<close> (\<open>common/src/msgbus/core.rs\<close> and
  \<open>common/src/msgbus/api.rs\<close>): subscriptions in a hash set, a cache from topics to sorted subscriptions that
  is brought up to date by every change, endpoints, response handlers and counters.  The typed routers of the
  bus are instances of \<open>Topic_Router\<close>.

  The order in which the hash set is traversed is the parameter \<open>H\<close>, of which only
  \<open>hash_order_ok\<close> is known: it is some arrangement of the elements.
\<close>

record 'h message_bus =
  mb_subscriptions :: "'h subscription list"
  mb_topics :: "(string, 'h subscription list) index_map"
  mb_endpoints :: "(string, 'h handler) index_map"
  mb_correlation_index :: "string \<rightharpoonup> 'h handler"
  mb_sent_count :: nat
  mb_req_count :: nat
  mb_res_count :: nat
  mb_pub_count :: nat

type_synonym 'h hash_order = "'h subscription list \<Rightarrow> 'h subscription list"

definition hash_order_ok :: "'h hash_order \<Rightarrow> bool" where
  "hash_order_ok H \<longleftrightarrow> (\<forall>xs. mset (H xs) = mset xs)"

definition bus_new :: "'h message_bus" where
  "bus_new = \<lparr> mb_subscriptions = [], mb_topics = [], mb_endpoints = [], mb_correlation_index = Map.empty,
     mb_sent_count = 0, mb_req_count = 0, mb_res_count = 0, mb_pub_count = 0 \<rparr>"

definition bus_dispose :: "'h message_bus \<Rightarrow> 'h message_bus" where
  "bus_dispose b = b \<lparr> mb_subscriptions := [], mb_topics := [], mb_endpoints := [], mb_correlation_index := Map.empty,
     mb_sent_count := 0, mb_req_count := 0, mb_res_count := 0, mb_pub_count := 0 \<rparr>"

definition increment_sent_count :: "'h message_bus \<Rightarrow> 'h message_bus" where
  "increment_sent_count b = b \<lparr> mb_sent_count := u64_wrapping_add (mb_sent_count b) 1 \<rparr>"

definition increment_res_count :: "'h message_bus \<Rightarrow> 'h message_bus" where
  "increment_res_count b = b \<lparr> mb_res_count := u64_wrapping_add (mb_res_count b) 1 \<rparr>"

definition increment_pub_count :: "'h message_bus \<Rightarrow> 'h message_bus" where
  "increment_pub_count b = b \<lparr> mb_pub_count := u64_wrapping_add (mb_pub_count b) 1 \<rparr>"

definition find_topic_matches :: "'h hash_order \<Rightarrow> string \<Rightarrow> 'h message_bus \<Rightarrow> 'h subscription list" where
  "find_topic_matches H topic b =
     filter (\<lambda>sub. is_matching_backtracking topic (sub_pattern sub)) (H (mb_subscriptions b))"

definition fill_matching_any_handlers ::
    "ustr_order \<Rightarrow> 'h hash_order \<Rightarrow> string \<Rightarrow> 'h handler list \<Rightarrow> 'h message_bus \<Rightarrow> 'h handler list \<times> 'h message_bus" where
  "fill_matching_any_handlers U H topic buf b =
     (case im_get (mb_topics b) topic of
        Some subs \<Rightarrow> (buf @ map sub_handler subs, b)
      | None \<Rightarrow>
          let matches = sort_by (sub_cmp U) (find_topic_matches H topic b)
          in (buf @ map sub_handler matches, b \<lparr> mb_topics := im_insert topic matches (mb_topics b) \<rparr>))"

definition subscribe_any :: "ustr_order \<Rightarrow> string \<Rightarrow> 'h handler \<Rightarrow> nat option \<Rightarrow> 'h message_bus \<Rightarrow> 'h message_bus" where
  "subscribe_any U pattern handler priority b =
     (let sub = subscription_new pattern handler priority in
      if list_ex (sub_eq sub) (mb_subscriptions b) then b
      else b \<lparr> mb_topics := map (\<lambda>(topic, subs).
                 (topic, if is_matching_backtracking topic (sub_pattern sub)
                         then sort_by (sub_cmp U) (subs @ [sub]) else subs)) (mb_topics b),
               mb_subscriptions := mb_subscriptions b @ [sub] \<rparr>)"

definition unsubscribe_any :: "string \<Rightarrow> 'h handler \<Rightarrow> 'h message_bus \<Rightarrow> 'h message_bus" where
  "unsubscribe_any pattern handler b =
     (let keep = (\<lambda>s. \<not> (sub_pattern s = pattern \<and> sub_handler_id s = h_id handler))
      in b \<lparr> mb_topics := map (\<lambda>(topic, subs). (topic, filter keep subs)) (mb_topics b),
             mb_subscriptions := filter keep (mb_subscriptions b) \<rparr>)"

text \<open>Calls out of the bus: the tap that records traffic, and handlers.\<close>

datatype 'h bus_call = TapPublish string | TapSend string | Handle "'h handler"

definition publish_handlers ::
    "ustr_order \<Rightarrow> 'h hash_order \<Rightarrow> string \<Rightarrow> 'h message_bus \<Rightarrow> 'h handler list \<times> 'h message_bus" where
  "publish_handlers U H topic b = apsnd increment_pub_count (fill_matching_any_handlers U H topic [] b)"

definition publish_any ::
    "ustr_order \<Rightarrow> 'h hash_order \<Rightarrow> bool \<Rightarrow> string \<Rightarrow> 'h message_bus \<Rightarrow> 'h bus_call list \<times> 'h message_bus" where
  "publish_any U H tap topic b =
     apfst (\<lambda>handlers. (if tap then [TapPublish topic] else []) @ map Handle handlers) (publish_handlers U H topic b)"

definition register_any :: "string \<Rightarrow> 'h handler \<Rightarrow> 'h message_bus \<Rightarrow> 'h message_bus" where
  "register_any endpoint handler b = b \<lparr> mb_endpoints := im_insert endpoint handler (mb_endpoints b) \<rparr>"

definition deregister_any :: "string \<Rightarrow> 'h message_bus \<Rightarrow> 'h message_bus" where
  "deregister_any endpoint b = b \<lparr> mb_endpoints := im_shift_remove endpoint (mb_endpoints b) \<rparr>"

definition get_endpoint :: "string \<Rightarrow> 'h message_bus \<Rightarrow> 'h handler option" where
  "get_endpoint endpoint b = im_get (mb_endpoints b) endpoint"

definition send_any :: "bool \<Rightarrow> string \<Rightarrow> 'h message_bus \<Rightarrow> 'h bus_call list \<times> 'h message_bus" where
  "send_any tap endpoint b =
     apfst (\<lambda>calls. (if tap then [TapSend endpoint] else []) @ calls)
       (case get_endpoint endpoint b of
          Some handler \<Rightarrow> ([Handle handler], increment_sent_count b)
        | None \<Rightarrow> ([], b))"

definition register_response_handler :: "string \<Rightarrow> 'h handler \<Rightarrow> 'h message_bus \<Rightarrow> string + 'h message_bus" where
  "register_response_handler correlation_id handler b =
     (if mb_correlation_index b correlation_id \<noteq> None then Inl correlation_id
      else Inr (b \<lparr> mb_correlation_index := (mb_correlation_index b)(correlation_id \<mapsto> handler) \<rparr>))"

definition send_response :: "string \<Rightarrow> 'h message_bus \<Rightarrow> 'h bus_call list \<times> 'h message_bus" where
  "send_response correlation_id b =
     ((case mb_correlation_index b correlation_id of Some handler \<Rightarrow> [Handle handler] | None \<Rightarrow> []),
      increment_res_count b)"

section \<open>Coherence of the topic cache\<close>

definition cache_entry_ok :: "ustr_order \<Rightarrow> 'h subscription list \<Rightarrow> string \<times> 'h subscription list \<Rightarrow> bool" where
  "cache_entry_ok U subs e \<longleftrightarrow> subs_ordered U (snd e) \<and>
     set (snd e) = {s \<in> set subs. is_matching_backtracking (fst e) (sub_pattern s)}"

definition bus_ok :: "ustr_order \<Rightarrow> 'h hash_order \<Rightarrow> 'h message_bus \<Rightarrow> bool" where
  "bus_ok U H b \<longleftrightarrow> ustr_order_ok U \<and> hash_order_ok H \<and> keys_distinct (mb_subscriptions b) \<and>
     (\<forall>e \<in> set (mb_topics b). cache_entry_ok U (mb_subscriptions b) e)"

definition bus_subs :: "ustr_order \<Rightarrow> 'h message_bus \<Rightarrow> 'h subscription list" where
  "bus_subs U b = sort_by (sub_cmp U) (mb_subscriptions b)"

definition ex_ustr_order :: ustr_order where
  "ex_ustr_order a b = (if a < b then Less else if a = b then Equal else Greater)"

definition ex_handler :: "string \<Rightarrow> unit handler" where
  "ex_handler name = \<lparr> h_id = name, h_run = () \<rparr>"

definition ex_ops :: "unit bus_op list" where
  "ex_ops = [SubscribeOp ''data.*'' (ex_handler ''low'') 1, PublishOp ''data.x'', SubscribeOp ''data.?'' (ex_handler ''high'') 5,
     PublishOp ''data.x'', UnsubscribeOp ''data.*'' (ex_handler ''low''), PublishOp ''data.x'']"

lemma keys_distinct_subset: "keys_distinct xs \<Longrightarrow> distinct ys \<Longrightarrow> set ys \<subseteq> set xs \<Longrightarrow> keys_distinct ys"
  unfolding keys_distinct_def distinct_map by (auto intro: inj_on_subset)

lemma im_insert_member: "e \<in> set (im_insert k v m) \<Longrightarrow> e = (k, v) \<or> e \<in> set m"
  by (induction k v m rule: im_insert.induct) (auto split: if_splits)

lemma ordered_distinct: "ustr_order_ok U \<Longrightarrow> subs_ordered U xs \<Longrightarrow> distinct xs"
  by (induction xs) (auto simp: subs_ordered_def sub_before_irrefl)

lemma spec_subscribe_sorted:
  assumes U: "ustr_order_ok U" and "keys_distinct subs" and "\<not> list_ex (sub_eq sub) subs"
  shows "sort_by (sub_cmp U) (subs @ [sub]) = insort_by (sub_cmp U) sub (sort_by (sub_cmp U) subs)"
    and "keys_distinct (subs @ [sub])"
proof -
  have new: "\<forall>y \<in> set subs. \<not> sub_eq sub y" using assms(3) by (simp add: list_ex_iff)
  have ms: "mset (subs @ [sub]) = mset (sub # subs)" by simp
  show kd: "keys_distinct (subs @ [sub])" using keys_distinct_mset [OF ms] new assms(2) by (simp add: keys_distinct_Cons)
  have ord: "subs_ordered U (insort_by (sub_cmp U) sub (sort_by (sub_cmp U) subs))"
    using new assms(2) by (intro insort_ordered [OF U _ sort_ordered [OF U]]) auto
  show "sort_by (sub_cmp U) (subs @ [sub]) = insort_by (sub_cmp U) sub (sort_by (sub_cmp U) subs)"
    by (rule sort_by_unique [OF U ord kd]) auto
qed

lemma cache_entry_subscribe:
  assumes U: "ustr_order_ok U" and kd: "keys_distinct (subs @ [sub])" and e: "cache_entry_ok U subs (topic, ss)"
  shows "cache_entry_ok U (subs @ [sub]) (topic, if is_matching_backtracking topic (sub_pattern sub)
    then sort_by (sub_cmp U) (ss @ [sub]) else ss)"
proof (cases "is_matching_backtracking topic (sub_pattern sub)")
  case True
  have ss: "set ss = {s \<in> set subs. is_matching_backtracking topic (sub_pattern s)}" "subs_ordered U ss"
    using e by (simp_all add: cache_entry_ok_def)
  have "sub \<notin> set subs" using kd by (auto simp: keys_distinct_def)
  then have "distinct (ss @ [sub])" using ss ordered_distinct [OF U ss(2)] by auto
  then have "keys_distinct (ss @ [sub])" using kd ss(1) by (intro keys_distinct_subset [OF kd]) auto
  then show ?thesis using True ss sort_ordered [OF U, of "ss @ [sub]"] by (auto simp: cache_entry_ok_def)
qed (use e in \<open>auto simp: cache_entry_ok_def\<close>)

lemma subscribe_any_ok:
  assumes ok: "bus_ok U H b"
  shows "bus_ok U H (subscribe_any U pattern handler (Some priority) b) \<and>
    bus_subs U (subscribe_any U pattern handler (Some priority) b) = spec_subscribe U pattern handler priority (bus_subs U b)"
proof -
  let ?sub = "subscription_new pattern handler (Some priority)" and ?subs = "mb_subscriptions b"
  have U: "ustr_order_ok U" and kd: "keys_distinct ?subs" using ok by (simp_all add: bus_ok_def)
  have ex: "list_ex (sub_eq ?sub) (bus_subs U b) = list_ex (sub_eq ?sub) ?subs" by (simp add: bus_subs_def list_ex_iff)
  show ?thesis
  proof (cases "list_ex (sub_eq ?sub) ?subs")
    case True
    then show ?thesis using ok ex by (simp add: subscribe_any_def spec_subscribe_def Let_def)
  next
    case False
    note s = spec_subscribe_sorted [OF U kd False]
    have "\<forall>e \<in> set (mb_topics b). cache_entry_ok U ?subs e" using ok by (simp add: bus_ok_def)
    then have "bus_ok U H (subscribe_any U pattern handler (Some priority) b)"
      using ok False s(2) cache_entry_subscribe [OF U s(2)]
      by (auto simp: subscribe_any_def Let_def bus_ok_def)
    then show ?thesis using False ex s(1) by (simp add: subscribe_any_def spec_subscribe_def Let_def bus_subs_def)
  qed
qed

lemma unsubscribe_any_ok:
  assumes ok: "bus_ok U H b"
  shows "bus_ok U H (unsubscribe_any pattern handler b) \<and>
    bus_subs U (unsubscribe_any pattern handler b) = spec_unsubscribe pattern handler (bus_subs U b)"
proof -
  let ?keep = "\<lambda>s. \<not> (sub_pattern s = pattern \<and> sub_handler_id s = h_id handler)"
  have U: "ustr_order_ok U" and kd: "keys_distinct (mb_subscriptions b)" using ok by (simp_all add: bus_ok_def)
  have "cache_entry_ok U (filter ?keep (mb_subscriptions b)) (t, filter ?keep ss)"
    if "cache_entry_ok U (mb_subscriptions b) (t, ss)" for t ss
    using that by (auto simp: cache_entry_ok_def ordered_filter)
  then have "bus_ok U H (unsubscribe_any pattern handler b)"
    using ok by (auto simp: unsubscribe_any_def Let_def bus_ok_def keys_distinct_filter)
  moreover have "sort_by (sub_cmp U) (filter ?keep (mb_subscriptions b)) = filter ?keep (sort_by (sub_cmp U) (mb_subscriptions b))"
    using kd by (intro sort_by_unique [OF U]) (auto simp: ordered_filter sort_ordered [OF U] keys_distinct_filter)
  ultimately show ?thesis by (simp add: unsubscribe_any_def Let_def bus_subs_def spec_unsubscribe_def)
qed

lemma cached_subs:
  assumes U: "ustr_order_ok U" and kd: "keys_distinct (mb_subscriptions b)" and t: "check_no_wildcards topic"
    and e: "cache_entry_ok U (mb_subscriptions b) (topic, ss)"
  shows "ss = filter (\<lambda>s. glob (sub_pattern s) topic) (bus_subs U b)"
  using e by (intro ordered_unique [OF U]) (auto simp: cache_entry_ok_def bus_subs_def ordered_filter sort_ordered [OF U kd] matching_glob [OF t])

lemma fresh_entry_ok:
  assumes ok: "bus_ok U H b"
  shows "cache_entry_ok U (mb_subscriptions b) (topic, sort_by (sub_cmp U) (find_topic_matches H topic b))"
proof -
  have U: "ustr_order_ok U" and H: "mset (H (mb_subscriptions b)) = mset (mb_subscriptions b)" and kd: "keys_distinct (mb_subscriptions b)"
    using ok by (simp_all add: bus_ok_def hash_order_ok_def)
  have "keys_distinct (find_topic_matches H topic b)"
    using keys_distinct_mset [OF H] kd by (simp add: find_topic_matches_def keys_distinct_filter)
  then show ?thesis using sort_ordered [OF U] mset_eq_setD [OF H] by (auto simp: cache_entry_ok_def find_topic_matches_def)
qed

lemma bus_ok_pub_count [simp]: "bus_ok U H (increment_pub_count b) \<longleftrightarrow> bus_ok U H b" "bus_subs U (increment_pub_count b) = bus_subs U b"
  by (simp_all add: increment_pub_count_def bus_ok_def bus_subs_def)

lemma publish_handlers_ok:
  assumes ok: "bus_ok U H b" and t: "check_no_wildcards topic"
  shows "\<exists>b'. publish_handlers U H topic b = (spec_deliver topic (bus_subs U b), b') \<and> bus_ok U H b' \<and> bus_subs U b' = bus_subs U b"
proof -
  have U: "ustr_order_ok U" and kd: "keys_distinct (mb_subscriptions b)" using ok by (simp_all add: bus_ok_def)
  show ?thesis
  proof (cases "im_get (mb_topics b) topic")
    case None
    let ?ss = "sort_by (sub_cmp U) (find_topic_matches H topic b)"
    let ?b = "b \<lparr> mb_topics := im_insert topic ?ss (mb_topics b) \<rparr>"
    note e = fresh_entry_ok [OF ok, of topic]
    have "e = (topic, ?ss) \<or> e \<in> set (mb_topics b)" if "e \<in> set (im_insert topic ?ss (mb_topics b))" for e
      by (rule im_insert_member [OF that])
    then have "bus_ok U H ?b" using ok e by (auto simp: bus_ok_def)
    moreover have "publish_handlers U H topic b = (map sub_handler ?ss, increment_pub_count ?b)"
      using None by (simp add: publish_handlers_def fill_matching_any_handlers_def Let_def)
    moreover have "map sub_handler ?ss = spec_deliver topic (bus_subs U b)"
      unfolding spec_deliver_def using cached_subs [OF U kd t e] by simp
    moreover have "bus_subs U ?b = bus_subs U b" by (simp add: bus_subs_def)
    ultimately show ?thesis by (intro exI [of _ "increment_pub_count ?b"]) simp
  next
    case (Some ss)
    then have "(topic, ss) \<in> set (mb_topics b)" by (rule map_of_SomeD)
    then have "cache_entry_ok U (mb_subscriptions b) (topic, ss)" using ok by (simp add: bus_ok_def)
    then show ?thesis using Some cached_subs [OF U kd t] ok
      by (auto simp: publish_handlers_def fill_matching_any_handlers_def spec_deliver_def)
  qed
qed

interpretation any_bus: pub_sub "ustr_order_ok U \<and> hash_order_ok H" U bus_new
    "\<lambda>pattern handler priority. subscribe_any U pattern handler (Some priority)" unsubscribe_any
    "\<lambda>topic b. Some (publish_handlers U H topic b)" "bus_ok U H" "bus_subs U"
  for U :: ustr_order and H :: "'h hash_order"
proof unfold_locales
  show "ustr_order_ok U \<and> hash_order_ok H \<Longrightarrow> bus_ok U H bus_new \<and> bus_subs U bus_new = []"
    by (simp add: bus_ok_def bus_new_def bus_subs_def keys_distinct_def sort_by_def)
qed (simp_all add: subscribe_any_ok unsubscribe_any_ok publish_handlers_ok)

section \<open>Claims\<close>

lemma ordered_priority:
  assumes "ustr_order_ok U" and "subs_ordered U subs"
  shows "sorted_wrt (\<lambda>a b. sub_priority b \<le> sub_priority a) subs"
  using assms(2) unfolding subs_ordered_def by (rule sorted_wrt_mono_rel [rotated]) (auto simp: sub_before_iff [OF assms(1)])

lemma ex_ustr_order_ok: "ustr_order_ok ex_ustr_order"
  by (auto simp: ustr_order_ok_def ex_ustr_order_def)

lemma ex_ops_spec: "topics_ok ex_ops" "fst (spec_run U ex_ops []) = [[ex_handler ''low''], [ex_handler ''high'', ex_handler ''low''], [ex_handler ''high'']]"
  by (simp_all add: ex_ops_def topics_ok_def check_no_wildcards_def spec_subscribe_def spec_unsubscribe_def spec_deliver_def
      subscription_new_def sub_eq_def sub_cmp_def cmp_int_def ex_handler_def Let_def)

text \<open>
  C17: The typed router delivers what the plain specification says.  Whatever sequence of subscriptions,
  cancellations and messages it has seen, it never panics, its index cache never changes the outcome, and every
  message goes to exactly the subscriptions whose pattern matches, each once and higher priorities first.
\<close>

theorem router_delivers:
  fixes ops :: "'h bus_op list"
  assumes "ustr_order_ok U" and "topics_ok ops"
  shows "\<exists>r. bus_run (router_subscribe U) router_unsubscribe router_publish ops router_new = Some (fst (spec_run U ops []), r) \<and>
    rt_subscriptions r = snd (spec_run U ops []) \<and>
    sorted_wrt (\<lambda>a b. sub_priority b \<le> sub_priority a) (rt_subscriptions r) \<and>
    distinct (map (\<lambda>s. (sub_pattern s, sub_handler_id s)) (rt_subscriptions r))"
proof -
  have "router_ok U (router_new :: 'h topic_router) \<and> rt_subscriptions (router_new :: 'h topic_router) = []"
    by (rule router.start_ok [OF assms(1)])
  then obtain r where r: "bus_run (router_subscribe U) router_unsubscribe router_publish ops router_new = Some (fst (spec_run U ops []), r)"
    "router_ok U r" "rt_subscriptions r = snd (spec_run U ops [])"
    using router.run_from [of U router_new ops] assms(2) by auto
  have "sorted_wrt (\<lambda>a b. sub_priority b \<le> sub_priority a) (rt_subscriptions r)"
    using r(2) by (intro ordered_priority [OF assms(1)]) (simp add: router_ok_def)
  moreover have "distinct (map (\<lambda>s. (sub_pattern s, sub_handler_id s)) (rt_subscriptions r))"
    using r(2) by (simp add: router_ok_def keys_distinct_def)
  ultimately show ?thesis using r by blast
qed

theorem router_delivers_witness:
  "\<exists>r. bus_run (router_subscribe ex_ustr_order) router_unsubscribe router_publish ex_ops router_new
     = Some ([[ex_handler ''low''], [ex_handler ''high'', ex_handler ''low''], [ex_handler ''high'']], r)"
  using router_delivers [OF ex_ustr_order_ok ex_ops_spec(1)] ex_ops_spec(2) [of ex_ustr_order] by auto

text \<open>
  C16: The \<open>Any\<close>-based bus delivers what the plain specification says, in whatever order its hash set is
  traversed: the cached lists of handlers stay those a fresh search would give, sorted by priority.
\<close>

theorem bus_delivers:
  assumes "ustr_order_ok U" and "hash_order_ok H" and "topics_ok ops"
  shows "\<exists>b. bus_run (\<lambda>pattern handler priority. subscribe_any U pattern handler (Some priority)) unsubscribe_any
      (\<lambda>topic b. Some (publish_handlers U H topic b)) ops bus_new = Some (fst (spec_run U ops []), b)"
  using any_bus.run_refines [of U H ops] assms by blast

theorem bus_delivers_witness:
  "\<exists>b. bus_run (\<lambda>pattern handler priority. subscribe_any ex_ustr_order pattern handler (Some priority)) unsubscribe_any
      (\<lambda>topic b. Some (publish_handlers ex_ustr_order rev topic b)) ex_ops bus_new
     = Some ([[ex_handler ''low''], [ex_handler ''high'', ex_handler ''low''], [ex_handler ''high'']], b)"
proof -
  have "hash_order_ok rev" by (simp add: hash_order_ok_def)
  from bus_delivers [OF ex_ustr_order_ok this ex_ops_spec(1)] show ?thesis by (simp add: ex_ops_spec(2))
qed

end
