(* ===== verification/Rate_Limiter.thy ===== *)
theory Rate_Limiter
  imports Prelude
begin

text \<open>
  The rate limiter of \<open>network/src/ratelimiter\<close>: quotas, the generic cell rate algorithm, the keyed limiter and
  waiting for a key.  Durations and instants are nanoseconds; \<open>Nanos\<close> is a 64-bit counter whose addition wraps
  in the modelled build.  The state of a key is one 64-bit number, the theoretical arrival time of the next
  cell, where zero stands for no cell so far.

  \<open>measure_and_replace_one\<close> retries a compare-and-exchange.  \<open>cas_step\<close> gives the steps of any number of threads
  inside that loop; \<open>measure_one\<close> is the loop of a thread that is not disturbed.
\<close>

section \<open>Quotas\<close>

record quota =
  q_max_burst :: nat
  q_replenish_1_per :: nat

definition quota_per_second :: "nat \<Rightarrow> quota option" where
  "quota_per_second max_burst =
     (let replenish_interval_ns = 1000000000 div max_burst in
      if replenish_interval_ns = 0 then None
      else Some \<lparr> q_max_burst = max_burst, q_replenish_1_per = replenish_interval_ns \<rparr>)"

definition quota_per_minute :: "nat \<Rightarrow> quota" where
  "quota_per_minute max_burst = \<lparr> q_max_burst = max_burst, q_replenish_1_per = 60000000000 div max_burst \<rparr>"

definition quota_per_hour :: "nat \<Rightarrow> quota" where
  "quota_per_hour max_burst = \<lparr> q_max_burst = max_burst, q_replenish_1_per = 3600000000000 div max_burst \<rparr>"

definition quota_with_period :: "nat \<Rightarrow> quota option" where
  "quota_with_period replenish_1_per =
     (if replenish_1_per = 0 then None else Some \<lparr> q_max_burst = 1, q_replenish_1_per = replenish_1_per \<rparr>)"

definition quota_allow_burst :: "nat \<Rightarrow> quota \<Rightarrow> quota" where
  "quota_allow_burst max_burst q = q \<lparr> q_max_burst := max_burst \<rparr>"

definition quota_new :: "nat \<Rightarrow> nat \<Rightarrow> quota option" where
  "quota_new max_burst replenish_all_per =
     (if replenish_all_per = 0 then None
      else Some \<lparr> q_max_burst = max_burst, q_replenish_1_per = replenish_all_per div max_burst \<rparr>)"

definition burst_size_replenished_in :: "quota \<Rightarrow> nat" where
  "burst_size_replenished_in q = (q_replenish_1_per q * q_max_burst q) mod (U64_MAX + 1)"

definition quota_from_gcra_parameters :: "nat \<Rightarrow> nat \<Rightarrow> quota option" where
  "quota_from_gcra_parameters t tau =
     (if t = 0 then None
      else let division_result = tau div t in
        if division_result = 0 then None
        else if division_result > 4294967295 then None
        else Some \<lparr> q_max_burst = division_result, q_replenish_1_per = t \<rparr>)"

section \<open>The cell rate algorithm\<close>

record state_snapshot =
  ss_t :: nat
  ss_tau :: nat
  ss_time_of_measurement :: nat
  ss_tat :: nat

record not_until =
  nu_state :: state_snapshot
  nu_start :: nat

record gcra =
  g_t :: nat
  g_tau :: nat

definition remaining_burst_capacity :: "state_snapshot \<Rightarrow> nat" where
  "remaining_burst_capacity s =
     (if ss_t s = 0 then 0
      else let t0 = u64_wrapping_add (ss_time_of_measurement s) (ss_t s)
           in (min (u64_wrapping_add t0 (ss_tau s) - ss_tat s) (ss_tau s) div ss_t s) mod 4294967296)"

definition earliest_possible :: "not_until \<Rightarrow> nat" where
  "earliest_possible n = u64_wrapping_add (nu_start n) (ss_tat (nu_state n))"

definition wait_time_from :: "nat \<Rightarrow> not_until \<Rightarrow> nat" where
  "wait_time_from now n = (let earliest = earliest_possible n in earliest - min earliest now)"

text \<open>\<open>None\<close> where the conversion of a duration to nanoseconds panics.\<close>

definition gcra_new :: "quota \<Rightarrow> gcra option" where
  "gcra_new q =
     (if q_replenish_1_per q * q_max_burst q \<le> U64_MAX \<and> q_replenish_1_per q \<le> U64_MAX
      then Some \<lparr> g_t = q_replenish_1_per q, g_tau = q_replenish_1_per q * q_max_burst q \<rparr> else None)"

definition starting_state :: "gcra \<Rightarrow> nat \<Rightarrow> nat" where
  "starting_state g t0 = u64_wrapping_add t0 (g_t g)"

text \<open>The closure of \<open>test_and_update\<close>: the decision for one cell on the state it reads.\<close>

definition decide :: "gcra \<Rightarrow> nat \<Rightarrow> nat \<Rightarrow> nat option \<Rightarrow> not_until + nat" where
  "decide g start t0 tat =
     (let tat = (case tat of None \<Rightarrow> starting_state g t0 | Some tat \<Rightarrow> tat);
          earliest_time = tat - g_tau g
      in if t0 < earliest_time
         then Inl \<lparr> nu_state = \<lparr> ss_t = g_t g, ss_tau = g_tau g, ss_time_of_measurement = earliest_time, ss_tat = earliest_time \<rparr>,
                    nu_start = start \<rparr>
         else Inr (u64_wrapping_add (max tat t0) (g_t g)))"

definition non_zero :: "nat \<Rightarrow> nat option" where
  "non_zero prev = (if prev = 0 then None else Some prev)"

definition measure_one :: "(nat option \<Rightarrow> 'e + nat) \<Rightarrow> nat \<Rightarrow> ('e + unit) \<times> nat" where
  "measure_one f prev = (case f (non_zero prev) of Inl e \<Rightarrow> (Inl e, prev) | Inr new_data \<Rightarrow> (Inr (), new_data))"

definition measure_and_replace ::
    "'k \<Rightarrow> (nat option \<Rightarrow> 'e + nat) \<Rightarrow> ('k \<rightharpoonup> nat) \<Rightarrow> ('e + unit) \<times> ('k \<rightharpoonup> nat)" where
  "measure_and_replace key f state =
     (case state key of
        Some v \<Rightarrow> apsnd (\<lambda>v. state(key \<mapsto> v)) (measure_one f v)
      | None \<Rightarrow> apsnd (\<lambda>v. state(key \<mapsto> v)) (measure_one f 0))"

definition test_and_update ::
    "gcra \<Rightarrow> nat \<Rightarrow> 'k \<Rightarrow> nat \<Rightarrow> ('k \<rightharpoonup> nat) \<Rightarrow> (not_until + unit) \<times> ('k \<rightharpoonup> nat)" where
  "test_and_update g start key now state = measure_and_replace key (decide g start (now - start)) state"

section \<open>The keyed limiter\<close>

record 'k rate_limiter =
  rl_default_gcra :: "gcra option"
  rl_state :: "'k \<rightharpoonup> nat"
  rl_gcra :: "'k \<rightharpoonup> gcra"
  rl_start :: nat

definition limiter_new :: "nat \<Rightarrow> quota option \<Rightarrow> ('k \<times> quota) list \<Rightarrow> 'k rate_limiter option" where
  "limiter_new now base_quota keyed_quotas = do {
     gcras \<leftarrow> those (map (\<lambda>(k, q). map_option (Pair k) (gcra_new q)) keyed_quotas);
     default_gcra \<leftarrow> (case base_quota of None \<Rightarrow> Some None | Some q \<Rightarrow> map_option Some (gcra_new q));
     Some \<lparr> rl_default_gcra = default_gcra, rl_state = Map.empty, rl_gcra = map_of (rev gcras), rl_start = now \<rparr>
   }"

definition add_quota_for_key :: "'k \<Rightarrow> quota \<Rightarrow> 'k rate_limiter \<Rightarrow> 'k rate_limiter option" where
  "add_quota_for_key key value rl = map_option (\<lambda>g. rl \<lparr> rl_gcra := (rl_gcra rl)(key \<mapsto> g) \<rparr>) (gcra_new value)"

definition check_key :: "nat \<Rightarrow> 'k \<Rightarrow> 'k rate_limiter \<Rightarrow> (not_until + unit) \<times> 'k rate_limiter" where
  "check_key now key rl =
     (case rl_gcra rl key of
        Some g \<Rightarrow> apsnd (\<lambda>state. rl \<lparr> rl_state := state \<rparr>) (test_and_update g (rl_start rl) key now (rl_state rl))
      | None \<Rightarrow>
          (case rl_default_gcra rl of
             None \<Rightarrow> (Inr (), rl)
           | Some g \<Rightarrow> apsnd (\<lambda>state. rl \<lparr> rl_state := state \<rparr>) (test_and_update g (rl_start rl) key now (rl_state rl))))"

text \<open>
  Waiting for a key.  A sleep takes at least the time asked for; \<open>late\<close> gives by how much the \<open>n\<close>-th sleep
  of the task runs over.  The result is the time at which the key was granted and the limiter then.
\<close>

partial_function (option) until_key_ready ::
    "(nat \<Rightarrow> nat) \<Rightarrow> nat \<Rightarrow> nat \<Rightarrow> 'k \<Rightarrow> 'k rate_limiter \<Rightarrow> (nat \<times> 'k rate_limiter) option" where
  "until_key_ready late n now key rl =
     (case check_key now key rl of
        (Inr _, rl) \<Rightarrow> Some (now, rl)
      | (Inl e, rl) \<Rightarrow> until_key_ready late (n + 1) (now + wait_time_from now e + late n) key rl)"

section \<open>Threads in the compare-and-exchange loop\<close>

datatype thread = Starting nat | Trying nat nat | Granted nat | Refused nat

inductive cas_step :: "gcra \<Rightarrow> nat \<times> ('p \<Rightarrow> thread) \<Rightarrow> nat \<times> ('p \<Rightarrow> thread) \<Rightarrow> bool" for g where
  load: "th p = Starting t0 \<Longrightarrow> cas_step g (cell, th) (cell, th(p := Trying t0 cell))"
| swap: "th p = Trying t0 prev \<Longrightarrow> decide g 0 t0 (non_zero prev) = Inr new \<Longrightarrow> cell = prev \<Longrightarrow>
    cas_step g (cell, th) (new, th(p := Granted t0))"
| retry: "th p = Trying t0 prev \<Longrightarrow> decide g 0 t0 (non_zero prev) = Inr new \<Longrightarrow>
    cas_step g (cell, th) (cell, th(p := Trying t0 cell))"
| refuse: "th p = Trying t0 prev \<Longrightarrow> decide g 0 t0 (non_zero prev) = Inl e \<Longrightarrow>
    cas_step g (cell, th) (cell, th(p := Refused t0))"

fun thread_time :: "thread \<Rightarrow> nat" where
  "thread_time (Starting t0) = t0"
| "thread_time (Trying t0 _) = t0"
| "thread_time (Granted t0) = t0"
| "thread_time (Refused t0) = t0"

fun granted :: "thread \<Rightarrow> bool" where
  "granted (Granted _) = True"
| "granted _ = False"

text \<open>The cells with the given arrival times, all let through one after the other from a state.\<close>

fun admits :: "gcra \<Rightarrow> nat \<Rightarrow> nat list \<Rightarrow> nat option" where
  "admits g cell [] = Some cell"
| "admits g cell (t0 # ts) =
     (case decide g 0 t0 (non_zero cell) of Inl _ \<Rightarrow> None | Inr new \<Rightarrow> admits g new ts)"

definition gcra_ok :: "gcra \<Rightarrow> nat \<Rightarrow> bool" where
  "gcra_ok g horizon \<longleftrightarrow> 0 < g_t g \<and> g_t g \<le> g_tau g \<and> horizon + g_tau g + g_t g \<le> U64_MAX"

definition key_gcra :: "'k rate_limiter \<Rightarrow> 'k \<Rightarrow> gcra option" where
  "key_gcra rl key = (case rl_gcra rl key of Some g \<Rightarrow> Some g | None \<Rightarrow> rl_default_gcra rl)"

definition key_cell :: "'k rate_limiter \<Rightarrow> 'k \<Rightarrow> nat" where
  "key_cell rl key = (case rl_state rl key of Some v \<Rightarrow> v | None \<Rightarrow> 0)"

text \<open>Examples: two cells a second.\<close>

definition ex_quota :: quota where
  "ex_quota = \<lparr> q_max_burst = 2, q_replenish_1_per = 500000000 \<rparr>"

definition ex_gcra :: gcra where
  "ex_gcra = \<lparr> g_t = 500000000, g_tau = 1000000000 \<rparr>"

definition ex_limiter :: "string rate_limiter" where
  "ex_limiter = \<lparr> rl_default_gcra = Some ex_gcra, rl_state = [''key'' \<mapsto> 2000000000], rl_gcra = Map.empty, rl_start = 0 \<rparr>"

section \<open>One cell\<close>

lemma wrap_small: "a + b \<le> U64_MAX \<Longrightarrow> u64_wrapping_add a b = a + b"
  by (simp add: u64_wrapping_add_def)

lemma decide_Inr:
  assumes ok: "gcra_ok g horizon" and t0: "t0 \<le> horizon" and d: "decide g start t0 (non_zero cell) = Inr new"
  shows "new = max (if cell = 0 then t0 + g_t g else cell) t0 + g_t g"
    and "(if cell = 0 then t0 + g_t g else cell) \<le> t0 + g_tau g"
proof -
  let ?tat = "if cell = 0 then t0 + g_t g else cell"
  have st: "starting_state g t0 = t0 + g_t g" using ok t0 by (simp add: starting_state_def wrap_small gcra_ok_def)
  have "\<not> t0 < ?tat - g_tau g" and new: "new = u64_wrapping_add (max ?tat t0) (g_t g)"
    using d st by (auto simp: decide_def non_zero_def Let_def split: if_splits)
  then show le: "?tat \<le> t0 + g_tau g" by auto
  then have "max ?tat t0 + g_t g \<le> U64_MAX" using ok t0 by (auto simp: gcra_ok_def)
  then show "new = max ?tat t0 + g_t g" using new by (simp add: wrap_small)
qed

lemma decide_passes:
  assumes ok: "gcra_ok g horizon" and t0: "t0 \<le> horizon" and le: "(if cell = 0 then t0 + g_t g else cell) \<le> t0 + g_tau g"
  shows "decide g start t0 (non_zero cell) = Inr (max (if cell = 0 then t0 + g_t g else cell) t0 + g_t g)"
proof -
  let ?tat = "if cell = 0 then t0 + g_t g else cell"
  have st: "starting_state g t0 = t0 + g_t g" using ok t0 by (simp add: starting_state_def wrap_small gcra_ok_def)
  have "max ?tat t0 + g_t g \<le> U64_MAX" using ok t0 le by (auto simp: gcra_ok_def)
  then show ?thesis using le st by (auto simp: decide_def non_zero_def Let_def wrap_small)
qed

section \<open>How many cells pass\<close>

lemma admits_from:
  assumes ok: "gcra_ok g b" and "admits g cell ts = Some cell'" and "\<forall>t0 \<in> set ts. t0 \<le> b" and "0 < cell" and "ts \<noteq> []"
  shows "cell + (length ts - 1) * g_t g \<le> b + g_tau g"
  using assms(2-)
proof (induction ts arbitrary: cell)
  case (Cons t0 ts)
  obtain new where new: "decide g 0 t0 (non_zero cell) = Inr new" "admits g new ts = Some cell'"
    using Cons.prems(1) by (auto split: sum.splits)
  have t0: "t0 \<le> b" using Cons.prems(2) by simp
  have n: "new = max cell t0 + g_t g" "cell \<le> t0 + g_tau g" using decide_Inr [OF ok t0 new(1)] Cons.prems(3) by simp_all
  show ?case
  proof (cases "ts = []")
    case True
    then show ?thesis using n(2) t0 by simp
  next
    case False
    have "new + (length ts - 1) * g_t g \<le> b + g_tau g" using Cons.IH [OF new(2)] Cons.prems(2) n(1) ok False by (simp add: gcra_ok_def)
    then show ?thesis using n(1) False by (cases ts) (auto simp: algebra_simps)
  qed
qed simp

lemma admits_window:
  assumes ok: "gcra_ok g b" and run: "admits g cell ts = Some cell'" and win: "\<forall>t0 \<in> set ts. a \<le> t0 \<and> t0 \<le> b"
  shows "length ts * g_t g \<le> b - a + g_tau g + (if cell = 0 then 0 else g_t g)"
proof (cases ts)
  case (Cons t0 ts')
  obtain new where new: "decide g 0 t0 (non_zero cell) = Inr new" "admits g new ts' = Some cell'"
    using run Cons by (auto split: sum.splits)
  have t0: "t0 \<le> b" "a \<le> t0" using win Cons by simp_all
  note n = decide_Inr [OF ok t0(1) new(1)]
  have pos: "0 < new" using n(1) ok by (simp add: gcra_ok_def)
  have low: "a + (if cell = 0 then 2 * g_t g else g_t g) \<le> new" using n(1) t0(2) by auto
  show ?thesis
  proof (cases "ts' = []")
    case True
    then show ?thesis using Cons n(2) ok t0 by (auto simp: gcra_ok_def)
  next
    case False
    have "new + (length ts' - 1) * g_t g \<le> b + g_tau g"
      using admits_from [OF ok new(2) _ pos False] win Cons by simp
    moreover obtain m where "length ts' = Suc m" using False by (cases ts') auto
    ultimately show ?thesis using low Cons by (auto simp: algebra_simps split: if_splits)
  qed
qed simp

lemma admits_append: "admits g cell (ts @ us) = Option.bind (admits g cell ts) (\<lambda>cell'. admits g cell' us)"
  by (induction g cell ts rule: admits.induct) (auto split: sum.splits)

lemma admits_burst:
  assumes ok: "gcra_ok g t0" and tau: "g_tau g = burst * g_t g" and k: "0 < k"
  shows "admits g (t0 + k * g_t g) (replicate n t0) \<noteq> None \<longleftrightarrow> n = 0 \<or> k + n \<le> burst + 1"
  using k
proof (induction n arbitrary: k)
  case (Suc n)
  have t: "0 < g_t g" using ok by (simp add: gcra_ok_def)
  have cell: "t0 + k * g_t g \<noteq> 0" using t Suc.prems by simp
  show ?case
  proof (cases "k \<le> burst")
    case True
    then have le: "t0 + k * g_t g \<le> t0 + g_tau g" by (simp add: tau)
    have "decide g 0 t0 (non_zero (t0 + k * g_t g)) = Inr (t0 + (k + 1) * g_t g)"
      using decide_passes [OF ok order_refl, of "t0 + k * g_t g" 0] le unfolding if_not_P [OF cell] by (simp add: algebra_simps)
    then show ?thesis using Suc.IH [of "k + 1"] True by auto
  next
    case False
    then have "burst * g_t g < k * g_t g" using t by simp
    then have lt: "g_tau g < k * g_t g" by (simp add: tau)
    have "\<not> (\<exists>new. decide g 0 t0 (non_zero (t0 + k * g_t g)) = Inr new)"
      using decide_Inr(2) [OF ok order_refl, of 0 "t0 + k * g_t g"] cell lt by auto
    then show ?thesis using False by (auto split: sum.splits)
  qed
qed simp

lemma burst_exact:
  assumes ok: "gcra_ok g t0" and tau: "g_tau g = burst * g_t g"
  shows "admits g 0 (replicate n t0) \<noteq> None \<longleftrightarrow> n \<le> burst"
    and "0 < cell \<Longrightarrow> cell \<le> t0 \<Longrightarrow> admits g cell (replicate n t0) \<noteq> None \<longleftrightarrow> n \<le> burst + 1"
proof -
  have burst: "0 < burst" using ok tau by (cases burst) (auto simp: gcra_ok_def)
  have first: "decide g 0 t0 (non_zero 0) = Inr (t0 + 2 * g_t g)"
    using decide_passes [OF ok order_refl, of 0 0] ok by (simp add: gcra_ok_def)
  show "admits g 0 (replicate n t0) \<noteq> None \<longleftrightarrow> n \<le> burst"
    using admits_burst [OF ok tau, of 2 "n - 1"] first burst by (cases n) auto
  assume c: "0 < cell" "cell \<le> t0"
  have idle: "decide g 0 t0 (non_zero cell) = Inr (t0 + 1 * g_t g)"
    using decide_passes [OF ok order_refl, of cell 0] c by simp
  show "admits g cell (replicate n t0) \<noteq> None \<longleftrightarrow> n \<le> burst + 1"
    using admits_burst [OF ok tau, of 1 "n - 1"] idle by (cases n) auto
qed

section \<open>Threads\<close>

lemma cas_steps_linear:
  assumes "(cas_step g)\<^sup>*\<^sup>* (cell, th) (cell', th')" and "\<forall>p. \<not> granted (th p)"
  shows "(\<forall>p. thread_time (th' p) = thread_time (th p)) \<and>
    (\<exists>log. distinct log \<and> set log = {p. granted (th' p)} \<and> admits g cell (map (\<lambda>p. thread_time (th p)) log) = Some cell')"
  using assms(1)
proof (induction rule: rtranclp_induct2)
  case refl
  then show ?case using assms(2) by (auto intro!: exI [of _ "[]"])
next
  case (step cell1 th1 cell2 th2)
  obtain log where log: "distinct log" "set log = {p. granted (th1 p)}" "admits g cell (map (\<lambda>p. thread_time (th p)) log) = Some cell1"
    using step.IH by blast
  have time: "thread_time (th1 p) = thread_time (th p)" for p using step.IH by blast
  show ?case using step.hyps(2)
  proof (cases rule: cas_step.cases)
    case (load p t0)
    then have "{p. granted (th2 p)} = {p. granted (th1 p)}" "cell2 = cell1" by auto
    then show ?thesis using log time load by (metis fun_upd_apply thread_time.simps(1,2))
  next
    case (swap p t0 prev)
    have new: "p \<notin> set log" using log(2) swap by auto
    have t0: "thread_time (th p) = t0" using time [of p] swap by simp
    have "admits g cell (map (\<lambda>p. thread_time (th p)) (log @ [p])) = Some cell2"
      using log(3) swap t0 by (simp add: admits_append)
    moreover have "set (log @ [p]) = {p. granted (th2 p)}" using log(2) swap by auto
    ultimately show ?thesis using log(1) new time t0 swap
      by (intro conjI exI [of _ "log @ [p]"]) auto
  next
    case (retry p t0 prev new)
    then have "{p. granted (th2 p)} = {p. granted (th1 p)}" "cell2 = cell1" by auto
    then show ?thesis using log time retry by (metis fun_upd_apply thread_time.simps(2))
  next
    case (refuse p t0 prev e)
    then have "{p. granted (th2 p)} = {p. granted (th1 p)}" "cell2 = cell1" by auto
    then show ?thesis using log time refuse by (metis fun_upd_apply thread_time.simps(2,4))
  qed
qed

section \<open>Waiting\<close>

lemma key_of_state [simp]:
  "key_gcra (rl \<lparr> rl_state := st \<rparr>) = key_gcra rl" "key_cell (rl \<lparr> rl_state := st(key \<mapsto> v) \<rparr>) key = v"
  by (simp_all add: key_gcra_def key_cell_def fun_eq_iff split: option.splits)

lemma check_key_decide:
  assumes "key_gcra rl key = Some g"
  shows "check_key now key rl = (case decide g (rl_start rl) (now - rl_start rl) (non_zero (key_cell rl key)) of
      Inl e \<Rightarrow> (Inl e, rl \<lparr> rl_state := (rl_state rl)(key \<mapsto> key_cell rl key) \<rparr>)
    | Inr new \<Rightarrow> (Inr (), rl \<lparr> rl_state := (rl_state rl)(key \<mapsto> new) \<rparr>))"
  using assms by (auto simp: check_key_def key_gcra_def key_cell_def test_and_update_def measure_and_replace_def measure_one_def
      split: option.splits sum.splits)

lemma check_key_grants:
  assumes g: "key_gcra rl key = Some g" and ok: "gcra_ok g horizon" and now: "now - rl_start rl \<le> horizon"
    and le: "key_cell rl key \<le> now - rl_start rl + g_tau g"
  shows "\<exists>rl'. check_key now key rl = (Inr (), rl')"
proof -
  have "(if key_cell rl key = 0 then now - rl_start rl + g_t g else key_cell rl key) \<le> now - rl_start rl + g_tau g"
    using le ok by (simp add: gcra_ok_def)
  from decide_passes [OF ok now this] show ?thesis by (simp add: check_key_decide [OF g])
qed

lemma check_key_refuses:
  assumes g: "key_gcra rl key = Some g" and ok: "gcra_ok g horizon" and now: "now - rl_start rl \<le> horizon" "rl_start rl \<le> now"
    and late: "now - rl_start rl + g_tau g < key_cell rl key" and small: "rl_start rl + key_cell rl key \<le> U64_MAX"
  shows "\<exists>e rl'. check_key now key rl = (Inl e, rl') \<and> key_gcra rl' key = Some g \<and> rl_start rl' = rl_start rl \<and>
    key_cell rl' key = key_cell rl key \<and> now + wait_time_from now e = rl_start rl + (key_cell rl key - g_tau g)"
proof -
  let ?c = "key_cell rl key"
  let ?e = "\<lparr> nu_state = \<lparr> ss_t = g_t g, ss_tau = g_tau g, ss_time_of_measurement = ?c - g_tau g, ss_tat = ?c - g_tau g \<rparr>, nu_start = rl_start rl \<rparr>"
  let ?rl = "rl \<lparr> rl_state := (rl_state rl)(key \<mapsto> ?c) \<rparr>"
  have "decide g (rl_start rl) (now - rl_start rl) (non_zero ?c) = Inl ?e"
    using late by (auto simp: decide_def non_zero_def Let_def)
  then have c: "check_key now key rl = (Inl ?e, ?rl)" by (simp add: check_key_decide [OF g])
  have "earliest_possible ?e = rl_start rl + (?c - g_tau g)" using small by (simp add: earliest_possible_def wrap_small)
  then have "now + wait_time_from now ?e = rl_start rl + (?c - g_tau g)"
    using late now(2) by (simp add: wait_time_from_def Let_def)
  then show ?thesis using c g by simp
qed

section \<open>Claims\<close>

lemma ex_gcra_facts: "gcra_new ex_quota = Some ex_gcra" "gcra_ok ex_gcra 10" "quota_per_second 2 = Some ex_quota"
  by (simp_all add: gcra_new_def ex_quota_def ex_gcra_def gcra_ok_def U64_MAX_def quota_per_second_def)

lemma ex_gcra_eval: "decide ex_gcra 0 10 (non_zero 0) = Inr 1000000010"
  by (simp add: decide_def non_zero_def starting_state_def ex_gcra_def u64_wrapping_add_def U64_MAX_def)

text \<open>
  C23: However many threads race in the compare-and-exchange loop of one key, and however their steps interleave,
  the cells let through in a window are bounded by the quota: one for each replenishing interval of the window
  and the burst, and one more where the key has been used before.
\<close>

theorem rate_limiter_bound:
  assumes "gcra_new q = Some g" and "gcra_ok g b" and "\<forall>p. \<exists>t0. th p = Starting t0 \<and> a \<le> t0 \<and> t0 \<le> b"
    and "(cas_step g)\<^sup>*\<^sup>* (cell, th) (cell', th')"
  shows "card {p. \<exists>t0. th' p = Granted t0} \<le> (b - a) div q_replenish_1_per q + q_max_burst q + (if cell = 0 then 0 else 1)"
proof -
  let ?t = "q_replenish_1_per q"
  have g: "g_t g = ?t" "g_tau g = ?t * q_max_burst q" using assms(1) by (auto simp: gcra_new_def split: if_splits)
  have t: "0 < ?t" using assms(2) g by (simp add: gcra_ok_def)
  have "\<forall>p. \<not> granted (th p)" using assms(3) by (metis granted.simps(2))
  from cas_steps_linear [OF assms(4) this] obtain log where log: "distinct log" "set log = {p. granted (th' p)}"
    "admits g cell (map (\<lambda>p. thread_time (th p)) log) = Some cell'" by blast
  have "\<forall>t0 \<in> set (map (\<lambda>p. thread_time (th p)) log). a \<le> t0 \<and> t0 \<le> b"
    using assms(3) by (auto, metis thread_time.simps(1), metis thread_time.simps(1))
  from admits_window [OF assms(2) log(3) this]
  have "length log * ?t \<le> b - a + (q_max_burst q + (if cell = 0 then 0 else 1)) * ?t"
    by (cases "cell = 0") (simp_all add: g algebra_simps)
  then have "length log \<le> (b - a + (q_max_burst q + (if cell = 0 then 0 else 1)) * ?t) div ?t"
    using div_le_mono [of "length log * ?t" _ ?t] t unfolding nonzero_mult_div_cancel_right [OF less_imp_neq [OF t, symmetric]] by blast
  also have "\<dots> = (b - a) div ?t + (q_max_burst q + (if cell = 0 then 0 else 1))" using t by simp
  finally have "length log \<le> (b - a) div ?t + q_max_burst q + (if cell = 0 then 0 else 1)" by simp
  moreover have "{p. \<exists>t0. th' p = Granted t0} = set log" unfolding log(2) by (auto elim: granted.elims)
  then have "card {p. \<exists>t0. th' p = Granted t0} = length log" using distinct_card [OF log(1)] by simp
  ultimately show ?thesis by simp
qed

theorem rate_limiter_bound_witness:
  "card {p :: unit. \<exists>t0. Granted 10 = Granted t0} \<le> (10 - 0) div 500000000 + 2 + 0"
proof -
  let ?th = "\<lambda>p :: unit. Starting 10" and ?th1 = "\<lambda>p :: unit. Trying 10 0" and ?th2 = "\<lambda>p :: unit. Granted 10"
  have "cas_step ex_gcra (0, ?th) (0, ?th(() := Trying 10 0))" by (rule load) simp
  then have s1: "cas_step ex_gcra (0, ?th) (0, ?th1)" by (simp add: fun_upd_def)
  have "cas_step ex_gcra (0, ?th1) (1000000010, ?th1(() := Granted 10))" by (rule swap) (simp_all add: ex_gcra_eval)
  then have s2: "cas_step ex_gcra (0, ?th1) (1000000010, ?th2)" by (simp add: fun_upd_def)
  have "(cas_step ex_gcra)\<^sup>*\<^sup>* (0, ?th) (1000000010, ?th2)" using s1 s2 by (meson converse_rtranclp_into_rtranclp rtranclp.rtrancl_refl)
  from rate_limiter_bound [OF ex_gcra_facts(1,2) _ this, where a = 0] show ?thesis by (simp add: ex_quota_def)
qed

text \<open>
  C36: A key that has been idle lets one cell more than the burst size through at one instant; a key used for the
  first time lets exactly the burst size through.
\<close>

theorem rate_limiter_burst:
  assumes "gcra_new q = Some g" and "gcra_ok g t0" and "0 < cell" and "cell \<le> t0"
  shows "(admits g 0 (replicate n t0) \<noteq> None \<longleftrightarrow> n \<le> q_max_burst q) \<and>
    (admits g cell (replicate n t0) \<noteq> None \<longleftrightarrow> n \<le> q_max_burst q + 1)"
proof -
  have "g_tau g = q_max_burst q * g_t g" using assms(1) by (auto simp: gcra_new_def split: if_splits)
  from burst_exact [OF assms(2) this] assms(3,4) show ?thesis by blast
qed

theorem rate_limiter_burst_witness:
  "q_max_burst ex_quota = 2 \<and> admits ex_gcra 1 (replicate 3 10) \<noteq> None"
  using rate_limiter_burst [OF ex_gcra_facts(1,2), of 1 3] by (simp add: ex_quota_def)

text \<open>
  C37: Waiting for a key ends.  A task that has the key for itself is granted it at once, or after a single sleep at
  the time the limiter announced plus what the sleep ran over.
\<close>

theorem until_key_ready_returns:
  assumes "key_gcra rl key = Some g" and "gcra_ok g horizon" and "rl_start rl \<le> now" and "now - rl_start rl \<le> horizon"
    and "key_cell rl key + late n \<le> horizon" and "rl_start rl + key_cell rl key \<le> U64_MAX"
  shows "\<exists>now' rl'. until_key_ready late n now key rl = Some (now', rl') \<and>
    (if key_cell rl key \<le> now - rl_start rl + g_tau g then now' = now
     else now' = rl_start rl + (key_cell rl key - g_tau g) + late n)"
proof (cases "key_cell rl key \<le> now - rl_start rl + g_tau g")
  case True
  then obtain rl' where "check_key now key rl = (Inr (), rl')" using check_key_grants [OF assms(1,2,4)] by blast
  then show ?thesis using until_key_ready.simps [of late n now key rl] True by simp
next
  case False
  then obtain e rl1 where c: "check_key now key rl = (Inl e, rl1)" "key_gcra rl1 key = Some g" "rl_start rl1 = rl_start rl"
    "key_cell rl1 key = key_cell rl key" "now + wait_time_from now e = rl_start rl + (key_cell rl key - g_tau g)"
    using check_key_refuses [OF assms(1,2,4,3) _ assms(6)] by auto
  let ?now = "rl_start rl + (key_cell rl key - g_tau g) + late n"
  have "?now - rl_start rl1 \<le> horizon" "key_cell rl1 key \<le> ?now - rl_start rl1 + g_tau g" using assms(5) c(3,4) by simp_all
  then obtain rl2 where "check_key ?now key rl1 = (Inr (), rl2)" using check_key_grants [OF c(2) assms(2)] by blast
  then have "until_key_ready late (n + 1) ?now key rl1 = Some (?now, rl2)"
    using until_key_ready.simps [of late "n + 1" ?now key rl1] by simp
  then show ?thesis using until_key_ready.simps [of late n now key rl] c(1,5) False by simp
qed

theorem until_key_ready_returns_witness:
  "\<exists>rl'. until_key_ready (\<lambda>_. 5) 0 7 ''key'' ex_limiter = Some (1000000005, rl')"
proof -
  have "key_gcra ex_limiter ''key'' = Some ex_gcra" "key_cell ex_limiter ''key'' = 2000000000" "rl_start ex_limiter = 0"
    by (simp_all add: ex_limiter_def key_gcra_def key_cell_def)
  with until_key_ready_returns [of ex_limiter "''key''" ex_gcra 3000000000 7 "\<lambda>_. 5" 0] show ?thesis
    by (auto simp: gcra_ok_def ex_gcra_def U64_MAX_def)
qed

end
