(* ===== verification/Component_State.thy ===== *)
theory Component_State
  imports Prelude
begin

text \<open>
  The life cycle of a component: the states and triggers of \<open>common/src/enums.rs\<close>, the transition table and the
  operations of the \<open>Component\<close> trait in \<open>common/src/component.rs\<close>.  What a component does on start, stop and so
  on is user code; an operation takes whether that hook succeeds.
\<close>

datatype component_state =
    PreInitialized | Ready | Starting | Running | Stopping | Stopped | Resuming | Resetting | Disposing | Disposed
  | Degrading | Degraded | Faulting | Faulted

datatype component_trigger =
    Initialize | Start | StartCompleted | Stop | StopCompleted | Resume | ResumeCompleted | Reset | ResetCompleted
  | Dispose | DisposeCompleted | Degrade | DegradeCompleted | Fault | FaultCompleted

datatype component_error = InvalidTrigger component_state component_trigger | HookFailed

definition component_transition :: "component_state \<Rightarrow> component_trigger \<Rightarrow> component_error + component_state" where
  "component_transition s trigger =
     (let invalid = Inl (InvalidTrigger s trigger) in
      case s of
        PreInitialized \<Rightarrow> (case trigger of Initialize \<Rightarrow> Inr Ready | _ \<Rightarrow> invalid)
      | Ready \<Rightarrow> (case trigger of Reset \<Rightarrow> Inr Resetting | Start \<Rightarrow> Inr Starting | Dispose \<Rightarrow> Inr Disposing | _ \<Rightarrow> invalid)
      | Resetting \<Rightarrow> (case trigger of ResetCompleted \<Rightarrow> Inr Ready | _ \<Rightarrow> invalid)
      | Starting \<Rightarrow> (case trigger of StartCompleted \<Rightarrow> Inr Running | Stop \<Rightarrow> Inr Stopping | Fault \<Rightarrow> Inr Faulting | _ \<Rightarrow> invalid)
      | Running \<Rightarrow> (case trigger of Stop \<Rightarrow> Inr Stopping | Degrade \<Rightarrow> Inr Degrading | Fault \<Rightarrow> Inr Faulting | _ \<Rightarrow> invalid)
      | Resuming \<Rightarrow> (case trigger of Stop \<Rightarrow> Inr Stopping | ResumeCompleted \<Rightarrow> Inr Running | Fault \<Rightarrow> Inr Faulting | _ \<Rightarrow> invalid)
      | Stopping \<Rightarrow> (case trigger of StopCompleted \<Rightarrow> Inr Stopped | Fault \<Rightarrow> Inr Faulting | _ \<Rightarrow> invalid)
      | Stopped \<Rightarrow> (case trigger of Reset \<Rightarrow> Inr Resetting | Resume \<Rightarrow> Inr Resuming | Dispose \<Rightarrow> Inr Disposing | Fault \<Rightarrow> Inr Faulting | _ \<Rightarrow> invalid)
      | Degrading \<Rightarrow> (case trigger of DegradeCompleted \<Rightarrow> Inr Degraded | _ \<Rightarrow> invalid)
      | Degraded \<Rightarrow> (case trigger of Resume \<Rightarrow> Inr Resuming | Stop \<Rightarrow> Inr Stopping | Fault \<Rightarrow> Inr Faulting | _ \<Rightarrow> invalid)
      | Disposing \<Rightarrow> (case trigger of DisposeCompleted \<Rightarrow> Inr Disposed | _ \<Rightarrow> invalid)
      | Faulting \<Rightarrow> (case trigger of FaultCompleted \<Rightarrow> Inr Faulted | _ \<Rightarrow> invalid)
      | _ \<Rightarrow> invalid)"

text \<open>Each operation: the trigger, the hook, the trigger of completion; an error stops it where it is.\<close>

definition run_phase ::
    "component_trigger \<Rightarrow> component_trigger \<Rightarrow> bool \<Rightarrow> component_state \<Rightarrow> component_error option \<times> component_state" where
  "run_phase trigger completed hook_ok s =
     (case component_transition s trigger of
        Inl e \<Rightarrow> (Some e, s)
      | Inr s \<Rightarrow>
          if \<not> hook_ok then (Some HookFailed, s)
          else case component_transition s completed of Inl e \<Rightarrow> (Some e, s) | Inr s \<Rightarrow> (None, s))"

definition component_initialize :: "component_state \<Rightarrow> component_error option \<times> component_state" where
  "component_initialize s =
     (case component_transition s Initialize of Inl e \<Rightarrow> (Some e, s) | Inr s \<Rightarrow> (None, s))"

definition component_start :: "bool \<Rightarrow> component_state \<Rightarrow> component_error option \<times> component_state" where
  "component_start = run_phase Start StartCompleted"

definition component_stop :: "bool \<Rightarrow> component_state \<Rightarrow> component_error option \<times> component_state" where
  "component_stop = run_phase Stop StopCompleted"

definition component_resume :: "bool \<Rightarrow> component_state \<Rightarrow> component_error option \<times> component_state" where
  "component_resume = run_phase Resume ResumeCompleted"

definition component_degrade :: "bool \<Rightarrow> component_state \<Rightarrow> component_error option \<times> component_state" where
  "component_degrade = run_phase Degrade DegradeCompleted"

definition component_fault :: "bool \<Rightarrow> component_state \<Rightarrow> component_error option \<times> component_state" where
  "component_fault = run_phase Fault FaultCompleted"

definition component_reset :: "bool \<Rightarrow> component_state \<Rightarrow> component_error option \<times> component_state" where
  "component_reset = run_phase Reset ResetCompleted"

definition component_dispose :: "bool \<Rightarrow> component_state \<Rightarrow> component_error option \<times> component_state" where
  "component_dispose = run_phase Dispose DisposeCompleted"

datatype component_op =
    InitializeOp | StartOp bool | StopOp bool | ResumeOp bool | DegradeOp bool | FaultOp bool | ResetOp bool | DisposeOp bool

fun component_apply :: "component_op \<Rightarrow> component_state \<Rightarrow> component_error option \<times> component_state" where
  "component_apply InitializeOp s = component_initialize s"
| "component_apply (StartOp hook) s = component_start hook s"
| "component_apply (StopOp hook) s = component_stop hook s"
| "component_apply (ResumeOp hook) s = component_resume hook s"
| "component_apply (DegradeOp hook) s = component_degrade hook s"
| "component_apply (FaultOp hook) s = component_fault hook s"
| "component_apply (ResetOp hook) s = component_reset hook s"
| "component_apply (DisposeOp hook) s = component_dispose hook s"

definition component_run :: "component_op list \<Rightarrow> component_state \<Rightarrow> component_state" where
  "component_run ops s = foldl (\<lambda>s op. snd (component_apply op s)) s ops"

lemmas component_op_defs = component_transition_def Let_def component_initialize_def component_start_def component_stop_def component_resume_def
  component_degrade_def component_fault_def component_reset_def component_dispose_def run_phase_def

lemma component_run_Cons: "component_run (op # ops) s = component_run ops (snd (component_apply op s))"
  by (simp add: component_run_def)

lemma component_run_Nil [simp]: "component_run [] s = s"
  by (simp add: component_run_def)

lemma closed_set:
  assumes "\<And>op s. s \<in> S \<Longrightarrow> snd (component_apply op s) \<in> S" and "s \<in> S"
  shows "component_run ops s \<in> S"
  using assms(2) by (induction ops arbitrary: s) (auto simp: component_run_Cons assms(1))


lemma faulty_apply:
  assumes "s \<in> {Faulted, Resetting, Disposing, Degrading, Faulting, Stopping}"
  shows "snd (component_apply op s) \<in> {Faulted, Resetting, Disposing, Degrading, Faulting, Stopping}"
  using assms by (cases op) (auto simp: component_op_defs)



text \<open>
  The states from which a component can still be disposed: all but the stuck ones and \<open>Stopping\<close>, where a
  failed stop hook leaves it and from where it can only be faulted.
\<close>

lemma component_can_dispose:
  "(\<exists>ops. component_run ops s = Disposed) \<longleftrightarrow>
     s \<in> {PreInitialized, Ready, Starting, Running, Stopped, Resuming, Degraded, Disposed}"
proof
  let ?dead = "{Faulted, Resetting, Disposing, Degrading, Faulting, Stopping}"
  assume "\<exists>ops. component_run ops s = Disposed"
  then obtain ops where ops: "component_run ops s = Disposed" by blast
  have "s \<notin> ?dead"
  proof
    assume "s \<in> ?dead"
    then have "component_run ops s \<in> ?dead" using closed_set [of ?dead s ops] faulty_apply by blast
    then show False using ops by simp
  qed
  then show "s \<in> {PreInitialized, Ready, Starting, Running, Stopped, Resuming, Degraded, Disposed}" by (cases s) auto
next
  assume s: "s \<in> {PreInitialized, Ready, Starting, Running, Stopped, Resuming, Degraded, Disposed}"
  have "component_run [InitializeOp, StopOp True, DisposeOp True] s = Disposed"
    using s by (elim insertE emptyE; hypsubst; simp add: component_run_def component_op_defs)
  then show "\<exists>ops. component_run ops s = Disposed" by blast
qed

end
