(* ===== verification/Fifo_Cache.thy ===== *)
theory Fifo_Cache
  imports Prelude
begin

text \<open>
  The bounded caches of \<open>common/src/cache/fifo.rs\<close>: a ring of at most \<open>N\<close> keys, newest first, next to a hash set
  or hash map for lookups.  The capacity is a constant of the type, positive by a compile-time check.
\<close>

record 'a fifo_cache =
  fc_order :: "'a list"
  fc_index :: "'a set"

record ('k, 'v) fifo_cache_map =
  fm_order :: "'k list"
  fm_index :: "'k \<rightharpoonup> 'v"

definition fifo_new :: "'a fifo_cache" where
  "fifo_new = \<lparr> fc_order = [], fc_index = {} \<rparr>"

text \<open>\<open>is_full\<close>, \<open>pop_back\<close> and \<open>push_front\<close> of the ring.\<close>

definition ring_full :: "nat \<Rightarrow> 'a list \<Rightarrow> bool" where
  "ring_full N order \<longleftrightarrow> length order = N"

definition ring_pop_back :: "'a list \<Rightarrow> ('a \<times> 'a list) option" where
  "ring_pop_back order = (if order = [] then None else Some (last order, butlast order))"

definition ring_push_front :: "nat \<Rightarrow> 'a \<Rightarrow> 'a list \<Rightarrow> 'a list option" where
  "ring_push_front N x order = (if length order = N then None else Some (x # order))"

definition fifo_add :: "nat \<Rightarrow> 'a \<Rightarrow> 'a fifo_cache \<Rightarrow> 'a fifo_cache" where
  "fifo_add N x c =
     (if x \<in> fc_index c then c
      else let c = (if ring_full N (fc_order c)
                    then case ring_pop_back (fc_order c) of
                        Some (evicted, order) \<Rightarrow> \<lparr> fc_order = order, fc_index = fc_index c - {evicted} \<rparr>
                      | None \<Rightarrow> c
                    else c)
           in case ring_push_front N x (fc_order c) of
                Some order \<Rightarrow> \<lparr> fc_order = order, fc_index = insert x (fc_index c) \<rparr>
              | None \<Rightarrow> c)"

definition fifo_remove :: "'a \<Rightarrow> 'a fifo_cache \<Rightarrow> 'a fifo_cache" where
  "fifo_remove x c =
     (if x \<in> fc_index c then \<lparr> fc_order = filter (\<lambda>y. y \<noteq> x) (fc_order c), fc_index = fc_index c - {x} \<rparr> else c)"

definition fifo_clear :: "'a fifo_cache \<Rightarrow> 'a fifo_cache" where
  "fifo_clear c = \<lparr> fc_order = [], fc_index = {} \<rparr>"

definition fifo_map_new :: "('k, 'v) fifo_cache_map" where
  "fifo_map_new = \<lparr> fm_order = [], fm_index = Map.empty \<rparr>"

definition fifo_map_len :: "('k, 'v) fifo_cache_map \<Rightarrow> nat" where
  "fifo_map_len c = card (dom (fm_index c))"

definition fifo_map_get :: "'k \<Rightarrow> ('k, 'v) fifo_cache_map \<Rightarrow> 'v option" where
  "fifo_map_get k c = fm_index c k"

definition fifo_map_insert :: "nat \<Rightarrow> 'k \<Rightarrow> 'v \<Rightarrow> ('k, 'v) fifo_cache_map \<Rightarrow> ('k, 'v) fifo_cache_map" where
  "fifo_map_insert N k v c =
     (if fm_index c k \<noteq> None then c \<lparr> fm_index := (fm_index c)(k \<mapsto> v) \<rparr>
      else let c = (if ring_full N (fm_order c)
                    then case ring_pop_back (fm_order c) of
                        Some (evicted, order) \<Rightarrow> \<lparr> fm_order = order, fm_index = (fm_index c)(evicted := None) \<rparr>
                      | None \<Rightarrow> c
                    else c)
           in case ring_push_front N k (fm_order c) of
                Some order \<Rightarrow> \<lparr> fm_order = order, fm_index = (fm_index c)(k \<mapsto> v) \<rparr>
              | None \<Rightarrow> c)"

definition fifo_map_remove :: "'k \<Rightarrow> ('k, 'v) fifo_cache_map \<Rightarrow> 'v option \<times> ('k, 'v) fifo_cache_map" where
  "fifo_map_remove k c =
     (case fm_index c k of
        Some v \<Rightarrow> (Some v, \<lparr> fm_order = filter (\<lambda>y. y \<noteq> k) (fm_order c), fm_index = (fm_index c)(k := None) \<rparr>)
      | None \<Rightarrow> (None, c))"

definition fifo_map_clear :: "('k, 'v) fifo_cache_map \<Rightarrow> ('k, 'v) fifo_cache_map" where
  "fifo_map_clear c = \<lparr> fm_order = [], fm_index = Map.empty \<rparr>"

section \<open>Operations in sequence\<close>

datatype ('k, 'v) fifo_op = FifoInsert 'k 'v | FifoRemove 'k | FifoClear

fun fifo_map_apply :: "nat \<Rightarrow> ('k, 'v) fifo_op \<Rightarrow> ('k, 'v) fifo_cache_map \<Rightarrow> ('k, 'v) fifo_cache_map" where
  "fifo_map_apply N (FifoInsert k v) c = fifo_map_insert N k v c"
| "fifo_map_apply N (FifoRemove k) c = snd (fifo_map_remove k c)"
| "fifo_map_apply N FifoClear c = fifo_map_clear c"

definition fifo_map_run :: "nat \<Rightarrow> ('k, 'v) fifo_op list \<Rightarrow> ('k, 'v) fifo_cache_map \<Rightarrow> ('k, 'v) fifo_cache_map" where
  "fifo_map_run N ops c = foldl (\<lambda>c op. fifo_map_apply N op c) c ops"

fun fifo_apply :: "nat \<Rightarrow> ('k, 'v) fifo_op \<Rightarrow> 'k fifo_cache \<Rightarrow> 'k fifo_cache" where
  "fifo_apply N (FifoInsert k _) c = fifo_add N k c"
| "fifo_apply N (FifoRemove k) c = fifo_remove k c"
| "fifo_apply N FifoClear c = fifo_clear c"

definition fifo_run :: "nat \<Rightarrow> ('k, 'v) fifo_op list \<Rightarrow> 'k fifo_cache \<Rightarrow> 'k fifo_cache" where
  "fifo_run N ops c = foldl (\<lambda>c op. fifo_apply N op c) c ops"

definition fifo_map_ok :: "nat \<Rightarrow> ('k, 'v) fifo_cache_map \<Rightarrow> bool" where
  "fifo_map_ok N c \<longleftrightarrow> distinct (fm_order c) \<and> length (fm_order c) \<le> N \<and> dom (fm_index c) = set (fm_order c)"

definition keys_of :: "('k, 'v) fifo_cache_map \<Rightarrow> 'k fifo_cache" where
  "keys_of c = \<lparr> fc_order = fm_order c, fc_index = dom (fm_index c) \<rparr>"

text \<open>Inserting a new key drops the oldest one of a full cache.\<close>

definition evict :: "nat \<Rightarrow> 'k list \<Rightarrow> 'k list" where
  "evict N order = (if length order = N then butlast order else order)"

definition recent :: "nat \<Rightarrow> 'k \<Rightarrow> 'v \<Rightarrow> ('k, 'v) fifo_cache_map \<Rightarrow> bool" where
  "recent n k v c \<longleftrightarrow> fm_index c k = Some v \<and> (\<exists>us ws. fm_order c = us @ k # ws \<and> length us \<le> n)"

definition spares :: "'k \<Rightarrow> ('k, 'v) fifo_op \<Rightarrow> bool" where
  "spares k op \<longleftrightarrow> (case op of FifoInsert k' _ \<Rightarrow> k' \<noteq> k | FifoRemove k' \<Rightarrow> k' \<noteq> k | FifoClear \<Rightarrow> False)"

definition is_insert :: "('k, 'v) fifo_op \<Rightarrow> bool" where
  "is_insert op \<longleftrightarrow> (case op of FifoInsert _ _ \<Rightarrow> True | _ \<Rightarrow> False)"

lemma insert_new:
  assumes ok: "fifo_map_ok N c" and N: "0 < N" and new: "fm_index c k = None"
  shows "fm_order (fifo_map_insert N k v c) = k # evict N (fm_order c)"
    and "fm_index (fifo_map_insert N k v c) = ((fm_index c) |` set (evict N (fm_order c)))(k \<mapsto> v)"
proof -
  have dom: "dom (fm_index c) = set (fm_order c)" and dist: "distinct (fm_order c)" and le: "length (fm_order c) \<le> N"
    using ok by (simp_all add: fifo_map_ok_def)
  have out: "fm_index c x = None" if "x \<notin> set (fm_order c)" for x using dom that by blast
  show "fm_order (fifo_map_insert N k v c) = k # evict N (fm_order c)"
    using N new le by (cases "fm_order c") (auto simp: fifo_map_insert_def ring_full_def ring_pop_back_def ring_push_front_def evict_def Let_def)
  show "fm_index (fifo_map_insert N k v c) = ((fm_index c) |` set (evict N (fm_order c)))(k \<mapsto> v)"
  proof (cases "length (fm_order c) = N")
    case True
    then have ne: "fm_order c \<noteq> []" using N by auto
    obtain us l where split: "fm_order c = us @ [l]" using ne by (cases "fm_order c" rule: rev_cases) auto
    then have "l \<notin> set us" using dist by simp
    then have "(fm_index c)(l := None) = (fm_index c) |` set us"
      using out by (intro ext) (auto simp: restrict_map_def split)
    then have "(fm_index c)(last (fm_order c) := None) = (fm_index c) |` set (butlast (fm_order c))" by (simp add: split)
    moreover have "fm_index (fifo_map_insert N k v c) = ((fm_index c)(last (fm_order c) := None))(k \<mapsto> v)"
    proof -
      have "N - Suc 0 \<noteq> N" using N by simp
      then show ?thesis using True new ne by (simp add: fifo_map_insert_def ring_full_def ring_pop_back_def ring_push_front_def Let_def)
    qed
    ultimately show ?thesis using True by (simp only: evict_def refl if_True)
  next
    case False
    have "(fm_index c) |` set (fm_order c) = fm_index c" using out by (intro ext) (simp add: restrict_map_def)
    then show ?thesis using False new le by (simp add: fifo_map_insert_def ring_full_def ring_push_front_def evict_def Let_def)
  qed
qed

lemma set_evict: "set (evict N order) \<subseteq> set order" "distinct order \<Longrightarrow> distinct (evict N order)"
  by (auto simp: evict_def dest: in_set_butlastD intro: distinct_butlast)

lemma insert_ok:
  assumes ok: "fifo_map_ok N c" and N: "0 < N"
  shows "fifo_map_ok N (fifo_map_insert N k v c)"
proof (cases "fm_index c k")
  case None
  have k: "k \<notin> set (fm_order c)" using ok None by (auto simp: fifo_map_ok_def)
  have dom: "dom (fm_index c) = set (fm_order c)" using ok by (simp add: fifo_map_ok_def)
  have "dom (((fm_index c) |` set (evict N (fm_order c)))(k \<mapsto> v)) = insert k (set (evict N (fm_order c)))"
    using dom set_evict(1) [of N "fm_order c"] by auto
  moreover have "length (evict N (fm_order c)) < N" using ok N by (auto simp: evict_def fifo_map_ok_def)
  ultimately show ?thesis
    using insert_new [OF ok N None] k set_evict(1) [of N "fm_order c"] set_evict(2) [of "fm_order c" N] ok by (auto simp: fifo_map_ok_def)
next
  case (Some w)
  then show ?thesis using ok by (auto simp: fifo_map_insert_def fifo_map_ok_def)
qed

lemma apply_ok: "fifo_map_ok N c \<Longrightarrow> 0 < N \<Longrightarrow> fifo_map_ok N (fifo_map_apply N op c)"
proof (cases op)
  case (FifoRemove k)
  assume ok: "fifo_map_ok N c"
  then have "length (filter (\<lambda>y. y \<noteq> k) (fm_order c)) \<le> N"
    by (metis (no_types) fifo_map_ok_def le_trans length_filter_le)
  then show ?thesis using ok FifoRemove by (auto simp: fifo_map_remove_def fifo_map_ok_def split: option.splits)
next
  case (FifoInsert k v)
  then show "fifo_map_ok N c \<Longrightarrow> 0 < N \<Longrightarrow> ?thesis" by (simp add: insert_ok)
qed (simp add: fifo_map_clear_def fifo_map_ok_def)

lemma run_ok: "fifo_map_ok N c \<Longrightarrow> 0 < N \<Longrightarrow> fifo_map_ok N (fifo_map_run N ops c)"
  by (induction ops arbitrary: c) (auto simp: fifo_map_run_def apply_ok)

lemma keys_insert:
  assumes ok: "fifo_map_ok N c" and N: "0 < N"
  shows "keys_of (fifo_map_insert N k v c) = fifo_add N k (keys_of c)"
proof (cases "fm_index c k")
  case None
  then show ?thesis
    by (auto simp: keys_of_def fifo_map_insert_def fifo_add_def ring_pop_back_def ring_push_front_def Let_def split: option.splits)
next
  case (Some w)
  then have "insert k (dom (fm_index c)) = dom (fm_index c)" by auto
  then show ?thesis using Some by (simp add: keys_of_def fifo_map_insert_def fifo_add_def domI)
qed

lemma keys_apply: "fifo_map_ok N c \<Longrightarrow> 0 < N \<Longrightarrow> keys_of (fifo_map_apply N op c) = fifo_apply N op (keys_of c)"
proof (cases op)
  case (FifoInsert k v)
  then show "fifo_map_ok N c \<Longrightarrow> 0 < N \<Longrightarrow> ?thesis" by (simp add: keys_insert)
qed (auto simp: keys_of_def fifo_map_remove_def fifo_remove_def fifo_map_clear_def fifo_clear_def split: option.splits)

lemma keys_run: "fifo_map_ok N c \<Longrightarrow> 0 < N \<Longrightarrow> keys_of (fifo_map_run N ops c) = fifo_run N ops (keys_of c)"
  by (induction ops arbitrary: c) (auto simp: fifo_map_run_def fifo_run_def apply_ok keys_apply)

text \<open>A key with at most \<open>n\<close> newer ones.\<close>

lemma recent_insert:
  assumes ok: "fifo_map_ok N c" and r: "recent n k v c" and k': "k' \<noteq> k" and n: "n + 1 < N"
  shows "recent (n + 1) k v (fifo_map_insert N k' v' c)"
proof (cases "fm_index c k'")
  case None
  obtain us ws where order: "fm_order c = us @ k # ws" "length us \<le> n" and idx: "fm_index c k = Some v"
    using r by (auto simp: recent_def)
  have N: "0 < N" using n by simp
  have "\<exists>ws'. evict N (fm_order c) = us @ k # ws'"
  proof (cases "length (fm_order c) = N")
    case True
    then have "ws \<noteq> []" using order n by auto
    then show ?thesis using True order(1) by (auto simp: evict_def butlast_append)
  qed (use order(1) in \<open>simp add: evict_def\<close>)
  then obtain ws' where e: "evict N (fm_order c) = us @ k # ws'" by blast
  then have "fm_order (fifo_map_insert N k' v' c) = (k' # us) @ k # ws'" "fm_index (fifo_map_insert N k' v' c) k = Some v"
    using insert_new [OF ok N None] k' idx by simp_all
  then show ?thesis using order(2) unfolding recent_def by (intro conjI exI [of _ "k' # us"] exI [of _ ws']) auto
next
  case (Some w)
  then show ?thesis using r k' by (fastforce simp: recent_def fifo_map_insert_def)
qed

lemma recent_remove:
  assumes r: "recent n k v c" and k': "k' \<noteq> k"
  shows "recent n k v (snd (fifo_map_remove k' c))"
proof -
  obtain us ws where o: "fm_order c = us @ k # ws" "length us \<le> n" and idx: "fm_index c k = Some v"
    using r by (auto simp: recent_def)
  have "filter (\<lambda>y. y \<noteq> k') (fm_order c) = filter (\<lambda>y. y \<noteq> k') us @ k # filter (\<lambda>y. y \<noteq> k') ws"
    using o(1) k' by auto
  moreover have "length (filter (\<lambda>y. y \<noteq> k') us) \<le> n" using o(2) length_filter_le [of "\<lambda>y. y \<noteq> k'" us] by linarith
  ultimately show ?thesis using r idx k' by (auto simp: recent_def fifo_map_remove_def split: option.splits)
qed

lemma recent_run:
  assumes "fifo_map_ok N c" and "recent n k v c" and "list_all (spares k) ops" and "n + length (filter is_insert ops) < N"
  shows "fm_index (fifo_map_run N ops c) k = Some v"
  using assms
proof (induction ops arbitrary: n c)
  case Nil
  then show ?case by (simp add: fifo_map_run_def recent_def)
next
  case (Cons op ops)
  have N: "0 < N" using Cons.prems(4) by simp
  have run: "fifo_map_run N (op # ops) c = fifo_map_run N ops (fifo_map_apply N op c)" by (simp add: fifo_map_run_def)
  have ok: "fifo_map_ok N (fifo_map_apply N op c)" by (rule apply_ok [OF Cons.prems(1) N])
  show ?case
  proof (cases op)
    case (FifoInsert k' v')
    then have "recent (n + 1) k v (fifo_map_apply N op c)"
      using Cons.prems recent_insert [OF Cons.prems(1,2), of k' v'] by (simp add: spares_def is_insert_def)
    from Cons.IH [OF ok this] show ?thesis using Cons.prems(3,4) FifoInsert unfolding run by (simp add: is_insert_def)
  next
    case (FifoRemove k')
    then have "recent n k v (fifo_map_apply N op c)" using Cons.prems recent_remove [OF Cons.prems(2), of k'] by (simp add: spares_def)
    from Cons.IH [OF ok this] show ?thesis using Cons.prems(3,4) FifoRemove unfolding run by (simp add: is_insert_def)
  next
    case FifoClear
    then show ?thesis using Cons.prems(3) by (simp add: spares_def)
  qed
qed

lemma recent_new:
  assumes ok: "fifo_map_ok N c" and N: "0 < N" and new: "fm_index c k = None"
  shows "recent 0 k v (fifo_map_insert N k v c)"
  using insert_new [OF ok N new] by (auto simp: recent_def)

lemma new_ok: "fifo_map_ok N fifo_map_new"
  by (simp add: fifo_map_ok_def fifo_map_new_def)

text \<open>
  C38: A bounded cache never holds more than its capacity, its ring and its index always hold the same keys, the set
  cache behaves as the keys of the map cache, and a newly inserted key keeps its value until it is removed, replaced or
  cleared or as many further keys as the capacity are inserted.
\<close>

theorem fifo_cache_remembers:
  assumes "0 < N" and "c = fifo_map_run N history fifo_map_new" and "fifo_map_get k c = None"
    and "list_all (spares k) ops" and "length (filter is_insert ops) < N"
  shows "fifo_map_get k (fifo_map_run N ops (fifo_map_insert N k v c)) = Some v \<and>
    fifo_map_len c \<le> N \<and> dom (fm_index c) = set (fm_order c) \<and> keys_of c = fifo_run N history fifo_new"
proof -
  have ok: "fifo_map_ok N c" using run_ok [OF new_ok assms(1)] assms(2) by simp
  have new: "fm_index c k = None" using assms(3) by (simp add: fifo_map_get_def)
  have "fm_index (fifo_map_run N ops (fifo_map_insert N k v c)) k = Some v"
    using recent_run [OF insert_ok [OF ok assms(1)] recent_new [OF ok assms(1) new] assms(4)] assms(5) by simp
  moreover have "fifo_map_len c \<le> N" "dom (fm_index c) = set (fm_order c)"
    using ok by (auto simp: fifo_map_ok_def fifo_map_len_def distinct_card)
  moreover have "keys_of c = fifo_run N history fifo_new"
    using keys_run [OF new_ok assms(1), of history] assms(2) by (simp add: keys_of_def fifo_map_new_def fifo_new_def)
  ultimately show ?thesis by (simp add: fifo_map_get_def)
qed

theorem fifo_cache_remembers_witness:
  "fifo_map_get (7 :: nat) (fifo_map_run 2 [FifoRemove 1, FifoInsert 9 True] (fifo_map_insert 2 7 True fifo_map_new)) = Some True"
  using fifo_cache_remembers [of 2 fifo_map_new "[]" "7 :: nat" "[FifoRemove 1, FifoInsert 9 True]" True]
  by (simp add: fifo_map_run_def fifo_map_new_def fifo_map_get_def spares_def is_insert_def)

end
