(* ===== verification/Test_Clock.thy ===== *)
theory Test_Clock
  imports Pub_Sub
begin

text \<open>
  The test timer (\<open>common/src/timer.rs\<close>) and the test clock (\<open>common/src/clock.rs\<close>) that drive time in a
  backtest.  Times are 64-bit nanoseconds; arithmetic on \<open>UnixNanos\<close> panics on overflow, which is \<open>None\<close> here.
  The random id of a time event is left out.  Timer names are ASCII strings; timers are kept in the order of
  their names, the comparison of the string crate being the parameter \<open>U\<close>.
\<close>

section \<open>Timers\<close>

record time_event =
  te_name :: string
  te_ts_event :: nat
  te_ts_init :: nat

record test_timer =
  tt_name :: string
  tt_interval_ns :: nat
  tt_start_time_ns :: nat
  tt_stop_time_ns :: "nat option"
  tt_fire_immediately :: bool
  tt_next_time_ns :: nat
  tt_is_expired :: bool

definition create_valid_interval :: "nat \<Rightarrow> nat" where
  "create_valid_interval interval_ns = max interval_ns 1"

definition ascii_whitespace :: "char \<Rightarrow> bool" where
  "ascii_whitespace c \<longleftrightarrow> (of_char c :: nat) = 32 \<or> (9 \<le> (of_char c :: nat) \<and> (of_char c :: nat) \<le> 13)"

definition check_valid_string_utf8 :: "string \<Rightarrow> bool" where
  "check_valid_string_utf8 s \<longleftrightarrow> s \<noteq> [] \<and> list_ex (\<lambda>c. \<not> ascii_whitespace c) s"

definition timer_new :: "string \<Rightarrow> nat \<Rightarrow> nat \<Rightarrow> nat option \<Rightarrow> bool \<Rightarrow> test_timer option" where
  "timer_new name interval_ns start_time_ns stop_time_ns fire_immediately =
     (if \<not> check_valid_string_utf8 name then None
      else do {
        next_time_ns \<leftarrow> (if fire_immediately then Some start_time_ns else u64_checked_add start_time_ns interval_ns);
        Some \<lparr> tt_name = name, tt_interval_ns = interval_ns, tt_start_time_ns = start_time_ns,
               tt_stop_time_ns = stop_time_ns, tt_fire_immediately = fire_immediately,
               tt_next_time_ns = next_time_ns, tt_is_expired = False \<rparr>
      })"

definition timer_cancel :: "test_timer \<Rightarrow> test_timer" where
  "timer_cancel timer = timer \<lparr> tt_is_expired := True \<rparr>"

definition timer_next :: "test_timer \<Rightarrow> (time_event option \<times> test_timer) option" where
  "timer_next timer =
     (if tt_is_expired timer then Some (None, timer)
      else if (case tt_stop_time_ns timer of None \<Rightarrow> False | Some stop \<Rightarrow> tt_next_time_ns timer > stop)
      then Some (None, timer \<lparr> tt_is_expired := True \<rparr>)
      else let item = \<lparr> te_name = tt_name timer, te_ts_event = tt_next_time_ns timer, te_ts_init = tt_next_time_ns timer \<rparr>;
               timer = (if tt_stop_time_ns timer = Some (tt_next_time_ns timer) then timer \<lparr> tt_is_expired := True \<rparr> else timer)
           in map_option (\<lambda>next_time. (Some item, timer \<lparr> tt_next_time_ns := next_time \<rparr>))
                (u64_checked_add (tt_next_time_ns timer) (tt_interval_ns timer)))"

text \<open>\<open>take(n)\<close> on the iterator, run to its end.\<close>

fun timer_take :: "nat \<Rightarrow> test_timer \<Rightarrow> (time_event list \<times> test_timer) option" where
  "timer_take 0 timer = Some ([], timer)"
| "timer_take (Suc n) timer = do {
     (item, timer) \<leftarrow> timer_next timer;
     case item of
       None \<Rightarrow> Some ([], timer)
     | Some event \<Rightarrow> do {
         (events, timer) \<leftarrow> timer_take n timer;
         Some (event # events, timer)
       }
   }"

definition timer_advance :: "nat \<Rightarrow> test_timer \<Rightarrow> (time_event list \<times> test_timer) option" where
  "timer_advance to_time_ns timer =
     (let advances = (if tt_next_time_ns timer \<le> to_time_ns
                      then u64_saturating_add ((to_time_ns - tt_next_time_ns timer) div tt_interval_ns timer) 1 else 0)
      in timer_take advances timer)"

section \<open>Callbacks\<close>

record 'cb callback_registry =
  cr_default_callback :: "'cb option"
  cr_callbacks :: "string \<rightharpoonup> 'cb"

definition registry_new :: "'cb callback_registry" where
  "registry_new = \<lparr> cr_default_callback = None, cr_callbacks = Map.empty \<rparr>"

definition register_default_handler :: "'cb \<Rightarrow> 'cb callback_registry \<Rightarrow> 'cb callback_registry" where
  "register_default_handler callback r = r \<lparr> cr_default_callback := Some callback \<rparr>"

definition cancel_default_handler :: "'cb callback_registry \<Rightarrow> 'cb callback_registry" where
  "cancel_default_handler r = r \<lparr> cr_default_callback := None \<rparr>"

definition register_callback :: "string \<Rightarrow> 'cb \<Rightarrow> 'cb callback_registry \<Rightarrow> 'cb callback_registry" where
  "register_callback name callback r = r \<lparr> cr_callbacks := (cr_callbacks r)(name \<mapsto> callback) \<rparr>"

definition has_any_callback :: "string \<Rightarrow> 'cb callback_registry \<Rightarrow> bool" where
  "has_any_callback name r \<longleftrightarrow> cr_callbacks r name \<noteq> None \<or> cr_default_callback r \<noteq> None"

definition get_callback :: "string \<Rightarrow> 'cb callback_registry \<Rightarrow> 'cb option" where
  "get_callback name r = (case cr_callbacks r name of Some cb \<Rightarrow> Some cb | None \<Rightarrow> cr_default_callback r)"

definition get_handler :: "time_event \<Rightarrow> 'cb callback_registry \<Rightarrow> (time_event \<times> 'cb) option" where
  "get_handler event r = map_option (Pair event) (get_callback (te_name event) r)"

definition registry_clear :: "'cb callback_registry \<Rightarrow> 'cb callback_registry" where
  "registry_clear r = r \<lparr> cr_callbacks := Map.empty \<rparr>"

section \<open>Checks of the arguments\<close>

datatype clock_error =
    InvalidName | AlertInPast | NoCallbacks | IntervalNotPositive | NextEventInPast | StopNotAfterStart | StopInPast

definition validate_and_prepare_time_alert :: "string \<Rightarrow> nat \<Rightarrow> bool option \<Rightarrow> nat \<Rightarrow> clock_error + nat" where
  "validate_and_prepare_time_alert name alert_time_ns allow_past ts_now =
     (if \<not> check_valid_string_utf8 name then Inl InvalidName
      else let allow_past = (case allow_past of None \<Rightarrow> True | Some b \<Rightarrow> b) in
        if alert_time_ns < ts_now then
          if allow_past then Inr ts_now else Inl AlertInPast
        else Inr alert_time_ns)"

text \<open>The outer option is the overflow of \<open>start_time_ns + interval_ns\<close>.\<close>

definition validate_and_prepare_timer ::
    "string \<Rightarrow> nat \<Rightarrow> nat option \<Rightarrow> nat option \<Rightarrow> bool option \<Rightarrow> bool option \<Rightarrow> nat \<Rightarrow>
     (clock_error + nat \<times> nat option \<times> bool \<times> bool) option" where
  "validate_and_prepare_timer name interval_ns start_time_ns stop_time_ns allow_past fire_immediately ts_now =
     (if \<not> check_valid_string_utf8 name then Some (Inl InvalidName)
      else if interval_ns = 0 then Some (Inl IntervalNotPositive)
      else let allow_past = (case allow_past of None \<Rightarrow> True | Some b \<Rightarrow> b);
               fire_immediately = (case fire_immediately of None \<Rightarrow> False | Some b \<Rightarrow> b);
               start = (case start_time_ns of None \<Rightarrow> 0 | Some s \<Rightarrow> s)
        in do {
          start_time_ns \<leftarrow>
            (if start = 0 then Some (Inr ts_now)
             else if \<not> allow_past then do {
               next_event_time \<leftarrow> (if fire_immediately then Some start else u64_checked_add start interval_ns);
               Some (if next_event_time < ts_now then Inl NextEventInPast else Inr start)
             }
             else Some (Inr start));
          Some (case start_time_ns of
              Inl e \<Rightarrow> Inl e
            | Inr start_time_ns \<Rightarrow>
                (case stop_time_ns of
                   Some stop_time \<Rightarrow>
                     if stop_time \<le> start_time_ns then Inl StopNotAfterStart
                     else if \<not> allow_past \<and> stop_time \<le> ts_now then Inl StopInPast
                     else Inr (start_time_ns, stop_time_ns, allow_past, fire_immediately)
                 | None \<Rightarrow> Inr (start_time_ns, stop_time_ns, allow_past, fire_immediately)))
        })"

section \<open>The clock\<close>

record 'cb test_clock =
  tc_time :: nat
  tc_timers :: "(string, test_timer) btree_map"
  tc_callbacks :: "'cb callback_registry"

abbreviation name_order :: "ustr_order \<Rightarrow> string comparator" where
  "name_order U a b \<equiv> Some (U a b)"

definition clock_new :: "'cb test_clock" where
  "clock_new = \<lparr> tc_time = 0, tc_timers = [], tc_callbacks = registry_new \<rparr>"

fun advance_timers :: "nat \<Rightarrow> (string, test_timer) btree_map \<Rightarrow> (time_event list \<times> (string, test_timer) btree_map) option" where
  "advance_timers to_time_ns [] = Some ([], [])"
| "advance_timers to_time_ns ((name, timer) # timers) = do {
     (events, timer) \<leftarrow> timer_advance to_time_ns timer;
     (rest, timers) \<leftarrow> advance_timers to_time_ns timers;
     Some (events @ rest, if tt_is_expired timer then timers else (name, timer) # timers)
   }"

definition advance_time :: "nat \<Rightarrow> bool \<Rightarrow> 'cb test_clock \<Rightarrow> (time_event list \<times> 'cb test_clock) option" where
  "advance_time to_time_ns set_time c =
     (if to_time_ns < tc_time c then None
      else let c = (if set_time then c \<lparr> tc_time := to_time_ns \<rparr> else c)
           in do {
             (events, timers) \<leftarrow> advance_timers to_time_ns (tc_timers c);
             Some (sort_key te_ts_event events, c \<lparr> tc_timers := timers \<rparr>)
           })"

definition match_handlers :: "time_event list \<Rightarrow> 'cb test_clock \<Rightarrow> (time_event \<times> 'cb) list option" where
  "match_handlers events c = those (map (\<lambda>event. get_handler event (tc_callbacks c)) events)"

definition timer_get :: "ustr_order \<Rightarrow> string \<Rightarrow> (string, test_timer) btree_map \<Rightarrow> test_timer option" where
  "timer_get U name timers = (case bt_get (name_order U) name timers of Some r \<Rightarrow> r | None \<Rightarrow> None)"

definition timer_exists :: "ustr_order \<Rightarrow> string \<Rightarrow> 'cb test_clock \<Rightarrow> bool" where
  "timer_exists U name c \<longleftrightarrow> timer_get U name (tc_timers c) \<noteq> None"

definition next_time_ns :: "ustr_order \<Rightarrow> string \<Rightarrow> 'cb test_clock \<Rightarrow> nat option" where
  "next_time_ns U name c = map_option tt_next_time_ns (timer_get U name (tc_timers c))"

definition timers_insert ::
    "ustr_order \<Rightarrow> string \<Rightarrow> test_timer \<Rightarrow> (string, test_timer) btree_map \<Rightarrow> (string, test_timer) btree_map" where
  "timers_insert U name timer timers = (case bt_insert (name_order U) name timer timers of Some m \<Rightarrow> m | None \<Rightarrow> timers)"

definition timers_remove :: "ustr_order \<Rightarrow> string \<Rightarrow> (string, test_timer) btree_map \<Rightarrow> (string, test_timer) btree_map" where
  "timers_remove U name timers = (case bt_remove (name_order U) name timers of Some m \<Rightarrow> m | None \<Rightarrow> timers)"

definition replace_existing_timer :: "ustr_order \<Rightarrow> string \<Rightarrow> (string, test_timer) btree_map \<Rightarrow> (string, test_timer) btree_map" where
  "replace_existing_timer U name timers =
     (case map_option tt_is_expired (timer_get U name timers) of
        Some True \<Rightarrow> timers_remove U name timers
      | Some False \<Rightarrow> timers_remove U name timers
      | None \<Rightarrow> timers)"

definition set_time_alert_ns ::
    "ustr_order \<Rightarrow> string \<Rightarrow> nat \<Rightarrow> 'cb option \<Rightarrow> bool option \<Rightarrow> 'cb test_clock \<Rightarrow> (clock_error option \<times> 'cb test_clock) option" where
  "set_time_alert_ns U name alert_time_ns callback allow_past c =
     (let ts_now = tc_time c in
      case validate_and_prepare_time_alert name alert_time_ns allow_past ts_now of
        Inl e \<Rightarrow> Some (Some e, c)
      | Inr alert_time_ns \<Rightarrow>
          let c = c \<lparr> tc_timers := replace_existing_timer U name (tc_timers c) \<rparr>
          in if \<not> (callback \<noteq> None \<or> has_any_callback name (tc_callbacks c)) then Some (Some NoCallbacks, c)
             else let c = (case callback of
                             Some cb \<Rightarrow> c \<lparr> tc_callbacks := register_callback name cb (tc_callbacks c) \<rparr>
                           | None \<Rightarrow> c)
               in if alert_time_ns < ts_now then None
                  else let interval_ns = create_valid_interval (alert_time_ns - ts_now);
                           fire_immediately = (alert_time_ns = ts_now)
                    in do {
                      timer \<leftarrow> timer_new name interval_ns ts_now (Some alert_time_ns) fire_immediately;
                      Some (None, c \<lparr> tc_timers := timers_insert U name timer (tc_timers c) \<rparr>)
                    })"

definition set_timer_ns ::
    "ustr_order \<Rightarrow> string \<Rightarrow> nat \<Rightarrow> nat option \<Rightarrow> nat option \<Rightarrow> 'cb option \<Rightarrow> bool option \<Rightarrow> bool option \<Rightarrow> 'cb test_clock \<Rightarrow>
     (clock_error option \<times> 'cb test_clock) option" where
  "set_timer_ns U name interval_ns start_time_ns stop_time_ns callback allow_past fire_immediately c = do {
     prepared \<leftarrow> validate_and_prepare_timer name interval_ns start_time_ns stop_time_ns allow_past fire_immediately (tc_time c);
     case prepared of
       Inl e \<Rightarrow> Some (Some e, c)
     | Inr (start_time_ns, stop_time_ns, _, fire_immediately) \<Rightarrow>
         if \<not> (callback \<noteq> None \<or> has_any_callback name (tc_callbacks c)) then Some (Some NoCallbacks, c)
         else do {
           let c = c \<lparr> tc_timers := replace_existing_timer U name (tc_timers c) \<rparr>;
           let c = (case callback of
                      Some cb \<Rightarrow> c \<lparr> tc_callbacks := register_callback name cb (tc_callbacks c) \<rparr>
                    | None \<Rightarrow> c);
           timer \<leftarrow> timer_new name (create_valid_interval interval_ns) start_time_ns stop_time_ns fire_immediately;
           Some (None, c \<lparr> tc_timers := timers_insert U name timer (tc_timers c) \<rparr>)
         }
   }"

definition cancel_timer :: "ustr_order \<Rightarrow> string \<Rightarrow> 'cb test_clock \<Rightarrow> 'cb test_clock" where
  "cancel_timer U name c = c \<lparr> tc_timers := timers_remove U name (tc_timers c) \<rparr>"

definition cancel_timers :: "'cb test_clock \<Rightarrow> 'cb test_clock" where
  "cancel_timers c = c \<lparr> tc_timers := [] \<rparr>"

definition clock_reset :: "'cb test_clock \<Rightarrow> 'cb test_clock" where
  "clock_reset c = \<lparr> tc_time = 0, tc_timers = [], tc_callbacks = registry_clear (tc_callbacks c) \<rparr>"

end
