(* ===== verification/Clock_Timers.thy ===== *)
theory Clock_Timers
  imports Test_Clock
begin

text \<open>
  Timers over time: how many events an advance takes from a timer, and that advancing a timer, or all the timers
  of a clock, in two steps takes the same events as advancing at once.
\<close>

definition advances :: "nat \<Rightarrow> test_timer \<Rightarrow> nat" where
  "advances to t = (if tt_next_time_ns t \<le> to then (to - tt_next_time_ns t) div tt_interval_ns t + 1 else 0)"

definition timers_ok :: "(string, test_timer) btree_map \<Rightarrow> bool" where
  "timers_ok timers \<longleftrightarrow> (\<forall>(name, t) \<in> set timers. 0 < tt_interval_ns t \<and> tt_name t = name)"

section \<open>One timer\<close>

lemma timer_next_facts:
  assumes "timer_next t = Some (item, t')"
  shows "tt_interval_ns t' = tt_interval_ns t" and "tt_name t' = tt_name t" and "item = None \<Longrightarrow> tt_is_expired t'"
    and "item = Some e \<Longrightarrow> te_ts_event e = tt_next_time_ns t \<and> te_name e = tt_name t \<and>
      tt_next_time_ns t' = tt_next_time_ns t + tt_interval_ns t \<and> \<not> tt_is_expired t"
  using assms by (auto simp: timer_next_def Let_def u64_checked_add_def split: if_splits option.splits)

lemma timer_next_expired [simp]: "tt_is_expired t \<Longrightarrow> timer_next t = Some (None, t)"
  by (simp add: timer_next_def)

lemma timer_take_expired [simp]: "tt_is_expired t \<Longrightarrow> timer_take n t = Some ([], t)"
  by (cases n) simp_all

lemma timer_take_add:
  "timer_take (a + b) t = do { (e1, t1) \<leftarrow> timer_take a t; (e2, t2) \<leftarrow> timer_take b t1; Some (e1 @ e2, t2) }"
proof (induction a arbitrary: t)
  case 0
  show ?case by (cases "timer_take b t") auto
next
  case (Suc a)
  show ?case
  proof (cases "timer_next t")
    case (Some r)
    obtain item t' where r: "r = (item, t')" by (cases r)
    show ?thesis
    proof (cases item)
      case None
      then have "tt_is_expired t'" using timer_next_facts(3) Some r by blast
      then show ?thesis using None Some r by simp
    next
      case (Some e)
      then show ?thesis using Suc.IH [of t'] \<open>timer_next t = Some r\<close> r
        by (cases "timer_take a t'") (auto split: option.splits bind_splits)
    qed
  qed simp
qed

lemma timer_take_facts:
  assumes "timer_take n t = Some (es, t')"
  shows "tt_interval_ns t' = tt_interval_ns t \<and> tt_name t' = tt_name t \<and>
    (\<forall>e \<in> set es. te_name e = tt_name t \<and> (\<exists>k < n. te_ts_event e = tt_next_time_ns t + k * tt_interval_ns t)) \<and>
    (\<not> tt_is_expired t' \<longrightarrow> tt_next_time_ns t' = tt_next_time_ns t + n * tt_interval_ns t)"
  using assms
proof (induction n arbitrary: t es)
  case (Suc n)
  obtain item t1 where nx: "timer_next t = Some (item, t1)" using Suc.prems by (cases "timer_next t") auto
  note f = timer_next_facts [OF nx]
  show ?case
  proof (cases item)
    case None
    then show ?thesis using Suc.prems nx f(1-3) by auto
  next
    case (Some e)
    then obtain es1 where es1: "timer_take n t1 = Some (es1, t')" "es = e # es1"
      using Suc.prems nx by (auto split: bind_splits)
    note g = f(4) [OF Some] and ih = Suc.IH [OF es1(1)]
    have "\<exists>k < Suc n. te_ts_event x = tt_next_time_ns t + k * tt_interval_ns t" if x: "x \<in> set es1" for x
    proof -
      obtain k where "k < n" "te_ts_event x = tt_next_time_ns t1 + k * tt_interval_ns t1" using ih x by blast
      then show ?thesis using g f(1) by (intro exI [of _ "Suc k"]) simp
    qed
    moreover have "\<exists>k < Suc n. te_ts_event e = tt_next_time_ns t + k * tt_interval_ns t"
      using g by (intro exI [of _ 0]) simp
    moreover have "\<forall>x \<in> set es1. te_name x = tt_name t" "tt_interval_ns t' = tt_interval_ns t" "tt_name t' = tt_name t" "te_name e = tt_name t"
      using ih f(1,2) g by simp_all
    moreover have "\<not> tt_is_expired t' \<longrightarrow> tt_next_time_ns t' = tt_next_time_ns t + Suc n * tt_interval_ns t"
      using ih g f(1) by simp
    ultimately show ?thesis unfolding es1(2) set_simps by blast
  qed
qed simp

lemma advances_mult:
  assumes "0 < tt_interval_ns t" and "k < advances b t"
  shows "tt_next_time_ns t + k * tt_interval_ns t \<le> b"
proof -
  have "k \<le> (b - tt_next_time_ns t) div tt_interval_ns t" "tt_next_time_ns t \<le> b"
    using assms(2) by (auto simp: advances_def split: if_splits)
  then have "k * tt_interval_ns t \<le> b - tt_next_time_ns t"
    using assms(1) by (simp add: less_eq_div_iff_mult_less_eq)
  then show ?thesis using \<open>tt_next_time_ns t \<le> b\<close> by simp
qed

lemma advances_past:
  assumes "0 < tt_interval_ns t"
  shows "b < tt_next_time_ns t + advances b t * tt_interval_ns t"
proof (cases "tt_next_time_ns t \<le> b")
  case True
  have "b - tt_next_time_ns t < ((b - tt_next_time_ns t) div tt_interval_ns t + 1) * tt_interval_ns t"
    using dividend_less_times_div [OF assms, of "b - tt_next_time_ns t"] by (simp add: algebra_simps)
  then show ?thesis using True by (simp add: advances_def)
qed (simp add: advances_def)

lemma advances_add:
  assumes i: "0 < tt_interval_ns t" "tt_interval_ns t' = tt_interval_ns t" and ab: "a \<le> b"
    and nx: "tt_next_time_ns t' = tt_next_time_ns t + advances a t * tt_interval_ns t"
  shows "advances b t = advances a t + advances b t'"
proof (cases "tt_next_time_ns t' \<le> b")
  case True
  have "b - tt_next_time_ns t = (b - tt_next_time_ns t') + advances a t * tt_interval_ns t" using True nx by simp
  then have "(b - tt_next_time_ns t) div tt_interval_ns t = (b - tt_next_time_ns t') div tt_interval_ns t + advances a t"
    using i(1) by simp
  then show ?thesis using True nx i(2) by (simp add: advances_def)
next
  case False
  then have z: "advances b t' = 0" by (simp add: advances_def)
  have lt: "b < tt_next_time_ns t + advances a t * tt_interval_ns t" using False nx by simp
  show ?thesis
  proof (rule antisym)
    show "advances b t \<le> advances a t + advances b t'"
    proof (rule ccontr)
      assume "\<not> ?thesis"
      then have "advances a t < advances b t" using z by simp
      from advances_mult [OF i(1) this] lt show False by simp
    qed
    show "advances a t + advances b t' \<le> advances b t"
      using ab i(1) z by (auto simp: advances_def intro!: div_le_mono)
  qed
qed

lemma timer_advance_take: "0 < tt_interval_ns t \<Longrightarrow> to < U64_MAX \<Longrightarrow> timer_advance to t = timer_take (advances to t) t"
proof -
  assume i: "0 < tt_interval_ns t" and to: "to < U64_MAX"
  have "(to - tt_next_time_ns t) div tt_interval_ns t \<le> to" by (meson diff_le_self div_le_dividend le_trans)
  then show ?thesis using to by (simp add: timer_advance_def advances_def u64_saturating_add_def)
qed

lemma timer_advance_split:
  assumes i: "0 < tt_interval_ns t" and ab: "a \<le> b" "b < U64_MAX"
  shows "timer_advance b t = do { (e1, t1) \<leftarrow> timer_advance a t; (e2, t2) \<leftarrow> timer_advance b t1; Some (e1 @ e2, t2) }"
proof (cases "timer_advance a t")
  case None
  have a: "timer_advance a t = timer_take (advances a t) t" using timer_advance_take [OF i] ab by simp
  have "advances a t \<le> advances b t" using ab(1) i by (auto simp: advances_def intro!: div_le_mono)
  then obtain m where "advances b t = advances a t + m" using le_Suc_ex by blast
  then show ?thesis using timer_advance_take [OF i ab(2)] timer_take_add [of "advances a t" m t] None a by simp
next
  case (Some r)
  obtain e1 t1 where r: "r = (e1, t1)" by (cases r)
  have a: "timer_take (advances a t) t = Some (e1, t1)" using timer_advance_take [OF i] ab Some r by simp
  note f = timer_take_facts [OF a]
  have i1: "0 < tt_interval_ns t1" using f i by simp
  have "timer_take (advances b t) t = do { (e1, t1) \<leftarrow> timer_take (advances a t) t; (e2, t2) \<leftarrow> timer_take (advances b t1) t1; Some (e1 @ e2, t2) }"
  proof (cases "tt_is_expired t1")
    case True
    have "advances a t \<le> advances b t" using ab(1) i by (auto simp: advances_def intro!: div_le_mono)
    then obtain m where "advances b t = advances a t + m" using le_Suc_ex by blast
    then show ?thesis using timer_take_add [of "advances a t" m t] a True by simp
  next
    case False
    then have "advances b t = advances a t + advances b t1"
      using f by (intro advances_add [OF i _ ab(1)]) simp_all
    then show ?thesis using timer_take_add [of "advances a t" "advances b t1" t] a by simp
  qed
  then show ?thesis using timer_advance_take [OF i ab(2)] timer_advance_take [OF i1 ab(2)] Some r a by simp
qed

lemma timer_advance_times:
  assumes i: "0 < tt_interval_ns t" and a: "a < U64_MAX" and adv: "timer_advance a t = Some (es, t')"
  shows "\<forall>e \<in> set es. te_ts_event e \<le> a \<and> tt_next_time_ns t \<le> te_ts_event e \<and> te_name e = tt_name t"
    and "tt_interval_ns t' = tt_interval_ns t" and "tt_name t' = tt_name t" and "\<not> tt_is_expired t' \<Longrightarrow> a < tt_next_time_ns t'"
proof -
  have tk: "timer_take (advances a t) t = Some (es, t')" using timer_advance_take [OF i a] adv by simp
  note f = timer_take_facts [OF tk]
  show "\<forall>e \<in> set es. te_ts_event e \<le> a \<and> tt_next_time_ns t \<le> te_ts_event e \<and> te_name e = tt_name t"
    using f advances_mult [OF i] by fastforce
  show "tt_interval_ns t' = tt_interval_ns t" "tt_name t' = tt_name t" using f by simp_all
  show "\<not> tt_is_expired t' \<Longrightarrow> a < tt_next_time_ns t'" using f advances_past [OF i, of a] by simp
qed

section \<open>All timers\<close>

lemma insort_split_low:
  assumes "\<forall>y \<in> set ys. f x \<le> f y"
  shows "insort_key f x (xs @ ys) = insort_key f x xs @ ys"
  using assms by (induction xs) (cases ys; simp)+

lemma insort_split_high:
  assumes "\<forall>y \<in> set xs. f y < f x"
  shows "insort_key f x (xs @ ys) = xs @ insort_key f x ys"
  using assms by (induction xs) auto

lemma sort_key_split:
  "sort_key f xs = sort_key f (filter (\<lambda>x. f x \<le> t) xs) @ sort_key f (filter (\<lambda>x. \<not> f x \<le> t) xs)"
proof (induction xs)
  case (Cons x xs)
  show ?case
  proof (cases "f x \<le> t")
    case True
    then show ?thesis using Cons by (simp, subst insort_split_low) auto
  next
    case False
    then show ?thesis using Cons by (simp, subst insort_split_high) auto
  qed
qed simp

lemma advance_timers_split:
  assumes "timers_ok timers" and ab: "a \<le> b" "b < U64_MAX"
  shows "case advance_timers a timers of
      None \<Rightarrow> advance_timers b timers = None
    | Some (e1, ts1) \<Rightarrow> (case advance_timers b ts1 of
        None \<Rightarrow> advance_timers b timers = None
      | Some (e2, ts2) \<Rightarrow> \<exists>es. advance_timers b timers = Some (es, ts2) \<and>
          filter (\<lambda>e. te_ts_event e \<le> a) es = e1 \<and> filter (\<lambda>e. \<not> te_ts_event e \<le> a) es = e2)"
  using assms(1)
proof (induction timers)
  case (Cons p timers)
  obtain name t where p: "p = (name, t)" by (cases p)
  have i: "0 < tt_interval_ns t" and ok: "timers_ok timers" using Cons.prems by (auto simp: timers_ok_def p)
  have a: "a < U64_MAX" using ab by simp
  note split = timer_advance_split [OF i ab]
  show ?case
  proof (cases "timer_advance a t")
    case None
    then show ?thesis using split by (simp add: p)
  next
    case (Some r)
    obtain e1 t1 where r: "timer_advance a t = Some (e1, t1)" using Some by (cases r) simp
    note f = timer_advance_times [OF i a r]
    have i1: "0 < tt_interval_ns t1" using f(2) i by simp
    have low: "filter (\<lambda>e. te_ts_event e \<le> a) e1 = e1" "filter (\<lambda>e. \<not> te_ts_event e \<le> a) e1 = []" using f(1) by (auto simp: filter_empty_conv)
    show ?thesis
    proof (cases "advance_timers a timers")
      case None
      then have "advance_timers b timers = None" using Cons.IH [OF ok] by simp
      then show ?thesis using r None split by (auto simp: p split: bind_splits)
    next
      case (Some q)
      obtain es1 ts1 where q: "advance_timers a timers = Some (es1, ts1)" using Some by (cases q) simp
      show ?thesis
      proof (cases "timer_advance b t1")
        case None
        then have nb: "timer_advance b t = None" using split r by simp
        have "\<not> tt_is_expired t1" using None timer_advance_take [OF i1 ab(2)] by auto
        then show ?thesis using r q None nb by (simp add: p)
      next
        case (Some u)
        obtain e2 t2 where u: "timer_advance b t1 = Some (e2, t2)" using Some by (cases u) simp
        have tb: "timer_advance b t = Some (e1 @ e2, t2)" using split r u by simp
        have "\<forall>e \<in> set e2. a < te_ts_event e" if "\<not> tt_is_expired t1"
          using timer_advance_times(1) [OF i1 ab(2) u] f(4) [OF that] by fastforce
        then have hi: "filter (\<lambda>e. te_ts_event e \<le> a) e2 = []" "filter (\<lambda>e. \<not> te_ts_event e \<le> a) e2 = e2" if "\<not> tt_is_expired t1"
          using that by (simp_all add: filter_empty_conv filter_id_conv not_le)
        have ex: "e2 = []" "t2 = t1" if "tt_is_expired t1" using u that timer_advance_take [OF i1 ab(2)] by simp_all
        show ?thesis
          using Cons.IH [OF ok] r q u tb low hi ex
          by (cases "tt_is_expired t1"; cases "advance_timers b ts1") (auto simp: p)
      qed
    qed
  qed
qed simp

lemma timers_ok_advance: "timers_ok timers \<Longrightarrow> a < U64_MAX \<Longrightarrow> advance_timers a timers = Some (es, timers') \<Longrightarrow> timers_ok timers'"
proof (induction timers arbitrary: es timers')
  case (Cons p timers)
  obtain name t where p: "p = (name, t)" by (cases p)
  obtain e1 t1 es1 ts1 where r: "timer_advance a t = Some (e1, t1)" "advance_timers a timers = Some (es1, ts1)"
    "timers' = (if tt_is_expired t1 then ts1 else (name, t1) # ts1)"
    using Cons.prems(3) by (auto simp: p split: bind_splits)
  have i: "0 < tt_interval_ns t" "tt_name t = name" and ok: "timers_ok timers" using Cons.prems(1) by (auto simp: timers_ok_def p)
  note f = timer_advance_times [OF i(1) Cons.prems(2) r(1)]
  have "timers_ok ts1" by (rule Cons.IH [OF ok Cons.prems(2) r(2)])
  then show ?case using r(3) f(2,3) i by (auto simp: timers_ok_def)
qed simp

end
