(* ===== verification/Clock_Invariant.thy ===== *)
theory Clock_Invariant
  imports Clock_Timers
begin

text \<open>
  The clocks that the operations can reach: timers sorted by their names, each under its own name and with a
  positive interval; and what an advance does to such a clock.
\<close>

definition names_sorted :: "ustr_order \<Rightarrow> (string, test_timer) btree_map \<Rightarrow> bool" where
  "names_sorted U m \<longleftrightarrow> sorted_wrt (\<lambda>p q. U (fst p) (fst q) = Less) m"

text \<open>The timer of an alert set at a time \<open>now\<close>.\<close>

definition alert_timer :: "string \<Rightarrow> nat \<Rightarrow> nat \<Rightarrow> test_timer" where
  "alert_timer name now alert =
     \<lparr> tt_name = name, tt_interval_ns = create_valid_interval (alert - now), tt_start_time_ns = now,
       tt_stop_time_ns = Some alert, tt_fire_immediately = (alert = now), tt_next_time_ns = alert, tt_is_expired = False \<rparr>"

definition clock_ok :: "ustr_order \<Rightarrow> 'cb test_clock \<Rightarrow> bool" where
  "clock_ok U c \<longleftrightarrow> timers_ok (tc_timers c) \<and> names_sorted U (tc_timers c)"

inductive clock_reach :: "ustr_order \<Rightarrow> 'cb test_clock \<Rightarrow> bool" for U where
  reach_new: "clock_reach U clock_new"
| reach_advance: "clock_reach U c \<Longrightarrow> t < U64_MAX \<Longrightarrow> advance_time t set_time c = Some (events, c') \<Longrightarrow> clock_reach U c'"
| reach_alert: "clock_reach U c \<Longrightarrow> set_time_alert_ns U name t cb allow c = Some (e, c') \<Longrightarrow> clock_reach U c'"
| reach_timer: "clock_reach U c \<Longrightarrow> set_timer_ns U name i start stop cb allow imm c = Some (e, c') \<Longrightarrow> clock_reach U c'"
| reach_cancel: "clock_reach U c \<Longrightarrow> clock_reach U (cancel_timer U name c)"
| reach_cancel_all: "clock_reach U c \<Longrightarrow> clock_reach U (cancel_timers c)"
| reach_reset: "clock_reach U c \<Longrightarrow> clock_reach U (clock_reset c)"
| reach_callbacks: "clock_reach U c \<Longrightarrow> clock_reach U (c \<lparr> tc_callbacks := r \<rparr>)"

section \<open>Timers by name\<close>

lemma ustr_differ:
  assumes "ustr_order_ok U"
  shows "U a b = Less \<Longrightarrow> a \<noteq> b" and "U a b = Greater \<Longrightarrow> a \<noteq> b"
  using ustr_order_facts(1) [OF assms, of a b] by auto

lemma names_above:
  assumes U: "ustr_order_ok U" and above: "\<forall>q \<in> set m. U k (fst q) = Less" and "k = name \<or> U name k = Less"
  shows "\<forall>q \<in> set m. U name (fst q) = Less \<and> fst q \<noteq> name"
proof
  fix q assume "q \<in> set m"
  then have "U k (fst q) = Less" using above by blast
  then have "U name (fst q) = Less" using assms(3) ustr_order_facts(3) [OF U, of name k "fst q"] by blast
  then show "U name (fst q) = Less \<and> fst q \<noteq> name" using ustr_differ(1) [OF U] by blast
qed

lemma bt_insert_names:
  assumes U: "ustr_order_ok U" and "names_sorted U m"
  shows "\<exists>m'. bt_insert (name_order U) name t m = Some m' \<and> names_sorted U m' \<and>
    set m' = insert (name, t) {p \<in> set m. fst p \<noteq> name}"
  using assms(2)
proof (induction m)
  case (Cons p m)
  obtain k v where p: "p = (k, v)" by (cases p)
  note F = ustr_order_facts [OF U]
  have srt: "names_sorted U m" and above: "\<forall>q \<in> set m. U k (fst q) = Less" using Cons.prems by (auto simp: names_sorted_def p)
  note fresh = names_above [OF U above, of name]
  show ?case
  proof (cases "U name k")
    case Less
    then have "k \<noteq> name" using ustr_differ(1) [OF U Less] by simp
    then show ?thesis using Less Cons.prems fresh by (auto simp: names_sorted_def p)
  next
    case Equal
    then have "k = name" using F(1) by simp
    then show ?thesis using Equal Cons.prems fresh by (auto simp: names_sorted_def p)
  next
    case Greater
    then have lt: "U k name = Less" using F(2) by simp
    have "k \<noteq> name" using ustr_differ(2) [OF U Greater] by simp
    moreover obtain m' where m': "bt_insert (name_order U) name t m = Some m'" "names_sorted U m'"
      "set m' = insert (name, t) {p \<in> set m. fst p \<noteq> name}" using Cons.IH [OF srt] by blast
    ultimately show ?thesis using Greater above lt by (auto simp: names_sorted_def p)
  qed
qed (simp add: names_sorted_def)

lemma bt_remove_names:
  assumes U: "ustr_order_ok U" and "names_sorted U m"
  shows "\<exists>m'. bt_remove (name_order U) name m = Some m' \<and> names_sorted U m' \<and> set m' = {p \<in> set m. fst p \<noteq> name}"
  using assms(2)
proof (induction m)
  case (Cons p m)
  obtain k v where p: "p = (k, v)" by (cases p)
  note F = ustr_order_facts [OF U]
  have srt: "names_sorted U m" and above: "\<forall>q \<in> set m. U k (fst q) = Less" using Cons.prems by (auto simp: names_sorted_def p)
  note fresh = names_above [OF U above, of name]
  show ?case
  proof (cases "U name k")
    case Less
    then have "k \<noteq> name" using ustr_differ(1) [OF U Less] by simp
    then show ?thesis using Less Cons.prems fresh by (auto simp: names_sorted_def p)
  next
    case Equal
    then have "k = name" using F(1) by simp
    then show ?thesis using Equal Cons.prems fresh by (auto simp: names_sorted_def p)
  next
    case Greater
    then have "k \<noteq> name" using ustr_differ(2) [OF U Greater] by simp
    moreover obtain m' where m': "bt_remove (name_order U) name m = Some m'" "names_sorted U m'" "set m' = {p \<in> set m. fst p \<noteq> name}"
      using Cons.IH [OF srt] by blast
    ultimately show ?thesis using Greater above by (auto simp: names_sorted_def p)
  qed
qed (simp add: names_sorted_def)

lemma timers_insert_names:
  assumes "ustr_order_ok U" and "names_sorted U m"
  shows "names_sorted U (timers_insert U name t m)" and "set (timers_insert U name t m) = insert (name, t) {p \<in> set m. fst p \<noteq> name}"
proof -
  obtain m' where "bt_insert (name_order U) name t m = Some m'" "names_sorted U m'" "set m' = insert (name, t) {p \<in> set m. fst p \<noteq> name}"
    using bt_insert_names [OF assms, of name t] by blast
  then show "names_sorted U (timers_insert U name t m)" "set (timers_insert U name t m) = insert (name, t) {p \<in> set m. fst p \<noteq> name}"
    by (simp_all add: timers_insert_def)
qed

lemma timers_remove_names:
  assumes "ustr_order_ok U" and "names_sorted U m"
  shows "names_sorted U (timers_remove U name m)" and "set (timers_remove U name m) = {p \<in> set m. fst p \<noteq> name}"
proof -
  obtain m' where "bt_remove (name_order U) name m = Some m'" "names_sorted U m'" "set m' = {p \<in> set m. fst p \<noteq> name}"
    using bt_remove_names [OF assms, of name] by blast
  then show "names_sorted U (timers_remove U name m)" "set (timers_remove U name m) = {p \<in> set m. fst p \<noteq> name}"
    by (simp_all add: timers_remove_def)
qed

lemma names_sorted_tail: "names_sorted U (p # m) \<Longrightarrow> names_sorted U m"
  by (simp add: names_sorted_def)

lemma timer_get_absent:
  assumes U: "ustr_order_ok U" and "\<forall>p \<in> set m. fst p \<noteq> name"
  shows "timer_get U name m = None"
proof -
  have "bt_get (name_order U) name m = Some None"
    using assms(2)
  proof (induction m)
    case (Cons p m)
    then show ?case using ustr_order_facts(1) [OF U] by (cases p; cases "U name (fst p)") auto
  qed simp
  then show ?thesis by (simp add: timer_get_def)
qed

lemma advance_keeps_names:
  assumes "advance_timers t m = Some (es, m')" and "names_sorted U m"
  shows "names_sorted U m' \<and> fst ` set m' \<subseteq> fst ` set m"
  using assms
proof (induction m arbitrary: es m')
  case (Cons p m)
  obtain k v where p: "p = (k, v)" by (cases p)
  obtain e1 t1 es1 m1 where r: "timer_advance t v = Some (e1, t1)" "advance_timers t m = Some (es1, m1)"
    "m' = (if tt_is_expired t1 then m1 else (k, t1) # m1)"
    using Cons.prems(1) by (auto simp: p split: bind_splits)
  have ih: "names_sorted U m1 \<and> fst ` set m1 \<subseteq> fst ` set m" using Cons.IH [OF r(2)] Cons.prems(2) by (simp add: names_sorted_def)
  have "\<forall>x \<in> fst ` set m. U k x = Less" using Cons.prems(2) by (auto simp: names_sorted_def p)
  then have "\<forall>q \<in> set m1. U k (fst q) = Less" using ih by blast
  then show ?case using ih r(3) by (auto simp: names_sorted_def p)
qed (simp add: names_sorted_def)

lemma replace_names:
  assumes "ustr_order_ok U" and "names_sorted U m"
  shows "names_sorted U (replace_existing_timer U name m)" and "set (replace_existing_timer U name m) \<subseteq> set m"
  using timers_remove_names [OF assms, of name] assms(2)
  by (auto simp: replace_existing_timer_def split: option.splits bool.splits)

lemma timer_new_facts:
  assumes "timer_new name i start stop imm = Some t"
  shows "t = \<lparr> tt_name = name, tt_interval_ns = i, tt_start_time_ns = start, tt_stop_time_ns = stop, tt_fire_immediately = imm,
    tt_next_time_ns = (if imm then start else start + i), tt_is_expired = False \<rparr>"
  using assms by (auto simp: timer_new_def u64_checked_add_def split: if_splits bind_splits)

lemma clock_ok_insert:
  assumes U: "ustr_order_ok U" and "clock_ok U c" and "0 < tt_interval_ns t" and "tt_name t = name"
  shows "timers_ok (timers_insert U name t (replace_existing_timer U name (tc_timers c))) \<and>
    names_sorted U (timers_insert U name t (replace_existing_timer U name (tc_timers c)))"
proof -
  have ns: "names_sorted U (tc_timers c)" using assms(2) by (simp add: clock_ok_def)
  note rep = replace_names [OF U ns, of name]
  note ins = timers_insert_names [OF U rep(1), of name t]
  show ?thesis using ins rep(2) assms(2-4) by (auto simp: clock_ok_def timers_ok_def)
qed

lemma valid_interval_pos: "0 < create_valid_interval i"
  by (simp add: create_valid_interval_def)

lemma set_alert_cases:
  assumes "set_time_alert_ns U name alert cb allow c = Some (e, c')"
  shows "tc_timers c' = tc_timers c \<or> tc_timers c' = replace_existing_timer U name (tc_timers c) \<or>
    (\<exists>t. 0 < tt_interval_ns t \<and> tt_name t = name \<and>
      tc_timers c' = timers_insert U name t (replace_existing_timer U name (tc_timers c)))"
proof -
  have new: "0 < tt_interval_ns t \<and> tt_name t = name" if "timer_new name (create_valid_interval i) s (Some a) im = Some t" for t i s a im
    using timer_new_facts [OF that] valid_interval_pos by simp
  show ?thesis
    using assms
    by (auto simp: set_time_alert_ns_def Let_def split: sum.splits if_splits option.splits bind_splits dest!: new)
qed

lemma set_timer_cases:
  assumes "set_timer_ns U name i start stop cb allow imm c = Some (e, c')"
  shows "tc_timers c' = tc_timers c \<or>
    (\<exists>t. 0 < tt_interval_ns t \<and> tt_name t = name \<and>
      tc_timers c' = timers_insert U name t (replace_existing_timer U name (tc_timers c)))"
proof -
  have new: "0 < tt_interval_ns t \<and> tt_name t = name" if "timer_new name (create_valid_interval i) s a im = Some t" for t i s a im
    using timer_new_facts [OF that] valid_interval_pos by simp
  show ?thesis
    using assms
    by (auto simp: set_timer_ns_def Let_def split: sum.splits if_splits option.splits bind_splits dest!: new)
      (metis less_irrefl)+
qed

lemma clock_reach_ok:
  assumes U: "ustr_order_ok U"
  shows "clock_reach U c \<Longrightarrow> clock_ok U c"
proof (induction rule: clock_reach.induct)
  case reach_new
  show ?case by (simp add: clock_new_def clock_ok_def timers_ok_def names_sorted_def)
next
  case (reach_advance c t set_time events c')
  then obtain es ts where adv: "advance_timers t (tc_timers c) = Some (es, ts)" "tc_timers c' = ts"
    by (auto simp: advance_time_def Let_def split: if_splits bind_splits)
  then show ?case
    using timers_ok_advance [OF _ reach_advance.hyps(2) adv(1)] advance_keeps_names [OF adv(1)] reach_advance.IH
    by (auto simp: clock_ok_def)
next
  case (reach_alert c name t cb allow e c')
  have ns: "names_sorted U (tc_timers c)" "timers_ok (tc_timers c)" using reach_alert.IH by (simp_all add: clock_ok_def)
  have "timers_ok (replace_existing_timer U name (tc_timers c))" "names_sorted U (replace_existing_timer U name (tc_timers c))"
    using replace_names [OF U ns(1), of name] ns(2) by (auto simp: timers_ok_def)
  then show ?case using set_alert_cases [OF reach_alert.hyps(2)] ns clock_ok_insert [OF U reach_alert.IH] by (fastforce simp: clock_ok_def)
next
  case (reach_timer c name i start stop cb allow imm e c')
  then show ?case using set_timer_cases [OF reach_timer.hyps(2)] clock_ok_insert [OF U reach_timer.IH] by (fastforce simp: clock_ok_def)
next
  case (reach_cancel c name)
  then show ?case using timers_remove_names [OF U, of "tc_timers c" name] by (auto simp: cancel_timer_def clock_ok_def timers_ok_def)
qed (auto simp: cancel_timers_def clock_reset_def clock_ok_def timers_ok_def names_sorted_def)

lemma advance_time_split:
  assumes ok: "timers_ok (tc_timers c)" and time: "tc_time c \<le> a" "a \<le> b" "b < U64_MAX"
  shows "advance_time b True c = do {
      (e1, c1) \<leftarrow> advance_time a True c; (e2, c2) \<leftarrow> advance_time b True c1; Some (e1 @ e2, c2) }"
proof -
  note split = advance_timers_split [OF ok time(2,3)]
  show ?thesis
  proof (cases "advance_timers a (tc_timers c)")
    case None
    then show ?thesis using split time by (simp add: advance_time_def)
  next
    case (Some r)
    obtain e1 ts1 where r: "advance_timers a (tc_timers c) = Some (e1, ts1)" using Some by (cases r) simp
    show ?thesis
    proof (cases "advance_timers b ts1")
      case None
      then show ?thesis using split r time by (simp add: advance_time_def)
    next
      case (Some q)
      obtain e2 ts2 where q: "advance_timers b ts1 = Some (e2, ts2)" using Some by (cases q) simp
      then obtain es where es: "advance_timers b (tc_timers c) = Some (es, ts2)"
        "filter (\<lambda>e. te_ts_event e \<le> a) es = e1" "filter (\<lambda>e. \<not> te_ts_event e \<le> a) es = e2"
        using split r by auto
      then show ?thesis using r q time sort_key_split [of te_ts_event es a] by (simp add: advance_time_def)
    qed
  qed
qed

section \<open>Alerts\<close>

lemma timer_take_returns:
  assumes "0 < tt_interval_ns t" and "\<And>k. k < n \<Longrightarrow> tt_next_time_ns t + k * tt_interval_ns t + tt_interval_ns t \<le> U64_MAX"
  shows "timer_take n t \<noteq> None"
  using assms
proof (induction n arbitrary: t)
  case (Suc n)
  have "timer_next t \<noteq> None" using Suc.prems(2) [of 0] by (auto simp: timer_next_def Let_def u64_checked_add_def)
  then obtain item t1 where nx: "timer_next t = Some (item, t1)" by (cases "timer_next t") auto
  note f = timer_next_facts [OF nx]
  show ?case
  proof (cases item)
    case (Some e)
    have "timer_take n t1 \<noteq> None"
    proof (rule Suc.IH)
      show "0 < tt_interval_ns t1" using f(1) Suc.prems(1) by simp
      fix k assume "k < n"
      then show "tt_next_time_ns t1 + k * tt_interval_ns t1 + tt_interval_ns t1 \<le> U64_MAX"
        using Suc.prems(2) [of "Suc k"] f(1) f(4) [OF Some] by (simp add: algebra_simps)
    qed
    then show ?thesis using nx Some by auto
  qed (use nx in auto)
qed simp

lemma timer_advance_returns:
  assumes "0 < tt_interval_ns t" and "b < U64_MAX" and "b + tt_interval_ns t \<le> U64_MAX"
  shows "timer_advance b t \<noteq> None"
  unfolding timer_advance_take [OF assms(1,2)]
proof (rule timer_take_returns [OF assms(1)])
  fix k assume "k < advances b t"
  then show "tt_next_time_ns t + k * tt_interval_ns t + tt_interval_ns t \<le> U64_MAX"
    using advances_mult [OF assms(1), of k b] assms(3) by simp
qed

lemma advance_timers_returns:
  assumes "\<forall>(name, t) \<in> set m. 0 < tt_interval_ns t \<and> b + tt_interval_ns t \<le> U64_MAX" and "b < U64_MAX"
  shows "advance_timers b m \<noteq> None"
  using assms(1)
proof (induction m)
  case (Cons p m)
  obtain name t where p: "p = (name, t)" by (cases p)
  have "timer_advance b t \<noteq> None" using Cons.prems assms(2) by (intro timer_advance_returns) (auto simp: p)
  then show ?case using Cons by (auto simp: p)
qed simp

lemma advance_timers_other:
  assumes "advance_timers b m = Some (es, m')" and "timers_ok m" and "b < U64_MAX"
  shows "(\<forall>e \<in> set es. \<exists>q \<in> set m. te_name e = fst q) \<and> (\<forall>q \<in> set m'. \<exists>q' \<in> set m. fst q = fst q')"
  using assms
proof (induction m arbitrary: es m')
  case (Cons p m)
  obtain k v where p: "p = (k, v)" by (cases p)
  obtain ek tk es2 m2 where r: "timer_advance b v = Some (ek, tk)" "advance_timers b m = Some (es2, m2)"
    "m' = (if tt_is_expired tk then m2 else (k, tk) # m2)" "es = ek @ es2"
    using Cons.prems(1) by (auto simp: p split: bind_splits)
  have kv: "0 < tt_interval_ns v" "tt_name v = k" and ok: "timers_ok m" using Cons.prems(2) by (auto simp: timers_ok_def p)
  have "\<forall>e \<in> set ek. te_name e = k" using timer_advance_times(1) [OF kv(1) Cons.prems(3) r(1)] kv(2) by simp
  then show ?case using Cons.IH [OF r(2) ok Cons.prems(3)] r(3,4) by (auto simp: p)
qed simp

text \<open>The events of one timer among those of all.\<close>

lemma advance_timers_named:
  assumes "advance_timers b m = Some (es, m')" and "timers_ok m" and "b < U64_MAX" and "(name, t) \<in> set m"
    and "timer_advance b t = Some (e1, t1)" and "sorted_wrt (\<lambda>p q. fst p \<noteq> fst q) m"
  shows "filter (\<lambda>e. te_name e = name) es = e1 \<and> (tt_is_expired t1 \<longrightarrow> (\<forall>p \<in> set m'. fst p \<noteq> name))"
  using assms
proof (induction m arbitrary: es m')
  case (Cons p m)
  obtain k v where p: "p = (k, v)" by (cases p)
  obtain ek tk es2 m2 where r: "timer_advance b v = Some (ek, tk)" "advance_timers b m = Some (es2, m2)"
    "m' = (if tt_is_expired tk then m2 else (k, tk) # m2)" "es = ek @ es2"
    using Cons.prems(1) by (auto simp: p split: bind_splits)
  have kv: "0 < tt_interval_ns v" "tt_name v = k" and ok: "timers_ok m" using Cons.prems(2) by (auto simp: timers_ok_def p)
  have names: "\<forall>e \<in> set ek. te_name e = k" using timer_advance_times(1) [OF kv(1) Cons.prems(3) r(1)] kv(2) by simp
  have others: "\<forall>q \<in> set m. fst q \<noteq> k" using Cons.prems(6) by (auto simp: p)
  show ?case
  proof (cases "k = name")
    case True
    have t: "t = v" using Cons.prems(4) others True by (auto simp: p)
    have rest: "\<forall>e \<in> set es2. te_name e \<noteq> name" "\<forall>q \<in> set m2. fst q \<noteq> name"
      using advance_timers_other [OF r(2) ok Cons.prems(3)] others unfolding True by metis+
    then show ?thesis using r t Cons.prems(5) names True by (auto simp: filter_empty_conv)
  next
    case False
    then have "(name, t) \<in> set m" using Cons.prems(4) by (simp add: p)
    then have "filter (\<lambda>e. te_name e = name) es2 = e1 \<and> (tt_is_expired t1 \<longrightarrow> (\<forall>p \<in> set m2. fst p \<noteq> name))"
      using Cons.IH [OF r(2) ok Cons.prems(3) _ Cons.prems(5)] Cons.prems(6) by simp
    then show ?thesis using r names False by (auto simp: filter_empty_conv)
  qed
qed simp

section \<open>Alerts\<close>

lemma alert_timer_advance:
  assumes "b < U64_MAX"
  shows "timer_advance b (alert_timer name now alert) =
    (if b < alert then Some ([], alert_timer name now alert)
     else if alert + create_valid_interval (alert - now) \<le> U64_MAX
     then Some ([\<lparr> te_name = name, te_ts_event = alert, te_ts_init = alert \<rparr>],
       alert_timer name now alert \<lparr> tt_is_expired := True, tt_next_time_ns := alert + create_valid_interval (alert - now) \<rparr>)
     else None)"
proof (cases "b < alert")
  case True
  then show ?thesis by (simp add: timer_advance_def alert_timer_def)
next
  case False
  let ?t = "alert_timer name now alert"
  have "0 < tt_interval_ns ?t" by (simp add: alert_timer_def valid_interval_pos)
  moreover obtain n where "advances b ?t = Suc n" using False by (auto simp: advances_def alert_timer_def)
  ultimately have "timer_advance b ?t = timer_take (Suc n) ?t" using timer_advance_take [OF _ assms] by simp
  moreover have "timer_next ?t = (if alert + create_valid_interval (alert - now) \<le> U64_MAX
     then Some (Some \<lparr> te_name = name, te_ts_event = alert, te_ts_init = alert \<rparr>,
       ?t \<lparr> tt_is_expired := True, tt_next_time_ns := alert + create_valid_interval (alert - now) \<rparr>) else None)"
    by (simp add: timer_next_def alert_timer_def u64_checked_add_def)
  ultimately show ?thesis using False by simp
qed

lemma set_alert_succeeds:
  assumes name: "check_valid_string_utf8 name" and alert: "tc_time c \<le> alert" "alert \<le> U64_MAX"
  shows "\<exists>c'. set_time_alert_ns U name alert (Some cb) allow c = Some (None, c') \<and> tc_time c' = tc_time c \<and>
    tc_timers c' = timers_insert U name (alert_timer name (tc_time c) alert) (replace_existing_timer U name (tc_timers c)) \<and>
    cr_callbacks (tc_callbacks c') name = Some cb"
proof -
  have "timer_new name (create_valid_interval (alert - tc_time c)) (tc_time c) (Some alert) (alert = tc_time c)
    = Some (alert_timer name (tc_time c) alert)"
    using name alert by (cases "alert = tc_time c")
      (simp_all add: timer_new_def alert_timer_def u64_checked_add_def create_valid_interval_def)
  then show ?thesis using name alert
    by (simp add: set_time_alert_ns_def validate_and_prepare_time_alert_def Let_def register_callback_def)
qed

end
