(* ===== verification/Clock_Claims.thy ===== *)
theory Clock_Claims
  imports Clock_Invariant "HOL-Library.List_Lexorder" "HOL-Library.Char_ord"
begin

text \<open>
  What the test clock promises: events do not depend on the steps in which time advances, and an alert fires once.
\<close>

definition ex_clock :: "string test_clock" where
  "ex_clock = clock_new \<lparr> tc_timers := [(''tick'', \<lparr> tt_name = ''tick'', tt_interval_ns = 10, tt_start_time_ns = 0,
     tt_stop_time_ns = Some 25, tt_fire_immediately = False, tt_next_time_ns = 10, tt_is_expired = False \<rparr>)],
     tc_callbacks := register_callback ''tick'' ''f'' registry_new \<rparr>"

definition ex_name_order :: ustr_order where
  "ex_name_order a b = (if a < b then Less else if a = b then Equal else Greater)"

lemma names_sorted_distinct: "ustr_order_ok U \<Longrightarrow> names_sorted U m \<Longrightarrow> sorted_wrt (\<lambda>p q. fst p \<noteq> fst q) m"
  unfolding names_sorted_def by (erule sorted_wrt_mono_rel [rotated]) (simp add: ustr_differ(1))

section \<open>Claims\<close>

lemma ex_clock_reach: "ustr_order_ok ex_name_order" "clock_reach ex_name_order ex_clock"
proof -
  show "ustr_order_ok ex_name_order" by (auto simp: ustr_order_ok_def ex_name_order_def)
  have "set_timer_ns ex_name_order ''tick'' 10 None (Some 25) (Some ''f'') None None clock_new = Some (None, ex_clock)"
    by (simp add: set_timer_ns_def validate_and_prepare_timer_def check_valid_string_utf8_def ascii_whitespace_def clock_new_def
        timer_new_def create_valid_interval_def u64_checked_add_def U64_MAX_def replace_existing_timer_def timer_get_def
        timers_insert_def ex_clock_def)
  then show "clock_reach ex_name_order ex_clock" by (rule reach_timer [OF reach_new])
qed

lemma timer_take_two: "timer_take 2 t = timer_take (Suc (Suc 0)) t"
  by (simp add: numeral_2_eq_2)

text \<open>
  C21: Advancing the test clock in two steps gives the same events, in the same order, and the same clock as advancing
  it at once, panics included: no timer event is lost, repeated or moved by the granularity of time.
\<close>

theorem clock_advance_in_steps:
  assumes "ustr_order_ok U" and "clock_reach U c" and "tc_time c \<le> a" and "a \<le> b" and "b < U64_MAX"
  shows "advance_time b True c = do {
      (e1, c1) \<leftarrow> advance_time a True c; (e2, c2) \<leftarrow> advance_time b True c1; Some (e1 @ e2, c2) }"
  using clock_reach_ok [OF assms(1,2)] by (intro advance_time_split assms(3-5)) (simp add: clock_ok_def)

theorem clock_advance_in_steps_witness:
  "\<exists>c. advance_time 30 True ex_clock
     = Some ([\<lparr> te_name = ''tick'', te_ts_event = 10, te_ts_init = 10 \<rparr>, \<lparr> te_name = ''tick'', te_ts_event = 20, te_ts_init = 20 \<rparr>], c)"
proof -
  have "\<exists>c1. advance_time 12 True ex_clock = Some ([\<lparr> te_name = ''tick'', te_ts_event = 10, te_ts_init = 10 \<rparr>], c1) \<and>
    (\<exists>c2. advance_time 30 True c1 = Some ([\<lparr> te_name = ''tick'', te_ts_event = 20, te_ts_init = 20 \<rparr>], c2))"
    by (simp add: advance_time_def ex_clock_def clock_new_def timer_advance_def u64_saturating_add_def U64_MAX_def
        timer_next_def u64_checked_add_def Let_def timer_take_two)
  then show ?thesis
    using clock_advance_in_steps [OF ex_clock_reach, of 12 30] by (auto simp: ex_clock_def clock_new_def U64_MAX_def)
qed

text \<open>
  C22: A time alert fires exactly once, at its time.  After an alert is set on a reachable clock, an advance that does not
  overflow another timer returns; it yields the alert's event, to be handled by its callback, exactly if the alert
  time has been reached, and the alert's timer is gone then.
\<close>

theorem clock_alert_fires_once:
  assumes "ustr_order_ok U" and "clock_reach U c" and "check_valid_string_utf8 name" and "tc_time c \<le> alert" and "tc_time c \<le> b"
    and "b < U64_MAX" and "alert \<le> U64_MAX" and "b + create_valid_interval (alert - tc_time c) \<le> U64_MAX"
    and "\<forall>(n, t) \<in> set (tc_timers c). b + tt_interval_ns t \<le> U64_MAX"
  shows "\<exists>c1 events c2. set_time_alert_ns U name alert (Some cb) allow c = Some (None, c1) \<and>
    advance_time b True c1 = Some (events, c2) \<and>
    filter (\<lambda>e. te_name e = name) events
      = (if alert \<le> b then [\<lparr> te_name = name, te_ts_event = alert, te_ts_init = alert \<rparr>] else []) \<and>
    get_callback name (tc_callbacks c2) = Some cb \<and> (alert \<le> b \<longrightarrow> \<not> timer_exists U name c2)"
proof -
  let ?t = "alert_timer name (tc_time c) alert"
  obtain c1 where c1: "set_time_alert_ns U name alert (Some cb) allow c = Some (None, c1)" "tc_time c1 = tc_time c"
    "tc_timers c1 = timers_insert U name ?t (replace_existing_timer U name (tc_timers c))"
    "cr_callbacks (tc_callbacks c1) name = Some cb"
    using set_alert_succeeds [OF assms(3,4,7)] by blast
  have ok: "clock_ok U c" "clock_ok U c1"
    using clock_reach_ok [OF assms(1)] assms(2) reach_alert [OF assms(2) c1(1)] by blast+
  have ns: "names_sorted U (tc_timers c)" "timers_ok (tc_timers c1)" "names_sorted U (tc_timers c1)" using ok by (simp_all add: clock_ok_def)
  note rep = replace_names [OF assms(1) ns(1), of name]
  have mem: "set (tc_timers c1) = insert (name, ?t) {p \<in> set (replace_existing_timer U name (tc_timers c)). fst p \<noteq> name}"
    unfolding c1(3) by (rule timers_insert_names(2) [OF assms(1) rep(1)])
  have "\<forall>(n, t) \<in> set (tc_timers c1). 0 < tt_interval_ns t \<and> b + tt_interval_ns t \<le> U64_MAX"
    using mem rep(2) assms(8,9) ns(2) by (auto simp: timers_ok_def alert_timer_def)
  then have "advance_timers b (tc_timers c1) \<noteq> None" by (rule advance_timers_returns) (rule assms(6))
  then obtain es ts where adv: "advance_timers b (tc_timers c1) = Some (es, ts)" by (cases "advance_timers b (tc_timers c1)") auto
  let ?c2 = "c1 \<lparr> tc_time := b, tc_timers := ts \<rparr>"
  have adv_time: "advance_time b True c1 = Some (sort_key te_ts_event es, ?c2)"
    using adv c1(2) assms(5) by (simp add: advance_time_def)
  have in1: "(name, ?t) \<in> set (tc_timers c1)" by (simp add: mem)
  note named = advance_timers_named [OF adv ns(2) assms(6) in1 _ names_sorted_distinct [OF assms(1) ns(3)]]
  have ev: "filter (\<lambda>e. te_name e = name) es = (if alert \<le> b then [\<lparr> te_name = name, te_ts_event = alert, te_ts_init = alert \<rparr>] else [])"
    and gone: "alert \<le> b \<Longrightarrow> \<forall>p \<in> set ts. fst p \<noteq> name"
    using named assms(8) by (cases "alert \<le> b"; simp add: alert_timer_advance [OF assms(6)])+
  have "filter (\<lambda>e. te_name e = name) (sort_key te_ts_event es) = (if alert \<le> b then [\<lparr> te_name = name, te_ts_event = alert, te_ts_init = alert \<rparr>] else [])"
    unfolding filter_sort ev by simp
  moreover have "alert \<le> b \<longrightarrow> \<not> timer_exists U name ?c2" using timer_get_absent [OF assms(1) gone] by (simp add: timer_exists_def)
  moreover have "get_callback name (tc_callbacks ?c2) = Some cb" using c1(4) by (simp add: get_callback_def)
  ultimately show ?thesis using c1(1) adv_time by blast
qed

theorem clock_alert_fires_once_witness:
  "\<exists>c1 events c2. set_time_alert_ns ex_name_order ''alert'' 25 (Some ''g'') None ex_clock = Some (None, c1) \<and>
    advance_time 40 True c1 = Some (events, c2) \<and>
    filter (\<lambda>e. te_name e = ''alert'') events = [\<lparr> te_name = ''alert'', te_ts_event = 25, te_ts_init = 25 \<rparr>]"
proof -
  have "check_valid_string_utf8 ''alert''" by (simp add: check_valid_string_utf8_def ascii_whitespace_def)
  with clock_alert_fires_once [OF ex_clock_reach, of "''alert''" 25 40 "''g''" None] show ?thesis
    by (simp add: ex_clock_def clock_new_def U64_MAX_def create_valid_interval_def) blast
qed

end
