(* ===== verification/Throttler.thy ===== *)
theory Throttler
  imports Clock_Invariant
begin

text \<open>
  The message throttler (\<open>common/src/throttler.rs\<close>) on a test clock.  The output callbacks are read as the lists
  of messages they are called with; a time event callback is one of the two the throttler registers.  The
  throttler is registered as an actor, so both callbacks find it.
\<close>

section \<open>The throttler\<close>

datatype throttler_callback = ThrottlerProcess | ThrottlerResume

datatype 'm throttler_output = Sent 'm | Dropped 'm

record 'm throttler =
  th_recv_count :: nat
  th_sent_count :: nat
  th_is_limiting :: bool
  th_limit :: nat
  th_buffer :: "'m list"
  th_timestamps :: "nat list"
  th_clock :: "throttler_callback test_clock"
  th_interval :: nat
  th_timer_name :: string
  th_has_output_drop :: bool

definition throttler_new :: "nat \<Rightarrow> nat \<Rightarrow> throttler_callback test_clock \<Rightarrow> string \<Rightarrow> bool \<Rightarrow> 'm throttler" where
  "throttler_new limit interval clock timer_name has_output_drop =
     \<lparr> th_recv_count = 0, th_sent_count = 0, th_is_limiting = False, th_limit = limit, th_buffer = [], th_timestamps = [],
       th_clock = clock, th_interval = interval, th_timer_name = timer_name, th_has_output_drop = has_output_drop \<rparr>"

abbreviation th_now :: "'m throttler \<Rightarrow> nat" where
  "th_now th \<equiv> tc_time (th_clock th)"

definition delta_next :: "'m throttler \<Rightarrow> nat" where
  "delta_next th =
     (let i = u64_wrapping_sub (th_limit th) 1 in
      if i < length (th_timestamps th)
      then let diff = u64_wrapping_sub (th_now th) (th_timestamps th ! i) in th_interval th - diff
      else 0)"

definition throttler_set_timer :: "ustr_order \<Rightarrow> throttler_callback \<Rightarrow> 'm throttler \<Rightarrow> 'm throttler option" where
  "throttler_set_timer U callback th =
     (let delta = delta_next th;
          clock = th_clock th;
          clock = (if timer_exists U (th_timer_name th) clock then cancel_timer U (th_timer_name th) clock else clock)
      in do {
        alert_ts \<leftarrow> u64_checked_add (tc_time clock) delta;
        (e, clock) \<leftarrow> set_time_alert_ns U (th_timer_name th) alert_ts (Some callback) None clock;
        if e = None then Some (th \<lparr> th_clock := clock \<rparr>) else None
      })"

definition throttler_reset :: "'m throttler \<Rightarrow> 'm throttler" where
  "throttler_reset th = th \<lparr> th_buffer := [], th_recv_count := 0, th_sent_count := 0, th_is_limiting := False, th_timestamps := [] \<rparr>"

definition throttler_used :: "'f f64_ops \<Rightarrow> 'm throttler \<Rightarrow> 'f option" where
  "throttler_used F th =
     (if th_timestamps th = [] then Some (f64_of_int F 0)
      else if I64_MAX < int (th_now th) then None
      else let interval_start = i64_wrap (int (th_now th) - i64_wrap (int (th_interval th)));
               current = takeWhile (\<lambda>ts. int ts > interval_start) (th_timestamps th)
           in if list_ex (\<lambda>ts. I64_MAX < int ts) (take (length current + 1) (th_timestamps th)) then None
              else Some (f64_div F (f64_of_int F (int (length current))) (f64_of_int F (int (th_limit th)))))"

definition send_msg :: "'m \<Rightarrow> 'm throttler \<Rightarrow> 'm throttler_output list \<times> 'm throttler" where
  "send_msg msg th =
     (let now = th_now th;
          timestamps = (if th_limit th \<le> length (th_timestamps th) then butlast (th_timestamps th) else th_timestamps th)
      in ([Sent msg], th \<lparr> th_timestamps := now # timestamps, th_sent_count := u64_wrapping_add (th_sent_count th) 1 \<rparr>))"

definition limit_msg :: "ustr_order \<Rightarrow> 'm \<Rightarrow> 'm throttler \<Rightarrow> ('m throttler_output list \<times> 'm throttler) option" where
  "limit_msg U msg th =
     (if \<not> th_has_output_drop th then
        let th = th \<lparr> th_buffer := msg # th_buffer th \<rparr>
        in if \<not> th_is_limiting th then do {
             th \<leftarrow> throttler_set_timer U ThrottlerProcess th;
             Some ([], th \<lparr> th_is_limiting := True \<rparr>)
           }
           else Some ([], th)
      else if \<not> th_is_limiting th then do {
             th \<leftarrow> throttler_set_timer U ThrottlerResume th;
             Some ([Dropped msg], th \<lparr> th_is_limiting := True \<rparr>)
           }
           else Some ([Dropped msg], th))"

definition throttler_send :: "ustr_order \<Rightarrow> 'm \<Rightarrow> 'm throttler \<Rightarrow> ('m throttler_output list \<times> 'm throttler) option" where
  "throttler_send U msg th =
     (let th = th \<lparr> th_recv_count := u64_wrapping_add (th_recv_count th) 1 \<rparr>;
          delta = delta_next th;
          th = (if th_is_limiting th \<and> delta = 0 \<and> th_buffer th = [] then th \<lparr> th_is_limiting := False \<rparr> else th)
      in if th_is_limiting th \<or> delta > 0 then limit_msg U msg th else Some (send_msg msg th))"

text \<open>The handler of the process endpoint: a loop that takes messages off the back of the buffer.\<close>

function throttler_process :: "ustr_order \<Rightarrow> 'm throttler \<Rightarrow> ('m throttler_output list \<times> 'm throttler) option" where
  "throttler_process U th =
     (if th_buffer th = [] then Some ([], th \<lparr> th_is_limiting := False \<rparr>)
      else let msg = last (th_buffer th);
               (out, th') = send_msg msg (th \<lparr> th_buffer := butlast (th_buffer th) \<rparr>)
           in if th_buffer th' \<noteq> [] \<and> delta_next th' > 0 then do {
                th' \<leftarrow> throttler_set_timer U ThrottlerProcess (th' \<lparr> th_is_limiting := True \<rparr>);
                Some (out, th')
              }
              else do {
                (outs, th') \<leftarrow> throttler_process U th';
                Some (out @ outs, th')
              })"
  by pat_completeness auto
termination
  by (relation "measure (\<lambda>(U, th). length (th_buffer th))") (auto simp: send_msg_def Let_def)

declare throttler_process.simps [simp del]

definition throttler_resume :: "'m throttler \<Rightarrow> 'm throttler" where
  "throttler_resume th = th \<lparr> th_is_limiting := False \<rparr>"

section \<open>Runs\<close>

text \<open>
  Time advances, and the handlers of the events that it yields run, as a backtest does it.
\<close>

fun run_handlers ::
    "ustr_order \<Rightarrow> (time_event \<times> throttler_callback) list \<Rightarrow> 'm throttler \<Rightarrow> ('m throttler_output list \<times> 'm throttler) option" where
  "run_handlers U [] th = Some ([], th)"
| "run_handlers U ((event, callback) # handlers) th = do {
     (out, th) \<leftarrow> (case callback of ThrottlerProcess \<Rightarrow> throttler_process U th | ThrottlerResume \<Rightarrow> Some ([], throttler_resume th));
     (outs, th) \<leftarrow> run_handlers U handlers th;
     Some (out @ outs, th)
   }"

definition throttler_advance :: "ustr_order \<Rightarrow> nat \<Rightarrow> 'm throttler \<Rightarrow> ('m throttler_output list \<times> 'm throttler) option" where
  "throttler_advance U t th = do {
     (events, clock) \<leftarrow> advance_time t True (th_clock th);
     handlers \<leftarrow> match_handlers events clock;
     run_handlers U handlers (th \<lparr> th_clock := clock \<rparr>)
   }"

text \<open>
  The states a throttler reaches from its creation on a new clock, with the messages it received, sent (with their
  times) and dropped since it was created or last reset.
\<close>

definition sent_at :: "nat \<Rightarrow> 'm throttler_output list \<Rightarrow> (nat \<times> 'm) list" where
  "sent_at t outs = [(t, m). Sent m \<leftarrow> outs]"

definition dropped_in :: "'m throttler_output list \<Rightarrow> 'm list" where
  "dropped_in outs = [m. Dropped m \<leftarrow> outs]"

inductive throttler_reach ::
    "ustr_order \<Rightarrow> 'm list \<Rightarrow> (nat \<times> 'm) list \<Rightarrow> 'm list \<Rightarrow> 'm throttler \<Rightarrow> bool" for U where
  reach_start: "interval \<le> U64_MAX \<Longrightarrow> limit \<le> U64_MAX \<Longrightarrow>
     throttler_reach U [] [] [] (throttler_new limit interval clock_new name has_drop)"
| reach_send: "throttler_reach U recv sent dropped th \<Longrightarrow> throttler_send U msg th = Some (out, th') \<Longrightarrow>
     throttler_reach U (recv @ [msg]) (sent @ sent_at (th_now th') out) (dropped @ dropped_in out) th'"
| reach_time: "throttler_reach U recv sent dropped th \<Longrightarrow> t < U64_MAX \<Longrightarrow> throttler_advance U t th = Some (out, th') \<Longrightarrow>
     throttler_reach U recv (sent @ sent_at (th_now th') out) (dropped @ dropped_in out) th'"
| reach_throttler_reset: "throttler_reach U recv sent dropped th \<Longrightarrow> throttler_reach U [] [] [] (throttler_reset th)"

end
