(* ===== verification/Throttler_Send.thy ===== *)
theory Throttler_Send
  imports Throttler
begin

text \<open>
  The throttler's invariant: the send times kept are the last ones and obey the rate, every received message is
  sent, buffered or dropped, and while messages are buffered the timer is set.  Sending a message keeps it.
\<close>

definition rate_ok :: "nat \<Rightarrow> nat \<Rightarrow> nat list \<Rightarrow> bool" where
  "rate_ok limit interval ts \<longleftrightarrow> sorted ts \<and>
     (\<forall>i. i + limit < length ts \<longrightarrow> ts ! i + interval \<le> ts ! (i + limit))"

definition throttler_timer_ok :: "'m throttler \<Rightarrow> bool" where
  "throttler_timer_ok th \<longleftrightarrow> tc_timers (th_clock th) = [] \<or>
     (\<exists>set_at alert. tc_timers (th_clock th) = [(th_timer_name th, alert_timer (th_timer_name th) set_at alert)]) \<and>
     cr_callbacks (tc_callbacks (th_clock th)) (th_timer_name th)
       = Some (if th_has_output_drop th then ThrottlerResume else ThrottlerProcess)"

definition throttler_times :: "(nat \<times> 'm) list \<Rightarrow> 'm throttler \<Rightarrow> bool" where
  "throttler_times sent th \<longleftrightarrow>
     0 < th_limit th \<and> th_limit th \<le> U64_MAX \<and> th_interval th \<le> U64_MAX \<and> th_now th \<le> U64_MAX \<and>
     th_timestamps th = take (th_limit th) (rev (map fst sent)) \<and>
     rate_ok (th_limit th) (th_interval th) (map fst sent) \<and> (\<forall>t \<in> fst ` set sent. t \<le> th_now th)"

definition throttler_messages :: "'m list \<Rightarrow> (nat \<times> 'm) list \<Rightarrow> 'm list \<Rightarrow> 'm throttler \<Rightarrow> bool" where
  "throttler_messages recv sent dropped th \<longleftrightarrow>
     recv \<in> shuffles (map snd sent @ rev (th_buffer th)) dropped \<and>
     (if th_has_output_drop th then th_buffer th = [] else dropped = []) \<and>
     th_recv_count th = length recv mod (U64_MAX + 1) \<and> th_sent_count th = length sent mod (U64_MAX + 1)"

text \<open>
  While messages are buffered, the timer is set for the moment the oldest of the last \<open>limit\<close> sends leaves the
  interval.
\<close>

definition throttler_pending :: "(nat \<times> 'm) list \<Rightarrow> 'm throttler \<Rightarrow> bool" where
  "throttler_pending sent th \<longleftrightarrow>
     (\<not> th_has_output_drop th \<longrightarrow> (th_is_limiting th \<longleftrightarrow> th_buffer th \<noteq> [])) \<and>
     (th_buffer th \<noteq> [] \<longrightarrow> th_limit th \<le> length sent \<and> check_valid_string_utf8 (th_timer_name th) \<and> 0 < th_interval th \<and>
       (\<exists>set_at. fst (sent ! (length sent - th_limit th)) \<le> set_at \<and> set_at \<le> th_now th \<and>
         tc_timers (th_clock th) = [(th_timer_name th,
           alert_timer (th_timer_name th) set_at (fst (sent ! (length sent - th_limit th)) + th_interval th))]))"

definition throttler_ok :: "'m list \<Rightarrow> (nat \<times> 'm) list \<Rightarrow> 'm list \<Rightarrow> 'm throttler \<Rightarrow> bool" where
  "throttler_ok recv sent dropped th \<longleftrightarrow>
     throttler_times sent th \<and> throttler_messages recv sent dropped th \<and> throttler_timer_ok th \<and> throttler_pending sent th"

text \<open>The clock of a throttler with its timer set.\<close>

definition armed :: "throttler_callback \<Rightarrow> 'm throttler \<Rightarrow> throttler_callback test_clock" where
  "armed callback th = th_clock th
     \<lparr> tc_timers := [(th_timer_name th, alert_timer (th_timer_name th) (th_now th) (th_now th + delta_next th))],
       tc_callbacks := register_callback (th_timer_name th) callback (tc_callbacks (th_clock th)) \<rparr>"

section \<open>Send times\<close>

lemma rate_ok_snoc:
  assumes "rate_ok limit interval ts" and "\<forall>t \<in> set ts. t \<le> now"
    and "limit \<le> length ts \<Longrightarrow> ts ! (length ts - limit) + interval \<le> now" and "0 < limit"
  shows "rate_ok limit interval (ts @ [now])"
  unfolding rate_ok_def
proof (intro conjI allI impI)
  show "sorted (ts @ [now])" using assms(1,2) by (simp add: rate_ok_def sorted_append)
  fix i assume i: "i + limit < length (ts @ [now])"
  show "(ts @ [now]) ! i + interval \<le> (ts @ [now]) ! (i + limit)"
  proof (cases "i + limit < length ts")
    case True
    then show ?thesis using assms(1) by (simp add: rate_ok_def nth_append)
  next
    case False
    then have "i = length ts - limit" "limit \<le> length ts" "i + limit = length ts" using i by simp_all
    then show ?thesis using assms(3,4) by (simp add: nth_append)
  qed
qed

lemma rate_ok_window:
  assumes "rate_ok limit interval ts"
  shows "length (filter (\<lambda>t. s \<le> t \<and> t < s + interval) ts) \<le> limit"
proof -
  let ?I = "{i. i < length ts \<and> s \<le> ts ! i \<and> ts ! i < s + interval}"
  have "card ?I \<le> limit"
  proof (cases "?I = {}")
    case False
    let ?m = "Min ?I"
    have fin: "finite ?I" by simp
    have m: "?m \<in> ?I" using Min_in [OF fin False] .
    have "?I \<subseteq> {?m..<?m + limit}"
    proof
      fix i assume i: "i \<in> ?I"
      have "?m \<le> i" using Min_le [OF fin i] .
      moreover have "i < ?m + limit"
      proof (rule ccontr)
        assume far: "\<not> i < ?m + limit"
        then have le: "?m + limit \<le> i" by simp
        have "ts ! ?m + interval \<le> ts ! (?m + limit)" using assms i le by (simp add: rate_ok_def)
        also have "\<dots> \<le> ts ! i" using assms i le by (simp add: rate_ok_def sorted_nth_mono)
        finally show False using m i by simp
      qed
      ultimately show "i \<in> {?m..<?m + limit}" by simp
    qed
    then have "card ?I \<le> card {?m..<?m + limit}" by (rule card_mono [rotated]) simp
    then show ?thesis by simp
  qed (simp only: card.empty zero_le)
  then show ?thesis by (simp add: length_filter_conv_card)
qed

lemma snoc_in_shuffles: "ys @ [m] \<in> shuffles [m] ys"
  by (induction ys) (auto simp: Cons_in_shuffles_iff)

lemma shuffles_snoc_left: "zs \<in> shuffles xs ys \<Longrightarrow> zs @ [m] \<in> shuffles (xs @ [m]) ys"
  by (induction xs ys arbitrary: zs rule: shuffles.induct) (auto simp: Cons_in_shuffles_iff snoc_in_shuffles)

lemma shuffles_snoc_right: "zs \<in> shuffles xs ys \<Longrightarrow> zs @ [m] \<in> shuffles xs (ys @ [m])"
  using shuffles_snoc_left [of zs ys xs m] by (simp add: shuffles_commutes)

lemma outputs_simps [simp]:
  "sent_at t [] = []" "sent_at t (Sent m # outs) = (t, m) # sent_at t outs" "sent_at t (Dropped m # outs) = sent_at t outs"
  "dropped_in [] = []" "dropped_in (Sent m # outs) = dropped_in outs" "dropped_in (Dropped m # outs) = m # dropped_in outs"
  "sent_at t (outs @ outs') = sent_at t outs @ sent_at t outs'" "dropped_in (outs @ outs') = dropped_in outs @ dropped_in outs'"
  by (simp_all add: sent_at_def dropped_in_def)

section \<open>Sending\<close>

lemma delta_next_eq:
  assumes "throttler_times sent th"
  shows "delta_next th = (if th_limit th \<le> length sent then th_interval th - (th_now th - fst (sent ! (length sent - th_limit th))) else 0)"
proof -
  let ?l = "th_limit th"
  note base = assms [unfolded throttler_times_def]
  have i: "u64_wrapping_sub ?l 1 = ?l - 1" by (rule u64_wrapping_sub_exact) (use base in auto)
  show ?thesis
  proof (cases "?l \<le> length sent")
    case True
    then have "length sent - ?l < length sent" using base by linarith
    then have "fst (sent ! (length sent - ?l)) \<le> th_now th" using base by simp
    then have "u64_wrapping_sub (th_now th) (fst (sent ! (length sent - ?l))) = th_now th - fst (sent ! (length sent - ?l))"
      by (rule u64_wrapping_sub_exact) (use base in auto)
    moreover have "th_timestamps th ! (?l - 1) = fst (sent ! (length sent - ?l))" "?l - 1 < length (th_timestamps th)"
      using base True by (auto simp: rev_nth)
    ultimately show ?thesis using True by (simp add: delta_next_def i [unfolded One_nat_def] Let_def)
  next
    case False
    then show ?thesis using base by (simp add: delta_next_def i [unfolded One_nat_def] Let_def)
  qed
qed

lemma wrapping_count: "n = length xs mod (U64_MAX + 1) \<Longrightarrow> u64_wrapping_add n 1 = length (xs @ [x]) mod (U64_MAX + 1)"
  by (simp add: u64_wrapping_add_def mod_Suc_eq)

lemma timestamps_push:
  assumes "0 < limit" and "stamps = take limit (rev ts)"
  shows "now # (if limit \<le> length stamps then butlast stamps else stamps) = take limit (rev (ts @ [now]))"
proof -
  obtain l where l: "limit = Suc l" using assms(1) by (cases limit) auto
  show ?thesis using assms(2) by (auto simp: l butlast_take)
qed

lemma send_msg_times:
  assumes times: "throttler_times sent th" and delta: "delta_next th = 0"
  shows "throttler_times (sent @ [(th_now th, msg)]) (snd (send_msg msg th))"
proof -
  note base = times [unfolded throttler_times_def]
  have "rate_ok (th_limit th) (th_interval th) (map fst sent @ [th_now th])"
  proof (rule rate_ok_snoc)
    assume l: "th_limit th \<le> length (map fst sent)"
    moreover have "map fst sent ! (length (map fst sent) - th_limit th) \<le> th_now th"
      using base l by (metis (no_types, lifting) diff_less length_map length_greater_0_conv less_le_trans nth_mem set_map)
    moreover have "map fst sent ! (length (map fst sent) - th_limit th) = fst (sent ! (length sent - th_limit th))"
      using base l by (simp only: length_map, subst nth_map) auto
    ultimately show "map fst sent ! (length (map fst sent) - th_limit th) + th_interval th \<le> th_now th"
      using delta base unfolding delta_next_eq [OF times] by (simp split: if_splits)
  qed (use base in auto)
  moreover have "th_now th # (if th_limit th \<le> length (th_timestamps th) then butlast (th_timestamps th) else th_timestamps th)
      = take (th_limit th) (rev (map fst sent @ [th_now th]))"
    by (rule timestamps_push) (use base in auto)
  ultimately show ?thesis using base by (auto simp: throttler_times_def send_msg_def Let_def)
qed

section \<open>The timer\<close>

lemma set_timer_eq:
  assumes U: "ustr_order_ok U" and "throttler_timer_ok th"
  shows "throttler_set_timer U callback th =
    (if check_valid_string_utf8 (th_timer_name th) \<and> th_now th + delta_next th \<le> U64_MAX
     then Some (th \<lparr> th_clock := armed callback th \<rparr>) else None)"
proof -
  let ?n = "th_timer_name th" and ?c = "th_clock th"
  have refl: "U ?n ?n = Equal" using ustr_order_facts(1) [OF U, of ?n ?n] by simp
  have "(if timer_exists U ?n ?c then cancel_timer U ?n ?c else ?c) = ?c \<lparr> tc_timers := [] \<rparr>"
    using assms(2) refl by (cases ?c)
      (auto simp: throttler_timer_ok_def timer_exists_def timer_get_def cancel_timer_def timers_remove_def)
  then have set: "throttler_set_timer U callback th = do {
      alert_ts \<leftarrow> u64_checked_add (th_now th) (delta_next th);
      (e, clock) \<leftarrow> set_time_alert_ns U ?n alert_ts (Some callback) None (?c \<lparr> tc_timers := [] \<rparr>);
      if e = None then Some (th \<lparr> th_clock := clock \<rparr>) else None }"
    by (simp add: throttler_set_timer_def Let_def)
  have "set_time_alert_ns U ?n (th_now th + delta_next th) (Some callback) None (?c \<lparr> tc_timers := [] \<rparr>)
      = Some (None, armed callback th)"
    if "check_valid_string_utf8 ?n" "th_now th + delta_next th \<le> U64_MAX"
    using that
    by (simp add: set_time_alert_ns_def validate_and_prepare_time_alert_def Let_def replace_existing_timer_def timer_get_def
        timer_new_def create_valid_interval_def u64_checked_add_def armed_def alert_timer_def timers_insert_def)
  moreover have "set_time_alert_ns U ?n a (Some callback) None (?c \<lparr> tc_timers := [] \<rparr>)
      = Some (Some InvalidName, ?c \<lparr> tc_timers := [] \<rparr>)"
    if "\<not> check_valid_string_utf8 ?n" for a
    using that by (simp add: set_time_alert_ns_def validate_and_prepare_time_alert_def)
  ultimately show ?thesis
    unfolding set by (cases "check_valid_string_utf8 ?n") (auto simp: u64_checked_add_def split: bind_splits)
qed

lemma delta_next_simps [simp]:
  "delta_next (th \<lparr> th_buffer := b \<rparr>) = delta_next th" "delta_next (th \<lparr> th_is_limiting := l \<rparr>) = delta_next th"
  "delta_next (th \<lparr> th_recv_count := n \<rparr>) = delta_next th"
  by (simp_all add: delta_next_def Let_def)

lemma armed_simps [simp]:
  "tc_time (armed callback th) = th_now th"
  "tc_timers (armed callback th) = [(th_timer_name th, alert_timer (th_timer_name th) (th_now th) (th_now th + delta_next th))]"
  "cr_callbacks (tc_callbacks (armed callback th)) (th_timer_name th) = Some callback"
  by (simp_all add: armed_def register_callback_def)

text \<open>When the throttler has to wait, it waits for the oldest of the last \<open>limit\<close> sends to leave the interval.\<close>

lemma delta_next_positive:
  assumes times: "throttler_times sent th" and "0 < delta_next th"
  shows "th_limit th \<le> length sent" and "0 < th_interval th" and "fst (sent ! (length sent - th_limit th)) \<le> th_now th"
    and "th_now th + delta_next th = fst (sent ! (length sent - th_limit th)) + th_interval th"
proof -
  show l: "th_limit th \<le> length sent" "0 < th_interval th" using assms(2) by (auto simp: delta_next_eq [OF times] split: if_splits)
  have "length sent - th_limit th < length sent" using l times unfolding throttler_times_def by linarith
  then show le: "fst (sent ! (length sent - th_limit th)) \<le> th_now th" using times by (simp add: throttler_times_def)
  show "th_now th + delta_next th = fst (sent ! (length sent - th_limit th)) + th_interval th"
    using assms(2) l le by (simp add: delta_next_eq [OF times])
qed

lemma pending_armed:
  assumes "throttler_times sent th" and "0 < delta_next th" and "check_valid_string_utf8 (th_timer_name th)"
    and "th_is_limiting th" and "th_has_output_drop th \<or> th_buffer th \<noteq> []"
  shows "throttler_pending sent (th \<lparr> th_clock := armed callback th \<rparr>)"
  using assms delta_next_positive [OF assms(1,2)] by (auto simp: throttler_pending_def)

lemma timer_ok_armed:
  "callback = (if th_has_output_drop th then ThrottlerResume else ThrottlerProcess) \<Longrightarrow>
   throttler_timer_ok (th \<lparr> th_clock := armed callback th \<rparr>)"
  by (auto simp: throttler_timer_ok_def)

section \<open>Sending\<close>

lemma times_simps [simp]:
  "throttler_times sent (th \<lparr> th_buffer := b \<rparr>) = throttler_times sent th"
  "throttler_times sent (th \<lparr> th_is_limiting := l \<rparr>) = throttler_times sent th"
  "throttler_times sent (th \<lparr> th_recv_count := n \<rparr>) = throttler_times sent th"
  "throttler_times sent (th \<lparr> th_clock := armed cb th' \<rparr>) = throttler_times sent (th \<lparr> th_clock := th_clock th' \<rparr>)"
  by (simp_all add: throttler_times_def)

lemma timer_ok_simps [simp]:
  "throttler_timer_ok (th \<lparr> th_buffer := b \<rparr>) = throttler_timer_ok th"
  "throttler_timer_ok (th \<lparr> th_is_limiting := l \<rparr>) = throttler_timer_ok th"
  "throttler_timer_ok (th \<lparr> th_recv_count := n \<rparr>) = throttler_timer_ok th"
  by (simp_all add: throttler_timer_ok_def)

lemma send_msg_simps [simp]:
  "th_clock (snd (send_msg msg th)) = th_clock th" "th_buffer (snd (send_msg msg th)) = th_buffer th"
  "th_limit (snd (send_msg msg th)) = th_limit th" "th_interval (snd (send_msg msg th)) = th_interval th"
  "th_timer_name (snd (send_msg msg th)) = th_timer_name th" "th_has_output_drop (snd (send_msg msg th)) = th_has_output_drop th"
  "th_is_limiting (snd (send_msg msg th)) = th_is_limiting th" "fst (send_msg msg th) = [Sent msg]"
  "th_recv_count (snd (send_msg msg th)) = th_recv_count th"
  "th_sent_count (snd (send_msg msg th)) = u64_wrapping_add (th_sent_count th) 1"
  "throttler_timer_ok (snd (send_msg msg th)) = throttler_timer_ok th"
  by (simp_all add: send_msg_def Let_def throttler_timer_ok_def)

lemma messages_received:
  assumes "throttler_messages recv sent dropped th"
  defines "th1 \<equiv> th \<lparr> th_recv_count := u64_wrapping_add (th_recv_count th) 1 \<rparr>"
  shows "th_buffer th = [] \<Longrightarrow> throttler_messages (recv @ [msg]) (sent @ [(t, msg)]) dropped (snd (send_msg msg th1))"
    and "\<not> th_has_output_drop th \<Longrightarrow> throttler_messages (recv @ [msg]) sent dropped (th1 \<lparr> th_buffer := msg # th_buffer th \<rparr>)"
    and "th_has_output_drop th \<Longrightarrow> throttler_messages (recv @ [msg]) sent (dropped @ [msg]) th1"
proof -
  note m = assms(1) [unfolded throttler_messages_def]
  have counts: "u64_wrapping_add (th_recv_count th) 1 = length (recv @ [msg]) mod (U64_MAX + 1)"
    "u64_wrapping_add (th_sent_count th) 1 = length (sent @ [(t, msg)]) mod (U64_MAX + 1)"
    by (rule wrapping_count; use m in blast)+
  show "th_buffer th = [] \<Longrightarrow> throttler_messages (recv @ [msg]) (sent @ [(t, msg)]) dropped (snd (send_msg msg th1))"
    using m counts shuffles_snoc_left [of recv "map snd sent" dropped msg] unfolding throttler_messages_def th1_def by auto
  show "\<not> th_has_output_drop th \<Longrightarrow> throttler_messages (recv @ [msg]) sent dropped (th1 \<lparr> th_buffer := msg # th_buffer th \<rparr>)"
    using m counts shuffles_snoc_left [of recv "map snd sent @ rev (th_buffer th)" dropped msg]
    unfolding throttler_messages_def th1_def by auto
  show "th_has_output_drop th \<Longrightarrow> throttler_messages (recv @ [msg]) sent (dropped @ [msg]) th1"
    using m counts shuffles_snoc_right [of recv "map snd sent" dropped msg] unfolding throttler_messages_def th1_def by auto
qed

lemma messages_simps [simp]:
  "throttler_messages recv sent dropped (th \<lparr> th_is_limiting := l \<rparr>) = throttler_messages recv sent dropped th"
  "throttler_messages recv sent dropped (th \<lparr> th_clock := c \<rparr>) = throttler_messages recv sent dropped th"
  by (simp_all add: throttler_messages_def)

lemma limit_msg_ok:
  assumes U: "ustr_order_ok U" and ok: "throttler_ok recv sent dropped th"
    and "th_is_limiting th \<or> 0 < delta_next th"
    and "limit_msg U msg (th \<lparr> th_recv_count := u64_wrapping_add (th_recv_count th) 1 \<rparr>) = Some (out, th')"
  shows "throttler_ok (recv @ [msg]) sent (dropped @ dropped_in out) th' \<and> sent_at t out = []"
proof -
  define th1 where "th1 = th \<lparr> th_recv_count := u64_wrapping_add (th_recv_count th) 1 \<rparr>"
  note ok' = ok [unfolded throttler_ok_def]
  have lm: "limit_msg U msg th1 = Some (out, th')" using assms(4) by (simp add: th1_def)
  have th1: "throttler_times sent th1" "throttler_timer_ok th1" "delta_next th1 = delta_next th" using ok' by (simp_all add: th1_def)
  show ?thesis
  proof (cases "th_has_output_drop th")
    case True
    have msgs: "throttler_messages (recv @ [msg]) sent (dropped @ [msg]) th1"
      unfolding th1_def using ok' True by (intro messages_received(3)) auto
    have nobuf: "th_buffer th1 = []" "th_has_output_drop th1" using ok' True by (simp_all add: throttler_messages_def th1_def)
    show ?thesis using lm th1 msgs nobuf timer_ok_armed [of ThrottlerResume th1]
      by (auto simp: limit_msg_def set_timer_eq [OF U] throttler_ok_def throttler_pending_def
          split: if_splits bind_splits)
  next
    case False
    let ?th2 = "th1 \<lparr> th_buffer := msg # th_buffer th1 \<rparr>"
    have msgs: "throttler_messages (recv @ [msg]) sent dropped ?th2"
      using messages_received(2) [of recv sent dropped th msg] ok' False by (simp add: th1_def)
    have lim: "th_is_limiting th1 \<longleftrightarrow> th_buffer th1 \<noteq> []" "\<not> th_has_output_drop th1"
      using ok' False by (auto simp: throttler_pending_def th1_def)
    show ?thesis
    proof (cases "th_is_limiting th1")
      case True
      then have "throttler_pending sent ?th2" using ok' False lim by (auto simp: throttler_pending_def th1_def)
      then show ?thesis using lm True lim msgs th1
        by (auto simp: limit_msg_def throttler_ok_def)
    next
      case nolim: False
      have d: "0 < delta_next ?th2" using assms(3) nolim th1 by (simp add: th1_def)
      obtain th3 where "throttler_set_timer U ThrottlerProcess ?th2 = Some th3" "th' = th3 \<lparr> th_is_limiting := True \<rparr>" "out = []"
        using lm nolim lim by (auto simp: limit_msg_def split: bind_splits)
      moreover have "throttler_timer_ok ?th2" "throttler_times sent ?th2" using th1 by simp_all
      ultimately have th': "th' = ?th2 \<lparr> th_is_limiting := True, th_clock := armed ThrottlerProcess ?th2 \<rparr>"
        "check_valid_string_utf8 (th_timer_name ?th2)"
        by (auto simp: set_timer_eq [OF U] split: if_splits)
      have "armed ThrottlerProcess ?th2 = armed ThrottlerProcess (?th2 \<lparr> th_is_limiting := True \<rparr>)" by (simp add: armed_def)
      then have "throttler_pending sent th' \<and> throttler_timer_ok th'"
        unfolding th'(1)
        using pending_armed [of sent "?th2 \<lparr> th_is_limiting := True \<rparr>" ThrottlerProcess] d th1 th'(2)
          timer_ok_armed [of ThrottlerProcess "?th2 \<lparr> th_is_limiting := True \<rparr>"] lim by simp
      then show ?thesis using msgs th1 \<open>out = []\<close> by (simp add: throttler_ok_def th'(1))
    qed
  qed
qed

lemma throttler_send_ok:
  assumes U: "ustr_order_ok U" and ok: "throttler_ok recv sent dropped th" and "throttler_send U msg th = Some (out, th')"
  shows "throttler_ok (recv @ [msg]) (sent @ sent_at (th_now th') out) (dropped @ dropped_in out) th'"
proof -
  let ?r = "\<lambda>th. th \<lparr> th_recv_count := u64_wrapping_add (th_recv_count th) 1 \<rparr>"
  let ?th = "if th_is_limiting th \<and> delta_next th = 0 \<and> th_buffer th = [] then th \<lparr> th_is_limiting := False \<rparr> else th"
  have ok1: "throttler_ok recv sent dropped ?th" "delta_next ?th = delta_next th"
    using ok by (auto simp: throttler_ok_def throttler_pending_def)
  have eq: "throttler_send U msg th = (if th_is_limiting ?th \<or> 0 < delta_next ?th then limit_msg U msg (?r ?th) else Some (send_msg msg (?r ?th)))"
    by (cases th) (simp add: throttler_send_def Let_def delta_next_def)
  show ?thesis
  proof (cases "th_is_limiting ?th \<or> 0 < delta_next ?th")
    case True
    then have "limit_msg U msg (?r ?th) = Some (out, th')" using assms(3) eq by simp
    from limit_msg_ok [OF U ok1(1) True this] show ?thesis by simp
  next
    case False
    then have r: "out = [Sent msg]" "th' = snd (send_msg msg (?r ?th))" using assms(3) eq by (auto simp: send_msg_def Let_def)
    have buf: "th_buffer ?th = []" "\<not> th_is_limiting ?th"
      using ok1(1) False by (auto simp: throttler_ok_def throttler_pending_def throttler_messages_def split: if_splits)
    have now: "th_now (?r ?th) = th_now th'" using r(2) by simp
    have "throttler_times (sent @ [(th_now th', msg)]) th'"
      unfolding r(2) send_msg_simps by (rule send_msg_times) (use ok1 False in \<open>simp_all add: throttler_ok_def\<close>)
    moreover have "throttler_messages (recv @ [msg]) (sent @ [(th_now th', msg)]) dropped th'"
      unfolding r(2) by (rule messages_received(1)) (use ok1 buf in \<open>simp_all add: throttler_ok_def\<close>)
    moreover have "throttler_timer_ok th'" using ok1(1) by (simp add: r(2) throttler_ok_def)
    moreover have "throttler_pending (sent @ [(th_now th', msg)]) th'" using buf by (simp add: r(2) throttler_pending_def)
    ultimately show ?thesis by (simp add: throttler_ok_def r(1))
  qed
qed

end
