(* ===== verification/Throttler_Invariant.thy ===== *)
theory Throttler_Invariant
  imports Throttler_Send
begin

text \<open>
  The timer callbacks and the passing of time keep the throttler's invariant, so every reachable throttler has it.
\<close>

section \<open>The process handler\<close>

lemma messages_popped:
  assumes "throttler_messages recv sent dropped th" and "\<not> th_has_output_drop th" and "th_buffer th = buffer @ [msg]"
  shows "throttler_messages recv (sent @ [(t, msg)]) dropped (snd (send_msg msg (th \<lparr> th_buffer := buffer \<rparr>)))"
proof -
  note m = assms(1) [unfolded throttler_messages_def]
  have "u64_wrapping_add (th_sent_count th) 1 = length (sent @ [(t, msg)]) mod (U64_MAX + 1)"
    by (rule wrapping_count) (use m in blast)
  then show ?thesis using m assms(2,3) unfolding throttler_messages_def by auto
qed

lemma process_step:
  assumes "th_buffer th = buffer @ [msg]"
  defines "th1 \<equiv> snd (send_msg msg (th \<lparr> th_buffer := buffer \<rparr>))"
  shows "throttler_process U th = (if buffer \<noteq> [] \<and> delta_next th1 > 0
      then do { th2 \<leftarrow> throttler_set_timer U ThrottlerProcess (th1 \<lparr> th_is_limiting := True \<rparr>); Some ([Sent msg], th2) }
      else do { (outs, th2) \<leftarrow> throttler_process U th1; Some (Sent msg # outs, th2) })"
proof -
  have "send_msg msg (th \<lparr> th_buffer := buffer \<rparr>) = ([Sent msg], th1)" "th_buffer th1 = buffer"
    by (simp_all add: th1_def prod_eq_iff)
  then show ?thesis using assms(1) by (subst throttler_process.simps) simp
qed

lemma process_ok:
  assumes U: "ustr_order_ok U"
  shows "throttler_times sent th \<Longrightarrow> throttler_messages recv sent dropped th \<Longrightarrow> throttler_timer_ok th \<Longrightarrow>
    \<not> th_has_output_drop th \<Longrightarrow> (th_buffer th \<noteq> [] \<Longrightarrow> delta_next th = 0) \<Longrightarrow>
    throttler_process U th = Some (out, th') \<Longrightarrow>
    throttler_ok recv (sent @ sent_at (th_now th) out) dropped th' \<and> dropped_in out = [] \<and> th_now th' = th_now th"
proof (induction "length (th_buffer th)" arbitrary: th sent out)
  case 0
  then show ?case by (subst (asm) throttler_process.simps) (auto simp: throttler_ok_def throttler_pending_def)
next
  case (Suc n)
  then obtain buffer msg where b: "th_buffer th = buffer @ [msg]" by (metis length_Suc_conv_rev)
  define th1 where "th1 = snd (send_msg msg (th \<lparr> th_buffer := buffer \<rparr>))"
  let ?sent = "sent @ [(th_now th, msg)]"
  have d0: "delta_next th = 0" using Suc.prems(5) b by simp
  have th1: "throttler_times ?sent th1" "throttler_messages recv ?sent dropped th1" "throttler_timer_ok th1"
    "\<not> th_has_output_drop th1" "th_buffer th1 = buffer" "th_now th1 = th_now th"
    unfolding th1_def using send_msg_times [of sent "th \<lparr> th_buffer := buffer \<rparr>" msg] Suc.prems(1,3,4) d0
      messages_popped [OF Suc.prems(2,4) b, of "th_now th"] by simp_all
  note unf = process_step [OF b, of U, folded th1_def]
  show ?case
  proof (cases "buffer \<noteq> [] \<and> delta_next th1 > 0")
    case True
    let ?th1 = "th1 \<lparr> th_is_limiting := True \<rparr>"
    have "throttler_timer_ok ?th1" using th1 by simp
    then have r: "out = [Sent msg]" "th' = ?th1 \<lparr> th_clock := armed ThrottlerProcess ?th1 \<rparr>" "check_valid_string_utf8 (th_timer_name ?th1)"
      using Suc.prems(6) True by (auto simp: unf set_timer_eq [OF U] split: if_splits bind_splits)
    have "throttler_pending ?sent th'" unfolding r(2)
      by (rule pending_armed) (use True th1 r(3) in auto)
    moreover have "throttler_timer_ok th'" unfolding r(2) by (rule timer_ok_armed) (use th1 in simp)
    ultimately show ?thesis using th1 by (simp add: throttler_ok_def r)
  next
    case False
    then obtain outs where outs: "throttler_process U th1 = Some (outs, th')" "out = Sent msg # outs"
      using Suc.prems(6) by (auto simp: unf split: bind_splits)
    have "n = length (th_buffer th1)" using Suc.hyps(2) b th1(5) by simp
    from Suc.hyps(1) [OF this th1(1-4) _ outs(1)] False th1(5,6) show ?thesis by (auto simp: outs(2))
  qed
qed

section \<open>Time\<close>

lemma advance_alert:
  assumes "advance_time t True c = Some (events, c')" and "t < U64_MAX" and "tc_timers c = [(name, alert_timer name set_at alert)]"
  shows "tc_time c \<le> t" and "tc_callbacks c' = tc_callbacks c" and "tc_time c' = t"
    and "if alert \<le> t then events = [\<lparr> te_name = name, te_ts_event = alert, te_ts_init = alert \<rparr>] \<and> tc_timers c' = []
      else events = [] \<and> tc_timers c' = tc_timers c"
  using assms(1,3) by (auto simp: advance_time_def alert_timer_def [THEN arg_cong [where f = tt_is_expired], simplified] alert_timer_advance [OF assms(2)] Let_def split: if_splits)

lemma times_later:
  assumes "throttler_times sent th" and "th_now th \<le> tc_time c" and "tc_time c \<le> U64_MAX"
  shows "throttler_times sent (th \<lparr> th_clock := c \<rparr>)"
  using assms by (force simp: throttler_times_def)

lemma pending_delta:
  assumes times: "throttler_times sent (th \<lparr> th_clock := c \<rparr>)" and "throttler_pending sent th" and "th_buffer th \<noteq> []"
    and "tc_timers (th_clock th) = [(name, alert_timer name set_at alert)]" and "alert \<le> tc_time c"
  shows "delta_next (th \<lparr> th_clock := c \<rparr>) = 0"
proof -
  have "alert = fst (sent ! (length sent - th_limit th)) + th_interval th"
    using assms(2-4) by (auto simp: throttler_pending_def alert_timer_def)
  then show ?thesis using assms(5) unfolding delta_next_eq [OF times] by simp
qed

lemma pending_later:
  assumes "tc_timers c = tc_timers (th_clock th)" and "tc_callbacks c = tc_callbacks (th_clock th)" and "th_now th \<le> tc_time c"
  shows "throttler_timer_ok (th \<lparr> th_clock := c \<rparr>) = throttler_timer_ok th"
    and "throttler_pending sent th \<Longrightarrow> throttler_pending sent (th \<lparr> th_clock := c \<rparr>)"
  using assms by (simp_all add: throttler_timer_ok_def throttler_pending_def) (meson le_trans)

lemma throttler_advance_ok:
  assumes U: "ustr_order_ok U" and ok: "throttler_ok recv sent dropped th" and t: "t < U64_MAX"
    and adv: "throttler_advance U t th = Some (out, th')"
  shows "throttler_ok recv (sent @ sent_at (th_now th') out) (dropped @ dropped_in out) th'"
proof -
  obtain events c handlers where c: "advance_time t True (th_clock th) = Some (events, c)" "match_handlers events c = Some handlers"
    "run_handlers U handlers (th \<lparr> th_clock := c \<rparr>) = Some (out, th')"
    using adv by (auto simp: throttler_advance_def split: bind_splits)
  note ok' = ok [unfolded throttler_ok_def]
  let ?th = "th \<lparr> th_clock := c \<rparr>"
  have now: "th_now th \<le> t" "tc_time c = t" "tc_callbacks c = tc_callbacks (th_clock th)"
    using c(1) by (auto simp: advance_time_def Let_def split: if_splits bind_splits)
  have times: "throttler_times sent ?th" by (rule times_later) (use ok' now t in auto)
  have msgs: "throttler_messages recv sent dropped ?th" using ok' by simp
  show ?thesis
  proof (cases "tc_timers (th_clock th) = []")
    case True
    then have "events = []" "tc_timers c = []" using c(1) by (auto simp: advance_time_def Let_def split: if_splits)
    then show ?thesis using c(2,3) ok' True times msgs
      by (auto simp: match_handlers_def throttler_ok_def throttler_pending_def throttler_timer_ok_def)
  next
    case False
    then obtain set_at alert where timer: "tc_timers (th_clock th) = [(th_timer_name th, alert_timer (th_timer_name th) set_at alert)]"
      and cb: "cr_callbacks (tc_callbacks (th_clock th)) (th_timer_name th) = Some (if th_has_output_drop th then ThrottlerResume else ThrottlerProcess)"
      using ok' by (auto simp: throttler_timer_ok_def)
    note fired = advance_alert(4) [OF c(1) t timer]
    show ?thesis
    proof (cases "alert \<le> t")
      case False
      then have e: "events = []" "tc_timers c = tc_timers (th_clock th)" using fired by simp_all
      have "out = []" "th' = ?th" using c(2,3) e(1) by (simp_all add: match_handlers_def)
      then show ?thesis using pending_later [OF e(2) now(3)] ok' times msgs now(1,2) by (simp add: throttler_ok_def)
    next
      case True
      have timer_ok: "throttler_timer_ok ?th" using fired True by (simp add: throttler_timer_ok_def)
      have handlers: "map snd handlers = [if th_has_output_drop th then ThrottlerResume else ThrottlerProcess]"
        using c(2) fired True cb now(3) by (auto simp: match_handlers_def get_handler_def get_callback_def)
      show ?thesis
      proof (cases "th_has_output_drop th")
        case True
        then have "out = []" "th' = throttler_resume ?th" using c(3) handlers by auto
        then show ?thesis using times msgs timer_ok True
          by (simp add: throttler_ok_def throttler_resume_def throttler_pending_def) (simp add: throttler_messages_def)
      next
        case False
        then have "throttler_process U ?th = Some (out, th')" using c(3) handlers by (auto split: bind_splits)
        from process_ok [OF U times msgs timer_ok _ _ this] pending_delta [OF times _ _ timer] show ?thesis
          using ok' False True now(2) by auto
      qed
    qed
  qed
qed

section \<open>Reachable throttlers\<close>

lemma set_timer_keeps: "throttler_set_timer U callback th = Some th' \<Longrightarrow> th_limit th' = th_limit th"
  by (auto simp: throttler_set_timer_def Let_def split: bind_splits if_splits)

lemma throttler_send_keeps: "throttler_send U msg th = Some (out, th') \<Longrightarrow> th_limit th' = th_limit th"
  by (auto simp: throttler_send_def limit_msg_def send_msg_def Let_def dest!: set_timer_keeps split: bind_splits if_splits)

lemma throttler_process_keeps: "throttler_process U th = Some (out, th') \<Longrightarrow> th_limit th' = th_limit th"
proof (induction "length (th_buffer th)" arbitrary: th out)
  case 0
  then show ?case by (subst (asm) throttler_process.simps) auto
next
  case (Suc n)
  then obtain buffer msg where b: "th_buffer th = buffer @ [msg]" by (metis length_Suc_conv_rev)
  from Suc.prems Suc.hyps(2) b show ?case
    by (auto simp: process_step [OF b] dest!: set_timer_keeps Suc.hyps(1) [rotated] split: if_splits bind_splits)
qed

lemma run_handlers_keeps: "run_handlers U handlers th = Some (out, th') \<Longrightarrow> th_limit th' = th_limit th"
proof (induction handlers arbitrary: th out)
  case (Cons p handlers)
  obtain event callback where p: "p = (event, callback)" by (cases p)
  obtain outs th1 outs2 where "(case callback of ThrottlerProcess \<Rightarrow> throttler_process U th | ThrottlerResume \<Rightarrow> Some ([], throttler_resume th)) = Some (outs, th1)"
    "run_handlers U handlers th1 = Some (outs2, th')"
    using Cons.prems p by (auto split: bind_splits)
  then show ?case using Cons.IH [of th1 outs2] throttler_process_keeps [of U th outs th1]
    by (auto simp: throttler_resume_def split: throttler_callback.splits)
qed simp

lemma throttler_advance_keeps: "throttler_advance U t th = Some (out, th') \<Longrightarrow> th_limit th' = th_limit th"
  by (auto simp: throttler_advance_def dest!: run_handlers_keeps split: bind_splits)

lemma throttler_reach_ok:
  assumes "ustr_order_ok U"
  shows "throttler_reach U recv sent dropped th \<Longrightarrow> 0 < th_limit th \<Longrightarrow> throttler_ok recv sent dropped th"
proof (induction rule: throttler_reach.induct)
  case (reach_start interval limit name has_drop)
  then show ?case
    by (simp add: throttler_ok_def throttler_new_def clock_new_def throttler_times_def throttler_messages_def throttler_timer_ok_def
        throttler_pending_def rate_ok_def)
next
  case (reach_send recv sent dropped th msg out th')
  then show ?case using throttler_send_ok [OF assms] throttler_send_keeps [OF reach_send.hyps(2)] by simp
next
  case (reach_time recv sent dropped th t out th')
  then show ?case using throttler_advance_ok [OF assms] throttler_advance_keeps [OF reach_time.hyps(3)] by simp
next
  case (reach_throttler_reset recv sent dropped th)
  then show ?case
    by (auto simp: throttler_ok_def throttler_reset_def throttler_times_def throttler_messages_def throttler_timer_ok_def
        throttler_pending_def rate_ok_def)
qed

end
