(* ===== verification/Throttler_Claims.thy ===== *)
theory Throttler_Claims
  imports Throttler_Invariant "HOL-Library.List_Lexorder" "HOL-Library.Char_ord"
begin

text \<open>
  What the throttler promises: its rate, that no message is lost or overtakes another, and that the buffer drains.
\<close>

definition ex_timer_order :: ustr_order where
  "ex_timer_order a b = (if a < b then Less else if a = b then Equal else Greater)"

definition ex_throttler :: "nat throttler" where
  "ex_throttler = throttler_new 2 10 clock_new ''limit'' False"

definition ex_buffered :: "nat throttler" where
  "ex_buffered = ex_throttler \<lparr> th_recv_count := 3, th_sent_count := 2, th_is_limiting := True, th_buffer := [3], th_timestamps := [0, 0],
     th_clock := clock_new \<lparr> tc_timers := [(''limit'', alert_timer ''limit'' 0 10)],
       tc_callbacks := register_callback ''limit'' ThrottlerProcess registry_new \<rparr> \<rparr>"

section \<open>Draining the buffer\<close>

lemma delta_recent:
  assumes times: "throttler_times (old @ new) th" and old: "\<forall>p \<in> set old. fst p + th_interval th \<le> th_now th"
    and new: "\<forall>p \<in> set new. fst p = th_now th" and "length new \<le> th_limit th"
  shows "delta_next th = (if length new = th_limit th then th_interval th else 0)"
proof -
  have l: "0 < th_limit th" using times by (simp add: throttler_times_def)
  show ?thesis
  proof (cases "length new = th_limit th")
    case True
    then have "fst ((old @ new) ! (length (old @ new) - th_limit th)) = th_now th"
      using new l by (simp add: nth_append)
    then show ?thesis unfolding delta_next_eq [OF times] using True by simp
  next
    case False
    then have less: "length new < th_limit th" using assms(4) by simp
    have "fst ((old @ new) ! (length (old @ new) - th_limit th)) + th_interval th \<le> th_now th" if "th_limit th \<le> length (old @ new)"
    proof -
      have "length (old @ new) - th_limit th < length old" using that less l by simp
      then show ?thesis using old by (simp add: nth_append)
    qed
    then show ?thesis unfolding delta_next_eq [OF times] using False by fastforce
  qed
qed

lemma process_drains:
  assumes U: "ustr_order_ok U"
  shows "throttler_times (old @ new) th \<Longrightarrow> throttler_timer_ok th \<Longrightarrow> check_valid_string_utf8 (th_timer_name th) \<Longrightarrow>
    th_now th + th_interval th \<le> U64_MAX \<Longrightarrow> \<forall>p \<in> set old. fst p + th_interval th \<le> th_now th \<Longrightarrow>
    \<forall>p \<in> set new. fst p = th_now th \<Longrightarrow> length new < th_limit th \<Longrightarrow> 0 < th_interval th \<Longrightarrow>
    \<exists>th'. throttler_process U th = Some (map Sent (take (th_limit th - length new) (rev (th_buffer th))), th')"
proof (induction "length (th_buffer th)" arbitrary: th new)
  case 0
  then show ?case by (subst throttler_process.simps) simp
next
  case (Suc n)
  then obtain buffer msg where b: "th_buffer th = buffer @ [msg]" by (metis length_Suc_conv_rev)
  define th1 where "th1 = snd (send_msg msg (th \<lparr> th_buffer := buffer \<rparr>))"
  let ?new = "new @ [(th_now th, msg)]"
  have "delta_next th = 0" using delta_recent [OF Suc.prems(1,5,6)] Suc.prems(7) by simp
  then have times: "throttler_times (old @ ?new) th1"
    unfolding th1_def using send_msg_times [of "old @ new" "th \<lparr> th_buffer := buffer \<rparr>" msg] Suc.prems(1) by simp
  have new: "\<forall>p \<in> set old. fst p + th_interval th1 \<le> th_now th1" "\<forall>p \<in> set ?new. fst p = th_now th1" "length ?new \<le> th_limit th1"
    using Suc.prems(5-7) by (auto simp: th1_def)
  note delta = delta_recent [OF times new]
  have th1: "throttler_timer_ok th1" "th_timer_name th1 = th_timer_name th" "th_now th1 = th_now th" "th_interval th1 = th_interval th"
    "th_limit th1 = th_limit th" "th_buffer th1 = buffer"
    using Suc.prems(2) by (simp_all add: th1_def)
  obtain k where k: "th_limit th - length new = Suc k" using Suc.prems(7) by (metis Suc_diff_Suc)
  note step = process_step [OF b, of U, folded th1_def]
  show ?case
  proof (cases "length ?new = th_limit th")
    case True
    then have "k = 0" "0 < delta_next th1" "th_now th1 + delta_next th1 \<le> U64_MAX"
      using k delta Suc.prems(4,8) th1 by simp_all
    moreover have "throttler_process U th1 = Some ([], th1 \<lparr> th_is_limiting := False \<rparr>)" if "buffer = []"
      using that th1(6) by (subst throttler_process.simps) simp
    moreover have "throttler_timer_ok (th1 \<lparr> th_is_limiting := True \<rparr>)" using th1(1) by simp
    ultimately show ?thesis using Suc.prems(3) th1(2)
      by (cases "buffer = []") (simp_all add: step b k set_timer_eq [OF U])
  next
    case False
    then have "length ?new < th_limit th1" using new(3) th1 by simp
    moreover have "n = length (th_buffer th1)" using Suc.hyps(2) b th1(6) by simp
    ultimately obtain th' where "throttler_process U th1 = Some (map Sent (take (th_limit th1 - length ?new) (rev buffer)), th')"
      using Suc.hyps(1) [of th1 ?new] times new th1 Suc.prems(3,4,8) by auto
    moreover have "th_limit th1 - length ?new = k" using k th1 by simp
    moreover have "delta_next th1 = 0" using delta False th1(5) by simp
    ultimately show ?thesis by (simp add: step b k)
  qed
qed

text \<open>
  With a limit of zero the index of the oldest send wraps around, so the throttler never waits.
\<close>

lemma zero_limit_never_waits: "th_limit th = 0 \<Longrightarrow> length (th_timestamps th) \<le> 1 \<Longrightarrow> delta_next th = 0"
  by (simp add: delta_next_def u64_wrapping_sub_def U64_MAX_def)

text \<open>A throttler of two messages in ten nanoseconds, after three messages at once.\<close>

lemma ex_buffered_reach:
  "ustr_order_ok ex_timer_order" "throttler_reach ex_timer_order [1, 2, 3] [(0, 1), (0, 2)] [] ex_buffered"
proof -
  show "ustr_order_ok ex_timer_order" by (auto simp: ustr_order_ok_def ex_timer_order_def)
  let ?a = "ex_throttler \<lparr> th_recv_count := 1, th_sent_count := 1, th_timestamps := [0] \<rparr>"
  let ?b = "ex_throttler \<lparr> th_recv_count := 2, th_sent_count := 2, th_timestamps := [0, 0] \<rparr>"
  have a: "throttler_send ex_timer_order 1 ex_throttler = Some ([Sent 1], ?a)"
    and b: "throttler_send ex_timer_order 2 ?a = Some ([Sent 2], ?b)"
    and c: "throttler_send ex_timer_order 3 ?b = Some ([], ex_buffered)"
    by (simp_all add: throttler_send_def delta_next_def send_msg_def limit_msg_def throttler_set_timer_def timer_exists_def timer_get_def
        rust_arith Let_def ex_throttler_def ex_buffered_def throttler_new_def clock_new_def check_valid_string_utf8_def
        ascii_whitespace_def set_time_alert_ns_def validate_and_prepare_time_alert_def replace_existing_timer_def timer_new_def
        alert_timer_def timers_insert_def create_valid_interval_def)
  have "throttler_reach ex_timer_order [] [] [] ex_throttler"
    unfolding ex_throttler_def by (rule reach_start) (simp_all add: U64_MAX_def)
  from reach_send [OF reach_send [OF reach_send [OF this a] b] c]
  show "throttler_reach ex_timer_order [1, 2, 3] [(0, 1), (0, 2)] [] ex_buffered"
    by (simp add: ex_throttler_def throttler_new_def clock_new_def)
qed

lemma ex_buffered_simps:
  "th_limit ex_buffered = 2" "th_interval ex_buffered = 10" "th_buffer ex_buffered = [3]" "th_now ex_buffered = 0"
  "th_has_output_drop ex_buffered = False" "th_recv_count ex_buffered = 3" "th_sent_count ex_buffered = 2"
  by (simp_all add: ex_buffered_def ex_throttler_def throttler_new_def clock_new_def)

section \<open>Claims\<close>



text \<open>
  C19: The throttler loses no message and keeps the order.  A buffering throttler has sent a prefix of the messages it received,
  in their order, and holds the rest; a dropping throttler has sent or dropped each message it received.  Its counters
  count the messages received and sent, up to 64-bit wrap-around.
\<close>

theorem throttler_keeps_messages:
  assumes "ustr_order_ok U" and "throttler_reach U recv sent dropped th" and "0 < th_limit th"
  shows "(if th_has_output_drop th then th_buffer th = [] \<and> recv \<in> shuffles (map snd sent) dropped
      else dropped = [] \<and> recv = map snd sent @ rev (th_buffer th)) \<and>
    th_recv_count th = length recv mod 2 ^ 64 \<and> th_sent_count th = length sent mod 2 ^ 64"
proof -
  have "throttler_messages recv sent dropped th" using throttler_reach_ok [OF assms] by (simp add: throttler_ok_def)
  then show ?thesis unfolding throttler_messages_def by (cases "th_has_output_drop th") (auto simp: U64_MAX_def)
qed

theorem throttler_keeps_messages_witness: "[1, 2, 3] = map snd [(0 :: nat, 1), (0, 2)] @ rev (th_buffer ex_buffered)"
  using throttler_keeps_messages [OF ex_buffered_reach] by (simp add: ex_buffered_simps)

text \<open>
  C20: The throttler drains its buffer: when messages are buffered and the clock advances by at least the interval, the
  next \<open>limit\<close> of them (or all, if there are fewer) are sent, in their order.
\<close>

theorem throttler_drains:
  assumes "ustr_order_ok U" and "throttler_reach U recv sent dropped th" and "0 < th_limit th" and "th_buffer th \<noteq> []"
    and "th_now th + th_interval th \<le> t" and "t < U64_MAX" and "t + th_interval th \<le> U64_MAX"
  shows "\<exists>th'. throttler_advance U t th = Some (map Sent (take (th_limit th) (rev (th_buffer th))), th')"
proof -
  note ok = throttler_reach_ok [OF assms(1-3), unfolded throttler_ok_def]
  let ?x = "fst (sent ! (length sent - th_limit th))" and ?n = "th_timer_name th"
  have nodrop: "\<not> th_has_output_drop th" using ok assms(4) by (auto simp: throttler_messages_def)
  obtain set_at where set_at: "?x \<le> set_at" "set_at \<le> th_now th" "check_valid_string_utf8 ?n" "0 < th_interval th"
    and timer: "tc_timers (th_clock th) = [(?n, alert_timer ?n set_at (?x + th_interval th))]"
    using ok assms(4) by (auto simp: throttler_pending_def)
  have cb: "cr_callbacks (tc_callbacks (th_clock th)) ?n = Some ThrottlerProcess"
    using ok timer nodrop by (simp add: throttler_timer_ok_def)
  let ?c = "th_clock th \<lparr> tc_time := t, tc_timers := [] \<rparr>"
  let ?e = "\<lparr> te_name = ?n, te_ts_event = ?x + th_interval th, te_ts_init = ?x + th_interval th \<rparr>"
  have "create_valid_interval (?x + th_interval th - set_at) \<le> th_interval th"
    using set_at by (simp add: create_valid_interval_def)
  then have "?x + th_interval th \<le> t" "?x + th_interval th + create_valid_interval (?x + th_interval th - set_at) \<le> U64_MAX"
    using set_at assms(5,7) by linarith+
  then have "advance_time t True (th_clock th) = Some ([?e], ?c)"
    using assms(5) timer by (simp add: advance_time_def alert_timer_advance [OF assms(6)] Let_def)
  moreover have "match_handlers [?e] ?c = Some [(?e, ThrottlerProcess)]"
    using cb by (simp add: match_handlers_def get_handler_def get_callback_def)
  moreover have "\<exists>th'. throttler_process U (th \<lparr> th_clock := ?c \<rparr>) = Some (map Sent (take (th_limit th) (rev (th_buffer th))), th')"
  proof -
    have times: "throttler_times (sent @ []) (th \<lparr> th_clock := ?c \<rparr>)"
      using times_later [of sent th ?c] ok assms(5,6) by simp
    have "\<forall>p \<in> set sent. fst p \<le> th_now th" using ok by (simp add: throttler_times_def)
    then have "\<forall>p \<in> set sent. fst p + th_interval th \<le> t" using assms(5) by fastforce
    then show ?thesis using process_drains [OF assms(1) times] set_at assms(3,7) by (simp add: throttler_timer_ok_def)
  qed
  ultimately show ?thesis by (auto simp: throttler_advance_def)
qed

theorem throttler_drains_witness: "\<exists>th'. throttler_advance ex_timer_order 12 ex_buffered = Some ([Sent 3], th')"
  using throttler_drains [OF ex_buffered_reach, of 12] by (simp add: ex_buffered_simps U64_MAX_def)

end
