(* ===== verification/Value_Closure.thy ===== *)
theory Value_Closure
  imports Value_Types
begin













end
