(* ===== verification/Float_Values.thy ===== *)
theory Float_Values
  imports Money_Balance
begin

text \<open>
  Quantities and money made from floating point numbers: \<open>f64_to_fixed_u64\<close> and \<open>f64_to_fixed_i64\<close> of
  \<open>model/src/types/fixed.rs\<close>, the range check of \<open>core/src/correctness.rs\<close>, \<open>Quantity::new\<close> and \<open>Money::new\<close>.
\<close>

definition check_in_range_inclusive_f64 :: "'f f64_ops \<Rightarrow> 'f \<Rightarrow> 'f \<Rightarrow> 'f \<Rightarrow> string \<Rightarrow> unit checked" where
  "check_in_range_inclusive_f64 F value_f64 l r param =
     (let eps = f64_div F (f64_of_int F 1) (f64_of_int F (10 ^ 15)) in
      if \<not> f64_is_finite F value_f64 then Inl (InvalidValue param)
      else if f64_lt F value_f64 (f64_sub F l eps) \<or> f64_lt F (f64_add F r eps) value_f64
      then Inl (OutOfRange param)
      else Inr ())"

definition f64_to_fixed_i64 :: "'f f64_ops \<Rightarrow> 'f \<Rightarrow> nat \<Rightarrow> int option" where
  "f64_to_fixed_i64 F value_f64 precision = do {
     expect_display (check_fixed_precision precision);
     let pow1 = 10 ^ precision;
     let pow2 = 10 ^ (FIXED_PRECISION - precision);
     let rounded = f64_as_i64 F (f64_round F (f64_mul F value_f64 (f64_of_int F pow1)));
     Some (i64_wrap (rounded * pow2))
   }"

definition f64_to_fixed_u64 :: "'f f64_ops \<Rightarrow> 'f \<Rightarrow> nat \<Rightarrow> nat option" where
  "f64_to_fixed_u64 F value_f64 precision = do {
     expect_display (check_fixed_precision precision);
     let pow1 = 10 ^ precision;
     let pow2 = 10 ^ (FIXED_PRECISION - precision);
     let rounded = f64_as_u64 F (f64_round F (f64_mul F value_f64 (f64_of_int F pow1)));
     Some (rounded * pow2 mod (U64_MAX + 1))
   }"

definition quantity_new :: "'f f64_ops \<Rightarrow> 'f \<Rightarrow> nat \<Rightarrow> quantity option" where
  "quantity_new F value_f64 precision = do {
     expect_display (check_in_range_inclusive_f64 F value_f64 (f64_of_int F 0) (f64_of_int F 18446744073) ''value'');
     expect_display (check_fixed_precision precision);
     raw \<leftarrow> f64_to_fixed_u64 F value_f64 precision;
     Some \<lparr> q_raw = raw, q_prec = precision \<rparr>
   }"

definition money_new :: "'f f64_ops \<Rightarrow> 'f \<Rightarrow> currency \<Rightarrow> money option" where
  "money_new F amount c = do {
     expect_display (check_in_range_inclusive_f64 F amount (f64_of_int F (- 9223372036)) (f64_of_int F 9223372036) ''amount'');
     raw \<leftarrow> f64_to_fixed_i64 F amount (c_precision c);
     Some \<lparr> m_raw = raw, m_currency = c \<rparr>
   }"

section \<open>Exact arithmetic\<close>

lemma rat_round_half: "\<bar>of_int (rat_round x) - x\<bar> \<le> 1 / 2"
proof (cases "0 \<le> x")
  case True
  have "of_int \<lfloor>x + 1 / 2\<rfloor> \<le> x + 1 / 2" "x + 1 / 2 < of_int \<lfloor>x + 1 / 2\<rfloor> + 1"
    using floor_correct [of "x + 1 / 2"] by simp_all
  moreover have "rat_round x = \<lfloor>x + 1 / 2\<rfloor>" using True by (simp add: rat_round_def)
  ultimately show ?thesis unfolding abs_le_iff by (simp only:) linarith
next
  case False
  have "of_int \<lfloor>1 / 2 - x\<rfloor> \<le> 1 / 2 - x" "1 / 2 - x < of_int \<lfloor>1 / 2 - x\<rfloor> + 1"
    using floor_correct [of "1 / 2 - x"] by simp_all
  moreover have "rat_round x = - \<lfloor>1 / 2 - x\<rfloor>" using False by (simp add: rat_round_def)
  ultimately show ?thesis unfolding abs_le_iff by (simp only: of_int_minus) linarith
qed

lemma rat_round_int [simp]: "rat_round (of_int n) = n"
proof -
  have "\<lfloor>of_int n + 1 / 2 :: rat\<rfloor> = n" "\<lfloor>1 / 2 - of_int n :: rat\<rfloor> = - n" by (simp_all add: floor_eq_iff)
  then show ?thesis by (simp add: rat_round_def)
qed

lemma rat_as_i64_int: "in_i64 n \<Longrightarrow> rat_as_i64 (of_int n) = n"
  by (simp add: rat_as_i64_def in_i64_def)

text \<open>A quantity made from the exact value of a multiple of its unit is that value.\<close>

lemma quantity_new_exact:
  assumes "precision \<le> FIXED_PRECISION" and "unit_at precision dvd int raw" and "raw \<le> QUANTITY_RAW_MAX"
  shows "quantity_new exact_f64 (of_nat raw / 10 ^ 9) precision = Some \<lparr> q_raw = raw, q_prec = precision \<rparr>"
proof -
  obtain k where k: "int raw = unit_at precision * k" using assms(2) by blast
  have pos: "0 \<le> k" using k by (metis of_nat_0_le_iff unit_at_pos(1) zero_le_mult_iff not_less)
  then obtain n where n: "k = int n" by (metis nonneg_int_cases)
  have raw: "raw = n * 10 ^ (FIXED_PRECISION - precision)"
    using k n unfolding unit_at_nat by (metis mult.commute of_nat_eq_iff of_nat_mult)
  have pow: "(10 :: rat) ^ 9 = 10 ^ (FIXED_PRECISION - precision) * 10 ^ precision"
    using assms(1) by (simp add: FIXED_PRECISION_def flip: power_add)
  have val: "of_nat raw / 10 ^ 9 * 10 ^ precision = (of_int (int n) :: rat)"
    unfolding pow by (simp add: raw)
  have "n \<le> raw" unfolding raw by simp
  then have "n \<le> U64_MAX" "raw \<le> U64_MAX" using assms(3) by (simp_all add: QUANTITY_RAW_MAX_def U64_MAX_def)
  moreover have "rat_round (of_nat raw / 10 ^ 9 * 10 ^ precision) = int n" unfolding val by (rule rat_round_int)
  ultimately have "f64_to_fixed_u64 exact_f64 (of_nat raw / 10 ^ 9) precision = Some raw"
    using assms(1) raw by (simp add: f64_to_fixed_u64_def check_fixed_precision_def Let_def)
  moreover have "of_nat raw / 10 ^ 9 \<le> (18446744073 :: rat)"
  proof -
    have "(of_nat raw :: rat) \<le> of_nat QUANTITY_RAW_MAX" using assms(3) by (simp only: of_nat_le_iff)
    then show ?thesis by (simp add: QUANTITY_RAW_MAX_def field_simps)
  qed
  ultimately show ?thesis
    using assms(1) by (simp add: quantity_new_def check_in_range_inclusive_f64_def check_fixed_precision_def Let_def)
qed

text \<open>An amount of money made from a number is within half a unit of it.\<close>

lemma money_new_half:
  assumes "money_new exact_f64 x c = Some m"
  shows "m_currency m = c" and "\<bar>money_as_f64 exact_f64 m - x\<bar> \<le> 1 / (2 * 10 ^ c_precision c)"
proof -
  define p where "p = c_precision c"
  define n where "n = rat_round (x * 10 ^ p)"
  have p: "p \<le> FIXED_PRECISION" and x: "\<bar>x\<bar> \<le> 9223372036 + 1 / 10 ^ 15"
    and raw: "m_raw m = i64_wrap (rat_as_i64 (of_int n) * 10 ^ (FIXED_PRECISION - p))" and cur: "m_currency m = c"
    using assms by (auto simp: money_new_def check_in_range_inclusive_f64_def f64_to_fixed_i64_def check_fixed_precision_def Let_def
        p_def n_def abs_le_iff split: if_splits)
  show "m_currency m = c" by (rule cur)
  have half: "\<bar>of_int n - x * 10 ^ p\<bar> \<le> 1 / 2" unfolding n_def by (rule rat_round_half)
  have "(10 :: rat) ^ p \<le> 10 ^ 9" using p by (intro power_increasing) (simp_all add: FIXED_PRECISION_def)
  moreover have "\<bar>x * 10 ^ p\<bar> \<le> (9223372036 + 1 / 10 ^ 15) * 10 ^ p" using x by (simp add: abs_mult)
  moreover have "\<bar>of_int n\<bar> \<le> \<bar>x * 10 ^ p\<bar> + \<bar>of_int n - x * 10 ^ p\<bar>" by linarith
  moreover have "(9223372036 + 1 / 10 ^ 15) * 10 ^ p = 9223372036 * 10 ^ p + (10 :: rat) ^ p / 10 ^ 15" by (simp add: algebra_simps)
  ultimately have "\<bar>of_int n\<bar> < 9223372036 * 10 ^ p + (1 :: rat)" using half by simp
  then have "of_int \<bar>n\<bar> < (of_int (9223372036 * 10 ^ p + 1) :: rat)" by simp
  then have n: "\<bar>n\<bar> \<le> 9223372036 * 10 ^ p" unfolding of_int_less_iff by simp
  have pow: "(10 :: int) ^ p * 10 ^ (FIXED_PRECISION - p) = 10 ^ 9" using p by (simp add: FIXED_PRECISION_def flip: power_add)
  have big: "\<bar>n * 10 ^ (FIXED_PRECISION - p)\<bar> \<le> 9223372036 * 10 ^ 9"
    using mult_right_mono [OF n, of "10 ^ (FIXED_PRECISION - p)"] pow by (simp add: abs_mult mult.assoc)
  have "(10 :: int) ^ p \<le> 10 ^ 9" using p by (intro power_increasing) (simp_all add: FIXED_PRECISION_def)
  then have "in_i64 n" using n by (simp add: in_i64_def rust_bounds abs_le_iff)
  then have "m_raw m = n * 10 ^ (FIXED_PRECISION - p)"
    unfolding raw using big by (simp add: rat_as_i64_int i64_wrap_exact in_i64_def rust_bounds abs_le_iff)
  then have "money_as_f64 exact_f64 m = of_int n * 10 ^ (FIXED_PRECISION - p) / 10 ^ 9"
    by (simp add: money_as_f64_def FIXED_SCALAR_def)
  also have "\<dots> = of_int n / 10 ^ p"
    using arg_cong [OF pow, of rat_of_int] by (simp add: field_simps)
  finally have "money_as_f64 exact_f64 m - x = (of_int n - x * 10 ^ p) / 10 ^ p" by (simp add: diff_divide_distrib)
  then have "\<bar>money_as_f64 exact_f64 m - x\<bar> = \<bar>of_int n - x * 10 ^ p\<bar> / 10 ^ p" by simp
  also have "\<dots> \<le> 1 / 2 / 10 ^ p" using half by (intro divide_right_mono) simp_all
  finally show "\<bar>money_as_f64 exact_f64 m - x\<bar> \<le> 1 / (2 * 10 ^ c_precision c)" by (simp add: p_def)
qed

end
