(* ===== verification/Position.thy ===== *)
theory Position
  imports Float_Values Order_Events Rust_Collections
begin

text \<open>
  Positions (\<open>model/src/position.rs\<close>) with the adjustment event (\<open>model/src/events/position/adjusted.rs\<close>) and what they
  read of an instrument (\<open>model/src/instruments/mod.rs\<close>).  Floating point is the parameter \<open>F\<close>.  A decimal becomes
  a float through \<open>df_to_f64\<close> of the parameter \<open>E\<close>.  Errors of the calculations are only logged by the code, so
  they are \<open>None\<close> of an option here; the ids of adjustment events are left out.  Currencies are equal when their codes
  are, so the commissions are kept by currency code.
\<close>

section \<open>Data\<close>

datatype instrument_class =
    Spot | Swap | Future | FuturesSpread | Forward | Cfd | Bond | OptionClass | OptionSpread | Warrant | SportsBetting | BinaryOption

datatype position_adjustment_type = Commission | Funding

record instrument =
  in_id :: string
  in_price_precision :: nat
  in_size_precision :: nat
  in_multiplier :: quantity
  in_is_inverse :: bool
  in_is_currency_pair :: bool
  in_instrument_class :: instrument_class
  in_base_currency :: "currency option"
  in_quote_currency :: currency

definition cost_currency :: "instrument \<Rightarrow> currency option" where
  "cost_currency i = (if in_is_inverse i then in_base_currency i else Some (in_quote_currency i))"

record ('d, 'f) decimal_f64 =
  df_api :: "'d decimal_api"
  df_neg :: "'d \<Rightarrow> 'd"
  df_to_f64 :: "'d \<Rightarrow> 'f option"

record 'd position_adjusted =
  pa_trader_id :: string
  pa_strategy_id :: string
  pa_instrument_id :: string
  pa_position_id :: string
  pa_account_id :: string
  pa_adjustment_type :: position_adjustment_type
  pa_quantity_change :: "'d option"
  pa_pnl_change :: "money option"
  pa_reason :: "string option"
  pa_ts_event :: nat
  pa_ts_init :: nat

record ('d, 'f) position =
  ps_events :: "order_filled list"
  ps_adjustments :: "'d position_adjusted list"
  ps_trader_id :: string
  ps_strategy_id :: string
  ps_instrument_id :: string
  ps_id :: string
  ps_account_id :: string
  ps_opening_order_id :: string
  ps_closing_order_id :: "string option"
  ps_entry :: order_side
  ps_side :: position_side
  ps_signed_qty :: 'f
  ps_quantity :: quantity
  ps_peak_qty :: quantity
  ps_price_precision :: nat
  ps_size_precision :: nat
  ps_multiplier :: quantity
  ps_is_inverse :: bool
  ps_is_currency_pair :: bool
  ps_instrument_class :: instrument_class
  ps_base_currency :: "currency option"
  ps_quote_currency :: currency
  ps_settlement_currency :: currency
  ps_ts_init :: nat
  ps_ts_opened :: nat
  ps_ts_last :: nat
  ps_ts_closed :: "nat option"
  ps_duration_ns :: nat
  ps_avg_px_open :: 'f
  ps_avg_px_close :: "'f option"
  ps_realized_return :: 'f
  ps_realized_pnl :: "money option"
  ps_trade_ids :: "string set"
  ps_buy_qty :: quantity
  ps_sell_qty :: quantity
  ps_commissions :: "(string, money) index_map"

section \<open>Calculations\<close>

abbreviation f64_zero :: "'f f64_ops \<Rightarrow> 'f" where
  "f64_zero F \<equiv> f64_of_int F 0"

definition calculate_avg_px :: "'f f64_ops \<Rightarrow> 'f \<Rightarrow> 'f \<Rightarrow> 'f \<Rightarrow> 'f \<Rightarrow> 'f option" where
  "calculate_avg_px F qty avg_pg last_px last_qty =
     (if f64_eq F qty (f64_zero F) \<and> f64_eq F last_qty (f64_zero F) then None
      else if f64_eq F last_qty (f64_zero F) then None
      else if f64_eq F qty (f64_zero F) then Some last_px
      else let start_cost = f64_mul F avg_pg qty;
               event_cost = f64_mul F last_px last_qty;
               total_qty = f64_add F qty last_qty
           in if f64_lt F total_qty (f64_zero F) \<or> f64_eq F total_qty (f64_zero F) then None
              else Some (f64_div F (f64_add F start_cost event_cost) total_qty))"

definition calculate_avg_px_open_px :: "'f f64_ops \<Rightarrow> ('d, 'f) position \<Rightarrow> 'f \<Rightarrow> 'f \<Rightarrow> 'f" where
  "calculate_avg_px_open_px F p last_px last_qty =
     (case calculate_avg_px F (quantity_as_f64 F (ps_quantity p)) (ps_avg_px_open p) last_px last_qty of
        Some px \<Rightarrow> px | None \<Rightarrow> last_px)"

definition calculate_avg_px_close_px :: "'f f64_ops \<Rightarrow> ('d, 'f) position \<Rightarrow> 'f \<Rightarrow> 'f \<Rightarrow> 'f" where
  "calculate_avg_px_close_px F p last_px last_qty =
     (case ps_avg_px_close p of
        None \<Rightarrow> last_px
      | Some avg_px_close \<Rightarrow>
          let closing_qty = (if ps_side p = Long then ps_sell_qty p else ps_buy_qty p)
          in (case calculate_avg_px F (quantity_as_f64 F closing_qty) avg_px_close last_px last_qty of
                Some px \<Rightarrow> px | None \<Rightarrow> last_px))"

definition calculate_points :: "'f f64_ops \<Rightarrow> ('d, 'f) position \<Rightarrow> 'f \<Rightarrow> 'f \<Rightarrow> 'f" where
  "calculate_points F p avg_px_open avg_px_close =
     (case ps_side p of
        Long \<Rightarrow> f64_sub F avg_px_close avg_px_open
      | Short \<Rightarrow> f64_sub F avg_px_open avg_px_close
      | _ \<Rightarrow> f64_zero F)"

definition calculate_points_inverse :: "'f f64_ops \<Rightarrow> ('d, 'f) position \<Rightarrow> 'f \<Rightarrow> 'f \<Rightarrow> 'f option" where
  "calculate_points_inverse F p avg_px_open avg_px_close =
     (let eps = f64_div F (f64_of_int F 1) (f64_of_int F (10 ^ 15)) in
      if f64_lt F (f64_abs F avg_px_open) eps then None
      else if f64_lt F (f64_abs F avg_px_close) eps then None
      else let inverse_open = f64_div F (f64_of_int F 1) avg_px_open;
               inverse_close = f64_div F (f64_of_int F 1) avg_px_close
           in Some (case ps_side p of
                Long \<Rightarrow> f64_sub F inverse_open inverse_close
              | Short \<Rightarrow> f64_sub F inverse_close inverse_open
              | _ \<Rightarrow> f64_zero F))"

definition calculate_return :: "'f f64_ops \<Rightarrow> ('d, 'f) position \<Rightarrow> 'f \<Rightarrow> 'f \<Rightarrow> 'f option" where
  "calculate_return F p avg_px_open avg_px_close =
     (if f64_eq F avg_px_open (f64_zero F) then None
      else Some (f64_div F (calculate_points F p avg_px_open avg_px_close) avg_px_open))"

definition calculate_pnl_raw :: "'f f64_ops \<Rightarrow> ('d, 'f) position \<Rightarrow> 'f \<Rightarrow> 'f \<Rightarrow> 'f \<Rightarrow> 'f option" where
  "calculate_pnl_raw F p avg_px_open avg_px_close quantity_f64 =
     (let quantity_f64 = f64_min F quantity_f64 (f64_abs F (ps_signed_qty p));
          size_f64 = f64_mul F quantity_f64 (quantity_as_f64 F (ps_multiplier p))
      in if ps_is_inverse p
         then map_option (f64_mul F size_f64) (calculate_points_inverse F p avg_px_open avg_px_close)
         else Some (f64_mul F size_f64 (calculate_points F p avg_px_open avg_px_close)))"

definition or_zero :: "'f f64_ops \<Rightarrow> 'f option \<Rightarrow> 'f" where
  "or_zero F r = (case r of Some x \<Rightarrow> x | None \<Rightarrow> f64_zero F)"

definition calculate_pnl :: "'f f64_ops \<Rightarrow> ('d, 'f) position \<Rightarrow> 'f \<Rightarrow> 'f \<Rightarrow> quantity \<Rightarrow> money option" where
  "calculate_pnl F p avg_px_open avg_px_close q =
     money_new F (or_zero F (calculate_pnl_raw F p avg_px_open avg_px_close (quantity_as_f64 F q))) (ps_settlement_currency p)"

definition unrealized_pnl :: "'f f64_ops \<Rightarrow> ('d, 'f) position \<Rightarrow> price \<Rightarrow> money option" where
  "unrealized_pnl F p last_price =
     (if ps_side p = Flat then money_new F (f64_zero F) (ps_settlement_currency p)
      else money_new F (or_zero F (calculate_pnl_raw F p (ps_avg_px_open p) (price_as_f64 F last_price)
             (quantity_as_f64 F (ps_quantity p)))) (ps_settlement_currency p))"

definition total_pnl :: "'f f64_ops \<Rightarrow> ('d, 'f) position \<Rightarrow> price \<Rightarrow> money option" where
  "total_pnl F p last_price = do {
     unrealized \<leftarrow> unrealized_pnl F p last_price;
     case ps_realized_pnl p of
       Some realized \<Rightarrow> money_add realized unrealized
     | None \<Rightarrow> Some unrealized
   }"

definition notional_value :: "'f f64_ops \<Rightarrow> ('d, 'f) position \<Rightarrow> price \<Rightarrow> money option" where
  "notional_value F p last_price =
     (let size_f64 = quantity_as_f64 F (ps_quantity p); multiplier = quantity_as_f64 F (ps_multiplier p);
          px = price_as_f64 F last_price
      in if ps_is_inverse p then do {
           assert_that (price_is_positive last_price);
           base \<leftarrow> ps_base_currency p;
           money_new F (f64_mul F (f64_mul F size_f64 multiplier) (f64_div F (f64_of_int F 1) px)) base
         }
         else money_new F (f64_mul F (f64_mul F size_f64 px) multiplier) (ps_quote_currency p))"

definition closing_order_side :: "('d, 'f) position \<Rightarrow> order_side" where
  "closing_order_side p = (case ps_side p of Long \<Rightarrow> Sell | Short \<Rightarrow> Buy | _ \<Rightarrow> NoOrderSide)"

definition position_is_open :: "('d, 'f) position \<Rightarrow> bool" where
  "position_is_open p \<longleftrightarrow> ps_side p \<noteq> Flat \<and> ps_ts_closed p = None"

definition position_is_closed :: "('d, 'f) position \<Rightarrow> bool" where
  "position_is_closed p \<longleftrightarrow> ps_side p = Flat \<and> ps_ts_closed p \<noteq> None"

section \<open>Fills\<close>

text \<open>The commission of a fill, where it is paid in the settlement currency, as a loss.\<close>

definition commission_pnl :: "'f f64_ops \<Rightarrow> order_filled \<Rightarrow> ('d, 'f) position \<Rightarrow> 'f" where
  "commission_pnl F fill p =
     (case of_commission fill of
        Some commission \<Rightarrow>
          if currency_eq (m_currency commission) (ps_settlement_currency p) then f64_neg F (money_as_f64 F commission)
          else f64_zero F
      | None \<Rightarrow> f64_zero F)"

text \<open>A fill against the position: the average closing price, the return and the profit that it realizes.\<close>

definition close_part :: "'f f64_ops \<Rightarrow> 'f \<Rightarrow> 'f \<Rightarrow> 'f \<Rightarrow> ('d, 'f) position \<Rightarrow> 'f \<times> ('d, 'f) position" where
  "close_part F realized_pnl last_px last_qty p =
     (let avg_px_close = calculate_avg_px_close_px F p last_px last_qty;
          p = p \<lparr> ps_avg_px_close := Some avg_px_close,
                  ps_realized_return := or_zero F (calculate_return F p (ps_avg_px_open p) avg_px_close) \<rparr>
      in (f64_add F realized_pnl (or_zero F (calculate_pnl_raw F p (ps_avg_px_open p) last_px last_qty)), p))"

definition add_realized :: "'f f64_ops \<Rightarrow> 'f \<Rightarrow> ('d, 'f) position \<Rightarrow> ('d, 'f) position option" where
  "add_realized F realized_pnl p = do {
     let current_pnl = (case ps_realized_pnl p of Some m \<Rightarrow> money_as_f64 F m | None \<Rightarrow> f64_zero F);
     m \<leftarrow> money_new F (f64_add F current_pnl realized_pnl) (ps_settlement_currency p);
     Some (p \<lparr> ps_realized_pnl := Some m \<rparr>)
   }"

definition handle_buy_order_fill :: "'f f64_ops \<Rightarrow> order_filled \<Rightarrow> ('d, 'f) position \<Rightarrow> ('d, 'f) position option" where
  "handle_buy_order_fill F fill p =
     (let realized_pnl = commission_pnl F fill p;
          last_px = price_as_f64 F (of_last_px fill);
          last_qty = quantity_as_f64 F (of_last_qty fill);
          (realized_pnl, p) =
            (if f64_lt F (f64_zero F) (ps_signed_qty p)
             then (realized_pnl, p \<lparr> ps_avg_px_open := calculate_avg_px_open_px F p last_px last_qty \<rparr>)
             else if f64_lt F (ps_signed_qty p) (f64_zero F) then close_part F realized_pnl last_px last_qty p
             else (realized_pnl, p))
      in do {
        p \<leftarrow> add_realized F realized_pnl p;
        let was_short = f64_lt F (ps_signed_qty p) (f64_zero F);
        let p = p \<lparr> ps_signed_qty := f64_add F (ps_signed_qty p) last_qty \<rparr>;
        buy_qty \<leftarrow> quantity_add (ps_buy_qty p) (of_last_qty fill);
        let p = p \<lparr> ps_buy_qty := buy_qty \<rparr>;
        Some (if was_short \<and> f64_lt F (f64_zero F) (ps_signed_qty p) then p \<lparr> ps_avg_px_open := last_px \<rparr> else p)
      })"

definition handle_sell_order_fill :: "'f f64_ops \<Rightarrow> order_filled \<Rightarrow> ('d, 'f) position \<Rightarrow> ('d, 'f) position option" where
  "handle_sell_order_fill F fill p =
     (let realized_pnl = commission_pnl F fill p;
          last_px = price_as_f64 F (of_last_px fill);
          last_qty = quantity_as_f64 F (of_last_qty fill);
          (realized_pnl, p) =
            (if f64_lt F (ps_signed_qty p) (f64_zero F)
             then (realized_pnl, p \<lparr> ps_avg_px_open := calculate_avg_px_open_px F p last_px last_qty \<rparr>)
             else if f64_lt F (f64_zero F) (ps_signed_qty p) then close_part F realized_pnl last_px last_qty p
             else (realized_pnl, p))
      in do {
        p \<leftarrow> add_realized F realized_pnl p;
        let was_long = f64_lt F (f64_zero F) (ps_signed_qty p);
        let p = p \<lparr> ps_signed_qty := f64_sub F (ps_signed_qty p) last_qty \<rparr>;
        sell_qty \<leftarrow> quantity_add (ps_sell_qty p) (of_last_qty fill);
        let p = p \<lparr> ps_sell_qty := sell_qty \<rparr>;
        Some (if was_long \<and> f64_lt F (ps_signed_qty p) (f64_zero F) then p \<lparr> ps_avg_px_open := last_px \<rparr> else p)
      })"

definition update_peak :: "('d, 'f) position \<Rightarrow> ('d, 'f) position" where
  "update_peak p = (if q_raw (ps_quantity p) > q_raw (ps_peak_qty p) then p \<lparr> ps_peak_qty := ps_quantity p \<rparr> else p)"

text \<open>An adjustment changes the quantity, then the realized profit, then the side that follows from the quantity.\<close>

definition adjust_quantity ::
    "'f f64_ops \<Rightarrow> ('d, 'f) decimal_f64 \<Rightarrow> 'd position_adjusted \<Rightarrow> ('d, 'f) position \<Rightarrow> ('d, 'f) position option" where
  "adjust_quantity F E adjustment p =
     (case pa_quantity_change adjustment of
        Some quantity_change \<Rightarrow> do {
          change \<leftarrow> df_to_f64 E quantity_change;
          let p = p \<lparr> ps_signed_qty := f64_add F (ps_signed_qty p) change \<rparr>;
          q \<leftarrow> quantity_new F (f64_abs F (ps_signed_qty p)) (ps_size_precision p);
          Some (update_peak (p \<lparr> ps_quantity := q \<rparr>))
        }
      | None \<Rightarrow> Some p)"

definition adjust_pnl :: "'d position_adjusted \<Rightarrow> ('d, 'f) position \<Rightarrow> ('d, 'f) position option" where
  "adjust_pnl adjustment p =
     (case pa_pnl_change adjustment of
        Some pnl_change \<Rightarrow> do {
          m \<leftarrow> (case ps_realized_pnl p of Some current \<Rightarrow> money_add current pnl_change | None \<Rightarrow> Some pnl_change);
          Some (p \<lparr> ps_realized_pnl := Some m \<rparr>)
        }
      | None \<Rightarrow> Some p)"

definition adjust_side :: "'f f64_ops \<Rightarrow> ('d, 'f) position \<Rightarrow> ('d, 'f) position" where
  "adjust_side F p =
     (if quantity_is_zero (ps_quantity p) then p \<lparr> ps_side := Flat, ps_signed_qty := f64_zero F \<rparr>
      else if f64_lt F (f64_zero F) (ps_signed_qty p)
      then p \<lparr> ps_side := Long, ps_entry := (if ps_entry p = NoOrderSide then Buy else ps_entry p) \<rparr>
      else p \<lparr> ps_side := Short, ps_entry := (if ps_entry p = NoOrderSide then Sell else ps_entry p) \<rparr>)"

definition apply_adjustment ::
    "'f f64_ops \<Rightarrow> ('d, 'f) decimal_f64 \<Rightarrow> 'd position_adjusted \<Rightarrow> ('d, 'f) position \<Rightarrow> ('d, 'f) position option" where
  "apply_adjustment F E adjustment p = do {
     p \<leftarrow> adjust_quantity F E adjustment p;
     p \<leftarrow> adjust_pnl adjustment p;
     let p = adjust_side F p;
     Some (p \<lparr> ps_adjustments := ps_adjustments p @ [adjustment], ps_ts_last := pa_ts_event adjustment \<rparr>)
   }"

text \<open>The parts of \<open>apply\<close> in their order: reopening a flat position, the commissions, the two handlers, the adjustment
  for a commission in the base currency, and the state that follows from the quantity.\<close>

definition reopen :: "'f f64_ops \<Rightarrow> order_filled \<Rightarrow> ('d, 'f) position \<Rightarrow> ('d, 'f) position option" where
  "reopen F fill p =
     (if ps_side p = Flat then do {
        zero \<leftarrow> quantity_zero (ps_size_precision p);
        Some (p \<lparr> ps_events := [], ps_trade_ids := {}, ps_adjustments := [], ps_buy_qty := zero, ps_sell_qty := zero,
                  ps_commissions := [], ps_opening_order_id := ev_client_order_id fill, ps_closing_order_id := None,
                  ps_peak_qty := zero, ps_ts_init := ev_ts_init fill, ps_ts_opened := ev_ts_event fill,
                  ps_ts_closed := None, ps_duration_ns := 0, ps_avg_px_open := price_as_f64 F (of_last_px fill),
                  ps_avg_px_close := None, ps_realized_return := f64_zero F, ps_realized_pnl := None \<rparr>)
      }
      else Some p)"

definition add_commission :: "order_filled \<Rightarrow> ('d, 'f) position \<Rightarrow> ('d, 'f) position option" where
  "add_commission fill p =
     (case of_commission fill of
        None \<Rightarrow> Some p
      | Some commission \<Rightarrow> do {
          let code = c_code (m_currency commission);
          m \<leftarrow> (case im_get (ps_commissions p) code of
                  Some existing \<Rightarrow> money_add existing commission
                | None \<Rightarrow> Some commission);
          Some (p \<lparr> ps_commissions := im_insert code m (ps_commissions p) \<rparr>)
        })"

definition base_commission ::
    "'f f64_ops \<Rightarrow> ('d, 'f) decimal_f64 \<Rightarrow> order_filled \<Rightarrow> ('d, 'f) position \<Rightarrow> ('d, 'f) position option" where
  "base_commission F E fill p =
     (case (of_commission fill, ps_base_currency p) of
        (Some commission, Some base) \<Rightarrow>
          if ps_is_currency_pair p \<and> currency_eq (m_currency commission) base
          then apply_adjustment F E
                 \<lparr> pa_trader_id = ps_trader_id p, pa_strategy_id = ps_strategy_id p, pa_instrument_id = ps_instrument_id p,
                   pa_position_id = ps_id p, pa_account_id = ps_account_id p, pa_adjustment_type = Commission,
                   pa_quantity_change = Some (df_neg E (money_as_decimal (df_api E) commission)), pa_pnl_change = None,
                   pa_reason = Some (ev_client_order_id fill), pa_ts_event = ev_ts_event fill, pa_ts_init = ev_ts_init fill \<rparr> p
          else Some p
      | _ \<Rightarrow> Some p)"

definition settle :: "'f f64_ops \<Rightarrow> order_filled \<Rightarrow> ('d, 'f) position \<Rightarrow> ('d, 'f) position" where
  "settle F fill p =
     (if quantity_is_zero (ps_quantity p)
      then p \<lparr> ps_side := Flat, ps_signed_qty := f64_zero F, ps_closing_order_id := Some (ev_client_order_id fill),
               ps_ts_closed := Some (ev_ts_event fill), ps_duration_ns := u64_wrapping_sub (ev_ts_event fill) (ps_ts_opened p) \<rparr>
      else if f64_lt F (f64_zero F) (ps_signed_qty p) then p \<lparr> ps_entry := Buy, ps_side := Long \<rparr>
      else p \<lparr> ps_entry := Sell, ps_side := Short \<rparr>)"

definition position_apply ::
    "'f f64_ops \<Rightarrow> ('d, 'f) decimal_f64 \<Rightarrow> order_filled \<Rightarrow> ('d, 'f) position \<Rightarrow> ('d, 'f) position option" where
  "position_apply F E fill p = do {
     assert_that (of_trade_id fill \<notin> ps_trade_ids p);
     p \<leftarrow> reopen F fill p;
     let p = p \<lparr> ps_events := ps_events p @ [fill], ps_trade_ids := insert (of_trade_id fill) (ps_trade_ids p) \<rparr>;
     p \<leftarrow> add_commission fill p;
     side \<leftarrow> as_specified (of_order_side fill);
     p \<leftarrow> (case side of BuySide \<Rightarrow> handle_buy_order_fill F fill p | SellSide \<Rightarrow> handle_sell_order_fill F fill p);
     p \<leftarrow> base_commission F E fill p;
     q \<leftarrow> quantity_new F (f64_abs F (ps_signed_qty p)) (ps_size_precision p);
     let p = update_peak (p \<lparr> ps_quantity := q \<rparr>);
     Some ((settle F fill p) \<lparr> ps_ts_last := ev_ts_event fill \<rparr>)
   }"

text \<open>The position that \<open>new\<close> builds before it applies the first fill.\<close>

definition position_start ::
    "'f f64_ops \<Rightarrow> instrument \<Rightarrow> order_filled \<Rightarrow> string \<Rightarrow> quantity \<Rightarrow> currency \<Rightarrow> ('d, 'f) position" where
  "position_start F i fill position_id zero settlement =
     \<lparr> ps_events = [], ps_adjustments = [], ps_trader_id = ev_trader_id fill, ps_strategy_id = ev_strategy_id fill,
       ps_instrument_id = ev_instrument_id fill, ps_id = position_id, ps_account_id = of_account_id fill,
       ps_opening_order_id = ev_client_order_id fill, ps_closing_order_id = None, ps_entry = of_order_side fill,
       ps_side = Flat, ps_signed_qty = f64_zero F, ps_quantity = of_last_qty fill, ps_peak_qty = of_last_qty fill,
       ps_price_precision = in_price_precision i, ps_size_precision = in_size_precision i,
       ps_multiplier = in_multiplier i, ps_is_inverse = in_is_inverse i, ps_is_currency_pair = in_is_currency_pair i,
       ps_instrument_class = in_instrument_class i, ps_base_currency = in_base_currency i,
       ps_quote_currency = in_quote_currency i, ps_settlement_currency = settlement,
       ps_ts_init = ev_ts_init fill, ps_ts_opened = ev_ts_event fill, ps_ts_last = ev_ts_event fill, ps_ts_closed = None,
       ps_duration_ns = 0, ps_avg_px_open = price_as_f64 F (of_last_px fill), ps_avg_px_close = None,
       ps_realized_return = f64_zero F, ps_realized_pnl = None, ps_trade_ids = {}, ps_buy_qty = zero, ps_sell_qty = zero,
       ps_commissions = [] \<rparr>"

definition position_new ::
    "'f f64_ops \<Rightarrow> ('d, 'f) decimal_f64 \<Rightarrow> instrument \<Rightarrow> order_filled \<Rightarrow> ('d, 'f) position option" where
  "position_new F E i fill = do {
     assert_that (in_id i = ev_instrument_id fill);
     assert_that (of_order_side fill \<noteq> NoOrderSide);
     position_id \<leftarrow> of_position_id fill;
     zero \<leftarrow> quantity_zero (in_size_precision i);
     settlement \<leftarrow> cost_currency i;
     position_apply F E fill (position_start F i fill position_id zero settlement)
   }"

section \<open>Purging an order\<close>

fun apply_fills ::
    "'f f64_ops \<Rightarrow> ('d, 'f) decimal_f64 \<Rightarrow> order_filled list \<Rightarrow> ('d, 'f) position \<Rightarrow> ('d, 'f) position option" where
  "apply_fills F E [] p = Some p"
| "apply_fills F E (fill # fills) p = do { p \<leftarrow> position_apply F E fill p; apply_fills F E fills p }"

fun apply_adjustments ::
    "'f f64_ops \<Rightarrow> ('d, 'f) decimal_f64 \<Rightarrow> 'd position_adjusted list \<Rightarrow> ('d, 'f) position \<Rightarrow> ('d, 'f) position option" where
  "apply_adjustments F E [] p = Some p"
| "apply_adjustments F E (a # as) p = do { p \<leftarrow> apply_adjustment F E a p; apply_adjustments F E as p }"

definition purge_events_for_order ::
    "'f f64_ops \<Rightarrow> ('d, 'f) decimal_f64 \<Rightarrow> string \<Rightarrow> ('d, 'f) position \<Rightarrow> ('d, 'f) position option" where
  "purge_events_for_order F E client_order_id p = do {
     let filtered_events = filter (\<lambda>e. ev_client_order_id e \<noteq> client_order_id) (ps_events p);
     let preserved_adjustments = filter (\<lambda>a. pa_adjustment_type a \<noteq> Commission) (ps_adjustments p);
     zero \<leftarrow> quantity_zero (ps_size_precision p);
     case filtered_events of
       [] \<Rightarrow> Some (p \<lparr> ps_events := [], ps_trade_ids := {}, ps_adjustments := [], ps_buy_qty := zero, ps_sell_qty := zero,
               ps_commissions := [], ps_signed_qty := f64_zero F, ps_quantity := zero, ps_side := Flat, ps_avg_px_close := None,
               ps_realized_pnl := None, ps_realized_return := f64_zero F, ps_ts_opened := 0, ps_ts_last := 0,
               ps_ts_closed := Some 0, ps_duration_ns := 0 \<rparr>)
     | first_event # _ \<Rightarrow> do {
         let p = p \<lparr> ps_events := [], ps_trade_ids := {}, ps_adjustments := [], ps_buy_qty := zero, ps_sell_qty := zero,
               ps_commissions := [], ps_signed_qty := f64_zero F, ps_quantity := zero, ps_peak_qty := zero, ps_side := Flat,
               ps_avg_px_open := f64_zero F, ps_avg_px_close := None, ps_realized_pnl := None, ps_realized_return := f64_zero F,
               ps_entry := of_order_side first_event, ps_opening_order_id := ev_client_order_id first_event,
               ps_ts_opened := ev_ts_event first_event, ps_ts_init := ev_ts_init first_event, ps_closing_order_id := None,
               ps_ts_closed := None, ps_duration_ns := 0 \<rparr>;
         p \<leftarrow> apply_fills F E filtered_events p;
         apply_adjustments F E preserved_adjustments p
       }
   }"

end
