(* ===== verification/Position_Replay.thy ===== *)
theory Position_Replay
  imports Position
begin

text \<open>
  The positions that fills can reach, and that an open position is determined by the fills it keeps: replaying
  them, as purging an order does, gives the position back.
\<close>

inductive position_reach ::
    "'f f64_ops \<Rightarrow> ('d, 'f) decimal_f64 \<Rightarrow> instrument \<Rightarrow> (order_filled \<Rightarrow> bool) \<Rightarrow> ('d, 'f) position \<Rightarrow> bool" for F E i ok where
  reach_open: "ok fill \<Longrightarrow> position_new F E i fill = Some p \<Longrightarrow> position_reach F E i ok p"
| reach_fill: "position_reach F E i ok p \<Longrightarrow> ok fill \<Longrightarrow> position_apply F E fill p = Some p' \<Longrightarrow> position_reach F E i ok p'"

text \<open>The part of a position that no fill changes, and the part that the first fill of a flat position does not read.\<close>

definition terms ::
    "('d, 'f) position \<Rightarrow> (string \<times> string \<times> string \<times> string \<times> string) \<times> (nat \<times> nat \<times> quantity) \<times>
       (bool \<times> bool \<times> instrument_class) \<times> currency option \<times> currency \<times> currency" where
  "terms p = ((ps_trader_id p, ps_strategy_id p, ps_instrument_id p, ps_id p, ps_account_id p),
     (ps_price_precision p, ps_size_precision p, ps_multiplier p), (ps_is_inverse p, ps_is_currency_pair p, ps_instrument_class p),
     ps_base_currency p, ps_quote_currency p, ps_settlement_currency p)"

definition tweak :: "order_side \<Rightarrow> quantity \<Rightarrow> nat \<Rightarrow> ('d, 'f) position \<Rightarrow> ('d, 'f) position" where
  "tweak e q t p = p \<lparr> ps_entry := e, ps_quantity := q, ps_ts_last := t \<rparr>"

definition flat_start :: "'f f64_ops \<Rightarrow> ('d, 'f) position \<Rightarrow> bool" where
  "flat_start F p \<longleftrightarrow> ps_side p = Flat \<and> ps_signed_qty p = f64_zero F"

text \<open>A position that is open is what its fills make of any flat position with the same terms.\<close>

definition replays :: "'f f64_ops \<Rightarrow> ('d, 'f) decimal_f64 \<Rightarrow> ('d, 'f) position \<Rightarrow> bool" where
  "replays F E p \<longleftrightarrow> ps_size_precision p \<le> FIXED_PRECISION \<and> ps_events p \<noteq> [] \<and>
     (\<forall>a \<in> set (ps_adjustments p). pa_adjustment_type a = Commission) \<and> (ps_side p = Flat \<longrightarrow> ps_signed_qty p = f64_zero F) \<and>
     (ps_side p \<noteq> Flat \<longrightarrow> (\<forall>p0. flat_start F p0 \<and> terms p0 = terms p \<and> ps_trade_ids p0 = {} \<longrightarrow> apply_fills F E (ps_events p) p0 = Some p))"

section \<open>What the parts of apply change\<close>

lemma terms_update [simp]:
  "terms (p \<lparr> ps_events := x0 \<rparr>) = terms p"
  "terms (p \<lparr> ps_adjustments := x1 \<rparr>) = terms p"
  "terms (p \<lparr> ps_opening_order_id := x2 \<rparr>) = terms p"
  "terms (p \<lparr> ps_closing_order_id := x3 \<rparr>) = terms p"
  "terms (p \<lparr> ps_entry := x4 \<rparr>) = terms p"
  "terms (p \<lparr> ps_side := x5 \<rparr>) = terms p"
  "terms (p \<lparr> ps_signed_qty := x6 \<rparr>) = terms p"
  "terms (p \<lparr> ps_quantity := x7 \<rparr>) = terms p"
  "terms (p \<lparr> ps_peak_qty := x8 \<rparr>) = terms p"
  "terms (p \<lparr> ps_ts_init := x9 \<rparr>) = terms p"
  "terms (p \<lparr> ps_ts_opened := x10 \<rparr>) = terms p"
  "terms (p \<lparr> ps_ts_last := x11 \<rparr>) = terms p"
  "terms (p \<lparr> ps_ts_closed := x12 \<rparr>) = terms p"
  "terms (p \<lparr> ps_duration_ns := x13 \<rparr>) = terms p"
  "terms (p \<lparr> ps_avg_px_open := x14 \<rparr>) = terms p"
  "terms (p \<lparr> ps_avg_px_close := x15 \<rparr>) = terms p"
  "terms (p \<lparr> ps_realized_return := x16 \<rparr>) = terms p"
  "terms (p \<lparr> ps_realized_pnl := x17 \<rparr>) = terms p"
  "terms (p \<lparr> ps_trade_ids := x18 \<rparr>) = terms p"
  "terms (p \<lparr> ps_buy_qty := x19 \<rparr>) = terms p"
  "terms (p \<lparr> ps_sell_qty := x20 \<rparr>) = terms p"
  "terms (p \<lparr> ps_commissions := x21 \<rparr>) = terms p"
  by (simp_all add: terms_def)

lemma reopen_terms: "reopen F fill p = Some p' \<Longrightarrow> terms p' = terms p"
  by (auto simp: reopen_def split: if_splits bind_splits)

lemma add_commission_terms:
  "add_commission fill p = Some p' \<Longrightarrow> terms p' = terms p \<and> ps_side p' = ps_side p \<and> ps_events p' = ps_events p \<and>
     ps_adjustments p' = ps_adjustments p \<and> ps_trade_ids p' = ps_trade_ids p"
  by (auto simp: add_commission_def Let_def split: option.splits bind_splits)

lemma handle_terms:
  "handle_buy_order_fill F fill p = Some p' \<or> handle_sell_order_fill F fill p = Some p' \<Longrightarrow>
     terms p' = terms p \<and> ps_events p' = ps_events p \<and> ps_adjustments p' = ps_adjustments p \<and> ps_trade_ids p' = ps_trade_ids p"
  by (auto simp: handle_buy_order_fill_def handle_sell_order_fill_def add_realized_def close_part_def Let_def
      split: if_splits bind_splits)

lemma adjust_quantity_terms:
  "adjust_quantity F E a p = Some p' \<Longrightarrow> terms p' = terms p \<and> ps_events p' = ps_events p \<and> ps_trade_ids p' = ps_trade_ids p \<and>
     ps_adjustments p' = ps_adjustments p"
  by (auto simp: adjust_quantity_def update_peak_def Let_def split: if_splits bind_splits option.splits)

lemma adjust_pnl_terms:
  "adjust_pnl a p = Some p' \<Longrightarrow> terms p' = terms p \<and> ps_events p' = ps_events p \<and> ps_trade_ids p' = ps_trade_ids p \<and>
     ps_adjustments p' = ps_adjustments p"
  by (auto simp: adjust_pnl_def split: bind_splits option.splits)

lemma adjust_side_terms:
  "terms (adjust_side F p) = terms p" "ps_events (adjust_side F p) = ps_events p" "ps_trade_ids (adjust_side F p) = ps_trade_ids p"
  "ps_adjustments (adjust_side F p) = ps_adjustments p"
  by (simp_all add: adjust_side_def)

lemma apply_adjustment_terms:
  "apply_adjustment F E a p = Some p' \<Longrightarrow> terms p' = terms p \<and> ps_events p' = ps_events p \<and> ps_trade_ids p' = ps_trade_ids p \<and>
     ps_adjustments p' = ps_adjustments p @ [a]"
  by (auto simp: apply_adjustment_def adjust_side_terms dest!: adjust_quantity_terms adjust_pnl_terms split: bind_splits)

lemma base_commission_terms:
  "base_commission F E fill p = Some p' \<Longrightarrow> terms p' = terms p \<and> ps_events p' = ps_events p \<and> ps_trade_ids p' = ps_trade_ids p \<and>
     (ps_adjustments p' = ps_adjustments p \<or> (\<exists>a. ps_adjustments p' = ps_adjustments p @ [a] \<and> pa_adjustment_type a = Commission))"
  by (auto simp: base_commission_def dest!: apply_adjustment_terms split: if_splits option.splits)

lemma settle_terms:
  "terms (settle F fill (update_peak p)) = terms p" "ps_events (settle F fill (update_peak p)) = ps_events p"
  "ps_adjustments (settle F fill (update_peak p)) = ps_adjustments p" "ps_trade_ids (settle F fill (update_peak p)) = ps_trade_ids p"
  by (simp_all add: settle_def update_peak_def)

lemma apply_cases:
  assumes "position_apply F E fill p = Some p'"
  obtains p1 p2 p3 p4 q side where "of_trade_id fill \<notin> ps_trade_ids p" "reopen F fill p = Some p1"
    "add_commission fill (p1 \<lparr> ps_events := ps_events p1 @ [fill], ps_trade_ids := insert (of_trade_id fill) (ps_trade_ids p1) \<rparr>) = Some p2"
    "as_specified (of_order_side fill) = Some side"
    "(case side of BuySide \<Rightarrow> handle_buy_order_fill F fill p2 | SellSide \<Rightarrow> handle_sell_order_fill F fill p2) = Some p3"
    "base_commission F E fill p3 = Some p4" "quantity_new F (f64_abs F (ps_signed_qty p4)) (ps_size_precision p4) = Some q"
    "p' = (settle F fill (update_peak (p4 \<lparr> ps_quantity := q \<rparr>))) \<lparr> ps_ts_last := ev_ts_event fill \<rparr>"
  using assms by (auto simp: position_apply_def assert_that_def Let_def split: bind_splits if_splits)

lemma new_cases:
  assumes "position_new F E i fill = Some p"
  obtains pid zero c where "of_position_id fill = Some pid" "quantity_zero (in_size_precision i) = Some zero" "cost_currency i = Some c"
    "position_apply F E fill (position_start F i fill pid zero c) = Some p"
  using assms by (auto simp: position_new_def assert_that_def split: bind_splits if_splits)

lemma apply_facts:
  assumes "position_apply F E fill p = Some p'"
  shows "terms p' = terms p" and "ps_events p' = (if ps_side p = Flat then [fill] else ps_events p @ [fill])"
    and "ps_side p' = Flat \<Longrightarrow> ps_signed_qty p' = f64_zero F"
    and "\<forall>a \<in> set (ps_adjustments p). pa_adjustment_type a = Commission \<Longrightarrow> \<forall>a \<in> set (ps_adjustments p'). pa_adjustment_type a = Commission"
    and "of_trade_id fill \<notin> ps_trade_ids p"
    and "ps_trade_ids p' = (if ps_side p = Flat then {of_trade_id fill} else insert (of_trade_id fill) (ps_trade_ids p))"
    and "ps_side p = Flat \<Longrightarrow> ps_size_precision p \<le> FIXED_PRECISION"
proof -
  obtain p1 p2 p3 p4 q side where st: "of_trade_id fill \<notin> ps_trade_ids p" "reopen F fill p = Some p1"
    "add_commission fill (p1 \<lparr> ps_events := ps_events p1 @ [fill], ps_trade_ids := insert (of_trade_id fill) (ps_trade_ids p1) \<rparr>) = Some p2"
    "(case side of BuySide \<Rightarrow> handle_buy_order_fill F fill p2 | SellSide \<Rightarrow> handle_sell_order_fill F fill p2) = Some p3"
    "base_commission F E fill p3 = Some p4"
    "p' = (settle F fill (update_peak (p4 \<lparr> ps_quantity := q \<rparr>))) \<lparr> ps_ts_last := ev_ts_event fill \<rparr>"
    using assms by (rule apply_cases) blast
  have r: "ps_events p1 = (if ps_side p = Flat then [] else ps_events p)" "ps_trade_ids p1 = (if ps_side p = Flat then {} else ps_trade_ids p)"
    "set (ps_adjustments p1) \<subseteq> set (ps_adjustments p)" "ps_side p = Flat \<Longrightarrow> ps_size_precision p \<le> FIXED_PRECISION"
    using st(2) by (auto simp: reopen_def quantity_zero_def check_fixed_precision_def split: if_splits bind_splits)
  have h: "handle_buy_order_fill F fill p2 = Some p3 \<or> handle_sell_order_fill F fill p2 = Some p3"
    using st(4) by (cases side) auto
  note parts = reopen_terms [OF st(2)] add_commission_terms [OF st(3)] handle_terms [OF h] base_commission_terms [OF st(5)]
  show "terms p' = terms p" "ps_events p' = (if ps_side p = Flat then [fill] else ps_events p @ [fill])"
    "of_trade_id fill \<notin> ps_trade_ids p"
    "ps_trade_ids p' = (if ps_side p = Flat then {of_trade_id fill} else insert (of_trade_id fill) (ps_trade_ids p))"
    using parts r(1,2) st(1) by (simp_all add: st(6) settle_terms)
  show "ps_side p' = Flat \<Longrightarrow> ps_signed_qty p' = f64_zero F"
    by (auto simp: st(6) settle_def split: if_splits)
  show "\<forall>a \<in> set (ps_adjustments p). pa_adjustment_type a = Commission \<Longrightarrow> \<forall>a \<in> set (ps_adjustments p'). pa_adjustment_type a = Commission"
    using parts r(3) by (auto simp: st(6) settle_terms)
  show "ps_side p = Flat \<Longrightarrow> ps_size_precision p \<le> FIXED_PRECISION" by (rule r(4))
qed

section \<open>The first fill of a cycle\<close>

lemma tweak_simps [simp]:
  "ps_signed_qty (tweak e q t p) = ps_signed_qty p" "ps_size_precision (tweak e q t p) = ps_size_precision p"
  "ps_events (tweak e q t p) = ps_events p" "ps_trade_ids (tweak e q t p) = ps_trade_ids p" "ps_side (tweak e q t p) = ps_side p"
  by (simp_all add: tweak_def)

lemma tweak_add_commission: "add_commission fill (tweak e q t p) = map_option (tweak e q t) (add_commission fill p)"
  by (simp add: add_commission_def tweak_def Let_def split: option.splits bind_splits)

lemma tweak_handle:
  assumes "\<not> f64_lt F (f64_zero F) (f64_zero F)" and "ps_signed_qty p = f64_zero F"
  shows "handle_buy_order_fill F fill (tweak e q t p) = map_option (tweak e q t) (handle_buy_order_fill F fill p)"
    and "handle_sell_order_fill F fill (tweak e q t p) = map_option (tweak e q t) (handle_sell_order_fill F fill p)"
  using assms by (auto simp: handle_buy_order_fill_def handle_sell_order_fill_def commission_pnl_def add_realized_def tweak_def Let_def
      split: bind_splits option.splits)

text \<open>An adjustment of the quantity overwrites the quantity and the time.\<close>

lemma tweak_adjust_quantity:
  "pa_quantity_change a = Some d \<Longrightarrow> adjust_quantity F E a (tweak e q t p)
     = map_option (\<lambda>r. r \<lparr> ps_entry := e, ps_ts_last := t \<rparr>) (adjust_quantity F E a p)"
  by (simp add: adjust_quantity_def tweak_def update_peak_def Let_def split: bind_splits)

lemma tweak_adjust_pnl:
  "adjust_pnl a (p \<lparr> ps_entry := e, ps_ts_last := t \<rparr>) = map_option (\<lambda>r. r \<lparr> ps_entry := e, ps_ts_last := t \<rparr>) (adjust_pnl a p)"
  by (simp add: adjust_pnl_def split: bind_splits option.splits)

lemma tweak_adjust_side:
  "\<exists>e'. adjust_side F (p \<lparr> ps_entry := e, ps_ts_last := t \<rparr>) = (adjust_side F p) \<lparr> ps_entry := e', ps_ts_last := t \<rparr>"
proof -
  have "adjust_side F (p \<lparr> ps_entry := e, ps_ts_last := t \<rparr>)
    = (adjust_side F p) \<lparr> ps_entry := ps_entry (adjust_side F (p \<lparr> ps_entry := e, ps_ts_last := t \<rparr>)), ps_ts_last := t \<rparr>"
    by (simp add: adjust_side_def)
  then show ?thesis by blast
qed

lemma tweak_adjustment:
  assumes "pa_quantity_change a = Some d"
  shows "apply_adjustment F E a p = None \<Longrightarrow> apply_adjustment F E a (tweak e q t p) = None"
    and "apply_adjustment F E a p = Some r \<Longrightarrow> \<exists>e'. apply_adjustment F E a (tweak e q t p) = Some (r \<lparr> ps_entry := e' \<rparr>)"
proof -
  show "apply_adjustment F E a p = None \<Longrightarrow> apply_adjustment F E a (tweak e q t p) = None"
    by (auto simp: apply_adjustment_def tweak_adjust_quantity [OF assms] tweak_adjust_pnl Let_def split: bind_splits)
  assume "apply_adjustment F E a p = Some r"
  then obtain p1 p2 where p: "adjust_quantity F E a p = Some p1" "adjust_pnl a p1 = Some p2"
    and r: "r = (adjust_side F p2) \<lparr> ps_adjustments := ps_adjustments (adjust_side F p2) @ [a], ps_ts_last := pa_ts_event a \<rparr>"
    by (auto simp: apply_adjustment_def Let_def split: bind_splits)
  obtain e' where "adjust_side F (p2 \<lparr> ps_entry := e, ps_ts_last := t \<rparr>) = (adjust_side F p2) \<lparr> ps_entry := e', ps_ts_last := t \<rparr>"
    using tweak_adjust_side by blast
  then have "apply_adjustment F E a (tweak e q t p) = Some (r \<lparr> ps_entry := e' \<rparr>)"
    using p r by (simp add: apply_adjustment_def tweak_adjust_quantity [OF assms] tweak_adjust_pnl)
  then show "\<exists>e'. apply_adjustment F E a (tweak e q t p) = Some (r \<lparr> ps_entry := e' \<rparr>)" by blast
qed

lemma tweak_base_commission:
  assumes "base_commission F E fill p = Some r"
  shows "\<exists>e' q' t'. base_commission F E fill (tweak e q t p) = Some (tweak e' q' t' r)"
proof -
  have as_tweak: "r \<lparr> ps_entry := e' \<rparr> = tweak e' (ps_quantity r) (ps_ts_last r) r" for e' by (simp add: tweak_def)
  show ?thesis
  proof (cases "\<exists>commission base. of_commission fill = Some commission \<and> ps_base_currency p = Some base \<and>
      ps_is_currency_pair p \<and> currency_eq (m_currency commission) base")
    case True
    then obtain commission where c: "of_commission fill = Some commission" by blast
    let ?a = "\<lparr> pa_trader_id = ps_trader_id p, pa_strategy_id = ps_strategy_id p, pa_instrument_id = ps_instrument_id p,
      pa_position_id = ps_id p, pa_account_id = ps_account_id p, pa_adjustment_type = Commission,
      pa_quantity_change = Some (df_neg E (money_as_decimal (df_api E) commission)), pa_pnl_change = None,
      pa_reason = Some (ev_client_order_id fill), pa_ts_event = ev_ts_event fill, pa_ts_init = ev_ts_init fill \<rparr>"
    have eq: "base_commission F E fill p = apply_adjustment F E ?a p"
      "base_commission F E fill (tweak e q t p) = apply_adjustment F E ?a (tweak e q t p)"
      using True c by (auto simp: base_commission_def tweak_def)
    then have "\<exists>e'. apply_adjustment F E ?a (tweak e q t p) = Some (r \<lparr> ps_entry := e' \<rparr>)"
      using assms by (intro tweak_adjustment(2)) auto
    then show ?thesis unfolding eq as_tweak by blast
  next
    case False
    then have "base_commission F E fill p = Some p" "base_commission F E fill (tweak e q t p) = Some (tweak e q t p)"
      by (auto simp: base_commission_def tweak_def split: option.splits)
    then show ?thesis using assms by auto
  qed
qed

lemma tweak_settle:
  assumes "ps_side (settle F fill (update_peak (r \<lparr> ps_quantity := q' \<rparr>))) \<noteq> Flat"
  shows "(settle F fill (update_peak ((tweak e q t r) \<lparr> ps_quantity := q' \<rparr>))) \<lparr> ps_ts_last := u \<rparr>
    = (settle F fill (update_peak (r \<lparr> ps_quantity := q' \<rparr>))) \<lparr> ps_ts_last := u \<rparr>"
proof -
  let ?r = "update_peak (r \<lparr> ps_quantity := q' \<rparr>)"
  have "update_peak ((tweak e q t r) \<lparr> ps_quantity := q' \<rparr>) = ?r \<lparr> ps_entry := e, ps_ts_last := t \<rparr>"
    by (simp add: update_peak_def tweak_def)
  moreover have "(settle F fill (x \<lparr> ps_entry := e, ps_ts_last := t \<rparr>)) \<lparr> ps_ts_last := u \<rparr> = (settle F fill x) \<lparr> ps_ts_last := u \<rparr>"
    if "ps_side (settle F fill x) \<noteq> Flat" for x :: "('a, 'b) position"
    using that by (simp add: settle_def split: if_split_asm)
  ultimately show ?thesis using assms by simp
qed

text \<open>What is left of the old state when a flat position is reopened.\<close>

lemma reopen_flat:
  assumes "flat_start F p" and "flat_start F p0" and "terms p0 = terms p" and "reopen F fill p = Some p1"
  shows "\<exists>e q t. reopen F fill p0 = Some (tweak e q t p1)"
proof -
  have "reopen F fill p0 = Some (tweak (ps_entry p0) (ps_quantity p0) (ps_ts_last p0) p1)"
    using assms by (cases p; cases p0) (auto simp: reopen_def flat_start_def terms_def tweak_def split: bind_splits)
  then show ?thesis by blast
qed

lemma first_fill:
  assumes lt: "\<not> f64_lt F (f64_zero F) (f64_zero F)" and ap: "position_apply F E fill p = Some p'" and flat: "flat_start F p"
    "flat_start F p0" "terms p0 = terms p" and new: "of_trade_id fill \<notin> ps_trade_ids p0" and "ps_side p' \<noteq> Flat"
  shows "position_apply F E fill p0 = Some p'"
proof -
  let ?log = "\<lambda>p. p \<lparr> ps_events := ps_events p @ [fill], ps_trade_ids := insert (of_trade_id fill) (ps_trade_ids p) \<rparr>"
  obtain p1 p2 p3 p4 q side where st: "reopen F fill p = Some p1" "add_commission fill (?log p1) = Some p2"
    "as_specified (of_order_side fill) = Some side"
    "(case side of BuySide \<Rightarrow> handle_buy_order_fill F fill p2 | SellSide \<Rightarrow> handle_sell_order_fill F fill p2) = Some p3"
    "base_commission F E fill p3 = Some p4" "quantity_new F (f64_abs F (ps_signed_qty p4)) (ps_size_precision p4) = Some q"
    "p' = (settle F fill (update_peak (p4 \<lparr> ps_quantity := q \<rparr>))) \<lparr> ps_ts_last := ev_ts_event fill \<rparr>"
    using ap by (rule apply_cases) blast
  obtain e qq t where re: "reopen F fill p0 = Some (tweak e qq t p1)" using reopen_flat [OF flat st(1)] by blast
  have "(tweak e qq t p1) \<lparr> ps_events := ps_events p1 @ [fill], ps_trade_ids := insert (of_trade_id fill) (ps_trade_ids p1) \<rparr>
      = tweak e qq t (?log p1)"
    by (simp add: tweak_def)
  then have log: "add_commission fill ((tweak e qq t p1) \<lparr> ps_events := ps_events p1 @ [fill],
      ps_trade_ids := insert (of_trade_id fill) (ps_trade_ids p1) \<rparr>) = Some (tweak e qq t p2)"
    using st(2) by (simp add: tweak_add_commission)
  have "ps_signed_qty p1 = f64_zero F" using st(1) flat(1) by (auto simp: reopen_def flat_start_def split: bind_splits)
  then have "ps_signed_qty p2 = f64_zero F" using st(2) by (auto simp: add_commission_def Let_def split: option.splits bind_splits)
  note handle = tweak_handle [OF lt this]
  obtain e' q' t' where base: "base_commission F E fill (tweak e qq t p3) = Some (tweak e' q' t' p4)"
    using tweak_base_commission [OF st(5)] by blast
  have "ps_side (settle F fill (update_peak (p4 \<lparr> ps_quantity := q \<rparr>))) \<noteq> Flat" using assms(7) st(7) by simp
  note settle = tweak_settle [OF this, where e = e' and q = q' and t = t' and u = "ev_ts_event fill"]
  have "(case side of BuySide \<Rightarrow> handle_buy_order_fill F fill (tweak e qq t p2) | SellSide \<Rightarrow> handle_sell_order_fill F fill (tweak e qq t p2))
      = Some (tweak e qq t p3)"
    using st(4) by (cases side) (simp_all add: handle)
  then show ?thesis
    using new re st(3,6) base settle by (simp add: position_apply_def log st(7))
qed

section \<open>Replay\<close>

lemma apply_fills_append: "apply_fills F E (xs @ ys) p = do { p \<leftarrow> apply_fills F E xs p; apply_fills F E ys p }"
  by (induction xs arbitrary: p) (simp_all split: bind_splits)

lemma replays_apply:
  assumes lt: "\<not> f64_lt F (f64_zero F) (f64_zero F)" and ap: "position_apply F E fill p = Some p'"
    and "flat_start F p \<and> (\<forall>a \<in> set (ps_adjustments p). pa_adjustment_type a = Commission) \<or> replays F E p"
  shows "replays F E p'"
proof -
  note f = apply_facts [OF ap]
  have prec: "ps_size_precision p' = ps_size_precision p" using f(1) by (simp add: terms_def)
  show ?thesis
  proof (cases "ps_side p = Flat")
    case True
    then have flat: "flat_start F p" "\<forall>a \<in> set (ps_adjustments p). pa_adjustment_type a = Commission"
      using assms(3) by (auto simp: flat_start_def replays_def)
    have "apply_fills F E (ps_events p') p0 = Some p'"
      if "ps_side p' \<noteq> Flat" "flat_start F p0" "terms p0 = terms p'" "ps_trade_ids p0 = {}" for p0
      using first_fill [OF lt ap flat(1) that(2)] that f(1,2) True by simp
    then show ?thesis using f(2,3) f(4) [OF flat(2)] f(7) [OF True] prec True by (simp add: replays_def)
  next
    case False
    then have re: "replays F E p" using assms(3) by (auto simp: flat_start_def)
    have "apply_fills F E (ps_events p') p0 = Some p'"
      if "flat_start F p0" "terms p0 = terms p'" "ps_trade_ids p0 = {}" for p0
      using re False that f(1,2) ap by (simp add: replays_def apply_fills_append)
    then show ?thesis using re f(2,3,4) prec False by (simp add: replays_def)
  qed
qed

lemma reach_replays:
  assumes "\<not> f64_lt F (f64_zero F) (f64_zero F)"
  shows "position_reach F E i ok p \<Longrightarrow> replays F E p"
proof (induction rule: position_reach.induct)
  case (reach_open fill p)
  then obtain pid zero c where p: "position_apply F E fill (position_start F i fill pid zero c) = Some p" by (auto elim: new_cases)
  show ?case by (rule replays_apply [OF assms p]) (simp add: flat_start_def position_start_def)
next
  case (reach_fill p fill p')
  then show ?case using replays_apply [OF assms] by blast
qed

end
