(* ===== verification/Position_Accounting.thy ===== *)
theory Position_Accounting
  imports Position_Replay
begin

text \<open>
  Positions in exact arithmetic: the quantities, the value and the realized profit of a position as sums over its
  fills, and that every fill keeps them.
\<close>

definition fill_raw :: "order_filled \<Rightarrow> int" where
  "fill_raw fill = (if of_order_side fill = Buy then int (q_raw (of_last_qty fill)) else - int (q_raw (of_last_qty fill)))"

definition net_raw :: "order_filled list \<Rightarrow> int" where
  "net_raw fills = (\<Sum>fill\<leftarrow>fills. fill_raw fill)"

definition side_raw :: "order_side \<Rightarrow> order_filled list \<Rightarrow> nat" where
  "side_raw side fills = (\<Sum>fill\<leftarrow>filter (\<lambda>fill. of_order_side fill = side) fills. q_raw (of_last_qty fill))"

text \<open>The money that fills bring in: the price of what is sold, less the price of what is bought.\<close>

definition fill_cash :: "order_filled \<Rightarrow> rat" where
  "fill_cash fill = - (price_as_f64 exact_f64 (of_last_px fill) * (of_int (fill_raw fill) / 10 ^ 9))"

definition cash :: "order_filled list \<Rightarrow> rat" where
  "cash fills = (\<Sum>fill\<leftarrow>fills. fill_cash fill)"

definition fill_fee :: "currency \<Rightarrow> order_filled \<Rightarrow> rat" where
  "fill_fee c fill = (case of_commission fill of
     Some m \<Rightarrow> if currency_eq (m_currency m) c then money_as_f64 exact_f64 m else 0 | None \<Rightarrow> 0)"

definition fees :: "currency \<Rightarrow> order_filled list \<Rightarrow> rat" where
  "fees c fills = (\<Sum>fill\<leftarrow>fills. fill_fee c fill)"

text \<open>Fills of a positive quantity at the size precision of the instrument, with no commission in the base
  currency of a currency pair, which would change the quantity held.\<close>

definition plain_fill :: "instrument \<Rightarrow> order_filled \<Rightarrow> bool" where
  "plain_fill i fill \<longleftrightarrow> 0 < q_raw (of_last_qty fill) \<and> unit_at (in_size_precision i) dvd int (q_raw (of_last_qty fill)) \<and>
     (in_is_currency_pair i \<longrightarrow> (case (of_commission fill, in_base_currency i) of
        (Some m, Some base) \<Rightarrow> \<not> currency_eq (m_currency m) base | _ \<Rightarrow> True))"

definition realized :: "('d, rat) position \<Rightarrow> rat" where
  "realized p = (case ps_realized_pnl p of Some m \<Rightarrow> money_as_f64 exact_f64 m | None \<Rightarrow> 0)"

text \<open>The profit of the whole position if it were closed at its average opening price.\<close>

definition exact_pnl :: "('d, rat) position \<Rightarrow> rat" where
  "exact_pnl p = (cash (ps_events p) + ps_signed_qty p * ps_avg_px_open p) * quantity_as_f64 exact_f64 (ps_multiplier p)
     - fees (ps_settlement_currency p) (ps_events p)"

definition half_unit :: "('d, rat) position \<Rightarrow> rat" where
  "half_unit p = 1 / (2 * 10 ^ c_precision (ps_settlement_currency p))"

definition pos_ok :: "order_filled list \<Rightarrow> ('d, rat) position \<Rightarrow> bool" where
  "pos_ok fills p \<longleftrightarrow>
     ps_signed_qty p = of_int (net_raw fills) / 10 ^ 9 \<and> (net_raw fills \<noteq> 0 \<longrightarrow> q_raw (ps_quantity p) = nat \<bar>net_raw fills\<bar>) \<and>
     ps_side p = (if 0 < net_raw fills then Long else if net_raw fills < 0 then Short else Flat)"

definition position_inv :: "instrument \<Rightarrow> ('d, rat) position \<Rightarrow> bool" where
  "position_inv i p \<longleftrightarrow>
     pos_ok (ps_events p) p \<and> q_raw (ps_quantity p) = nat \<bar>net_raw (ps_events p)\<bar> \<and>
     unit_at (in_size_precision i) dvd net_raw (ps_events p) \<and>
     q_raw (ps_buy_qty p) = side_raw Buy (ps_events p) \<and> q_raw (ps_sell_qty p) = side_raw Sell (ps_events p) \<and>
     q_raw (ps_quantity p) \<le> q_raw (ps_peak_qty p) \<and>
     ps_trade_ids p = of_trade_id ` set (ps_events p) \<and> distinct (map of_trade_id (ps_events p)) \<and>
     (\<not> ps_is_inverse p \<longrightarrow> \<bar>realized p - exact_pnl p\<bar> \<le> of_nat (length (ps_events p)) * half_unit p)"

definition position_of :: "instrument \<Rightarrow> ('d, rat) position \<Rightarrow> bool" where
  "position_of i p \<longleftrightarrow> ps_size_precision p = in_size_precision i \<and> ps_is_currency_pair p = in_is_currency_pair i \<and>
     ps_base_currency p = in_base_currency i \<and> ps_is_inverse p = in_is_inverse i"

text \<open>A position ready for its next fill: open, or just reopened.\<close>

definition ready :: "instrument \<Rightarrow> order_filled \<Rightarrow> ('d, rat) position \<Rightarrow> bool" where
  "ready i fill p \<longleftrightarrow> pos_ok (ps_events p) p \<and> unit_at (in_size_precision i) dvd net_raw (ps_events p) \<and>
     ps_trade_ids p = of_trade_id ` set (ps_events p) \<and> distinct (map of_trade_id (ps_events p)) \<and>
     (net_raw (ps_events p) = 0 \<longrightarrow> ps_avg_px_open p = price_as_f64 exact_f64 (of_last_px fill)) \<and>
     q_raw (ps_buy_qty p) = side_raw Buy (ps_events p) \<and> q_raw (ps_sell_qty p) = side_raw Sell (ps_events p) \<and>
     (\<not> ps_is_inverse p \<longrightarrow> \<bar>realized p - exact_pnl p\<bar> \<le> of_nat (length (ps_events p)) * half_unit p)"

text \<open>The profit that a handler books, and that it is the change of the value at cost.\<close>

definition booked :: "order_filled \<Rightarrow> ('d, rat) position \<Rightarrow> ('d, rat) position \<Rightarrow> rat \<Rightarrow> bool" where
  "booked fill p p' inc \<longleftrightarrow>
     (\<exists>m. ps_realized_pnl p' = Some m \<and> money_new exact_f64 (realized p + inc) (ps_settlement_currency p) = Some m) \<and>
     (fill_cash fill + ps_signed_qty p' * ps_avg_px_open p') * quantity_as_f64 exact_f64 (ps_multiplier p)
         - fill_fee (ps_settlement_currency p) fill
       = ps_signed_qty p * ps_avg_px_open p * quantity_as_f64 exact_f64 (ps_multiplier p) + inc"

section \<open>One fill in exact arithmetic\<close>

lemma fills_snoc [simp]:
  "net_raw (fills @ [fill]) = net_raw fills + fill_raw fill" "cash (fills @ [fill]) = cash fills + fill_cash fill"
  "fees c (fills @ [fill]) = fees c fills + fill_fee c fill"
  "side_raw side (fills @ [fill]) = side_raw side fills + (if of_order_side fill = side then q_raw (of_last_qty fill) else 0)"
  "net_raw [] = 0" "cash [] = 0" "fees c [] = 0" "side_raw side [] = 0"
  by (simp_all add: net_raw_def cash_def fees_def side_raw_def)

lemma commission_pnl_exact: "commission_pnl exact_f64 fill p = - fill_fee (ps_settlement_currency p) fill"
  by (simp add: commission_pnl_def fill_fee_def split: option.splits)

lemma quantity_exact: "quantity_as_f64 exact_f64 q = of_nat (q_raw q) / 10 ^ 9"
  by (simp add: quantity_as_f64_def FIXED_SCALAR_def)

lemma calculate_pnl_raw_update [simp]:
  "calculate_pnl_raw F (p \<lparr> ps_avg_px_close := c, ps_realized_return := r \<rparr>) = calculate_pnl_raw F p"
  by (intro ext) (simp add: calculate_pnl_raw_def calculate_points_def calculate_points_inverse_def Let_def)

lemma handle_buy_exact:
  assumes "handle_buy_order_fill exact_f64 fill p = Some p'"
  defines "s \<equiv> ps_signed_qty p" and "q \<equiv> quantity_as_f64 exact_f64 (of_last_qty fill)" and "x \<equiv> price_as_f64 exact_f64 (of_last_px fill)"
  shows "ps_signed_qty p' = s + q"
    and "ps_avg_px_open p' = (if 0 < s then calculate_avg_px_open_px exact_f64 p x q else if s < 0 \<and> 0 < s + q then x else ps_avg_px_open p)"
    and "\<exists>m. ps_realized_pnl p' = Some m \<and> money_new exact_f64 (realized p + (- fill_fee (ps_settlement_currency p) fill +
           (if s < 0 then or_zero exact_f64 (calculate_pnl_raw exact_f64 p (ps_avg_px_open p) x q) else 0))) (ps_settlement_currency p) = Some m"
    and "quantity_add (ps_buy_qty p) (of_last_qty fill) = Some (ps_buy_qty p')" and "ps_sell_qty p' = ps_sell_qty p"
  using assms(1) unfolding s_def q_def x_def
  by (auto simp: handle_buy_order_fill_def add_realized_def close_part_def realized_def commission_pnl_exact Let_def
      split: if_splits bind_splits option.splits)

lemma handle_sell_exact:
  assumes "handle_sell_order_fill exact_f64 fill p = Some p'"
  defines "s \<equiv> ps_signed_qty p" and "q \<equiv> quantity_as_f64 exact_f64 (of_last_qty fill)" and "x \<equiv> price_as_f64 exact_f64 (of_last_px fill)"
  shows "ps_signed_qty p' = s - q"
    and "ps_avg_px_open p' = (if s < 0 then calculate_avg_px_open_px exact_f64 p x q else if 0 < s \<and> s - q < 0 then x else ps_avg_px_open p)"
    and "\<exists>m. ps_realized_pnl p' = Some m \<and> money_new exact_f64 (realized p + (- fill_fee (ps_settlement_currency p) fill +
           (if 0 < s then or_zero exact_f64 (calculate_pnl_raw exact_f64 p (ps_avg_px_open p) x q) else 0))) (ps_settlement_currency p) = Some m"
    and "quantity_add (ps_sell_qty p) (of_last_qty fill) = Some (ps_sell_qty p')" and "ps_buy_qty p' = ps_buy_qty p"
  using assms(1) unfolding s_def q_def x_def
  by (auto simp: handle_sell_order_fill_def add_realized_def close_part_def realized_def commission_pnl_exact Let_def
      split: if_splits bind_splits option.splits)

text \<open>What a fill changes: the value at cost moves by exactly the profit it realizes.\<close>

lemma buy_value:
  fixes s q x a :: rat
  assumes "0 < q" and "s = 0 \<Longrightarrow> a = x"
  shows "- (x * q) + (s + q) * (if 0 < s then (a * s + x * q) / (s + q) else if s < 0 \<and> 0 < s + q then x else a)
    = s * a + (if s < 0 then min q \<bar>s\<bar> * (a - x) else 0)"
proof (cases "0 < s")
  case True
  then have "(s + q) * ((a * s + x * q) / (s + q)) = a * s + x * q" using assms(1) by simp
  then show ?thesis using True by (simp add: mult.commute)
next
  case False
  then show ?thesis using assms by (cases "s = 0"; cases "0 < s + q") (auto simp: min_def algebra_simps)
qed

lemma sell_value:
  fixes s q x a :: rat
  assumes "0 < q" and "s = 0 \<Longrightarrow> a = x"
  shows "x * q + (s - q) * (if s < 0 then (a * - s + x * q) / (- s + q) else if 0 < s \<and> s - q < 0 then x else a)
    = s * a + (if 0 < s then min q \<bar>s\<bar> * (x - a) else 0)"
proof (cases "s < 0")
  case True
  then have "- s + q \<noteq> 0" using assms(1) by simp
  then have "(s - q) * ((a * - s + x * q) / (- s + q)) = - (a * - s + x * q)"
    by (metis minus_diff_eq minus_mult_left nonzero_mult_div_cancel_left times_divide_eq_right uminus_add_conv_diff)
  then show ?thesis using True by (simp add: mult.commute)
next
  case False
  then show ?thesis using assms by (cases "s = 0"; cases "s - q < 0") (auto simp: min_def algebra_simps)
qed

lemma avg_open_exact:
  assumes "pos_ok fills p" and "net_raw fills \<noteq> 0" and "0 < q"
  shows "calculate_avg_px_open_px exact_f64 p x q
    = (ps_avg_px_open p * \<bar>ps_signed_qty p\<bar> + x * q) / (\<bar>ps_signed_qty p\<bar> + q)"
proof -
  have p: "ps_signed_qty p = of_int (net_raw fills) / 10 ^ 9" "q_raw (ps_quantity p) = nat \<bar>net_raw fills\<bar>"
    using assms(1,2) by (auto simp: pos_ok_def)
  have "quantity_as_f64 exact_f64 (ps_quantity p) = \<bar>ps_signed_qty p\<bar>"
    unfolding quantity_exact p by (simp add: abs_divide)
  moreover have "0 < \<bar>ps_signed_qty p\<bar>" using assms(1,2) by (simp add: pos_ok_def)
  moreover from this have "\<not> \<bar>ps_signed_qty p\<bar> + q < 0" "\<bar>ps_signed_qty p\<bar> + q \<noteq> 0" using assms(3) by linarith+
  ultimately show ?thesis using assms(3) by (simp add: calculate_avg_px_open_px_def calculate_avg_px_def Let_def)
qed

lemma pnl_raw_exact:
  assumes "pos_ok fills p" and "\<not> ps_is_inverse p"
  shows "or_zero exact_f64 (calculate_pnl_raw exact_f64 p a x q)
    = min q \<bar>ps_signed_qty p\<bar> * quantity_as_f64 exact_f64 (ps_multiplier p)
        * (if 0 < ps_signed_qty p then x - a else if ps_signed_qty p < 0 then a - x else 0)"
  using assms by (simp add: pos_ok_def calculate_pnl_raw_def calculate_points_def or_zero_def)

lemma money_step:
  assumes "money_new exact_f64 (r + inc) c = Some m" and "\<bar>r - e\<bar> \<le> b" and "e' = e + inc"
  shows "\<bar>money_as_f64 exact_f64 m - e'\<bar> \<le> b + 1 / (2 * 10 ^ c_precision c)"
  using money_new_half(2) [OF assms(1)] assms(2,3) by linarith

lemma fill_signed:
  assumes "ps_signed_qty p = of_int (net_raw fills) / 10 ^ 9"
    and h: "if of_order_side fill = Buy then handle_buy_order_fill exact_f64 fill p = Some p'
      else handle_sell_order_fill exact_f64 fill p = Some p'"
  shows "ps_signed_qty p' = of_int (net_raw (fills @ [fill])) / 10 ^ 9"
proof (cases "of_order_side fill = Buy")
  case True
  then show ?thesis using handle_buy_exact(1) [of fill p p'] h assms(1)
    by (simp add: quantity_exact fill_raw_def add_divide_distrib)
next
  case False
  then show ?thesis using handle_sell_exact(1) [of fill p p'] h assms(1)
    by (simp add: quantity_exact fill_raw_def diff_divide_distrib)
qed

lemma buy_booked:
  assumes ok: "pos_ok fills p" and "0 < q_raw (of_last_qty fill)" and lin: "\<not> ps_is_inverse p"
    and flat: "net_raw fills = 0 \<Longrightarrow> ps_avg_px_open p = price_as_f64 exact_f64 (of_last_px fill)"
    and h: "handle_buy_order_fill exact_f64 fill p = Some p'" and "of_order_side fill = Buy"
  shows "\<exists>inc. booked fill p p' inc"
proof -
  define s q x a K where defs: "s = ps_signed_qty p" "q = quantity_as_f64 exact_f64 (of_last_qty fill)"
    "x = price_as_f64 exact_f64 (of_last_px fill)" "a = ps_avg_px_open p" "K = quantity_as_f64 exact_f64 (ps_multiplier p)"
  have q: "0 < q" "q = of_nat (q_raw (of_last_qty fill)) / 10 ^ 9" using assms(2) by (simp_all add: defs quantity_exact)
  have s: "s = of_int (net_raw fills) / 10 ^ 9" and a: "s = 0 \<Longrightarrow> a = x" using ok flat by (auto simp: pos_ok_def defs)
  note h' = handle_buy_exact [OF h, folded defs]
  have "s \<noteq> 0 \<Longrightarrow> calculate_avg_px_open_px exact_f64 p x q = (a * \<bar>s\<bar> + x * q) / (\<bar>s\<bar> + q)"
    using avg_open_exact [OF ok _ q(1)] s by (simp add: defs)
  then have "ps_avg_px_open p' = (if 0 < s then (a * s + x * q) / (s + q) else if s < 0 \<and> 0 < s + q then x else a)"
    unfolding h'(2) by simp
  then have "ps_signed_qty p' * ps_avg_px_open p' - x * q = s * a + (if s < 0 then min q \<bar>s\<bar> * (a - x) else 0)"
    unfolding h'(1) using buy_value [where s = s, OF q(1) a] by (simp only:) linarith
  moreover have "fill_cash fill = - (x * q)" using assms(6) q(2) by (simp add: fill_cash_def fill_raw_def defs)
  ultimately have "(fill_cash fill + ps_signed_qty p' * ps_avg_px_open p') * K = (s * a + (if s < 0 then min q \<bar>s\<bar> * (a - x) else 0)) * K" by simp
  also have "\<dots> = s * a * K + (if s < 0 then or_zero exact_f64 (calculate_pnl_raw exact_f64 p a x q) else 0)"
    by (simp add: pnl_raw_exact [OF ok lin, folded defs] algebra_simps)
  finally show ?thesis using h'(3) unfolding booked_def defs [symmetric] by auto
qed

lemma sell_booked:
  assumes ok: "pos_ok fills p" and "0 < q_raw (of_last_qty fill)" and lin: "\<not> ps_is_inverse p"
    and flat: "net_raw fills = 0 \<Longrightarrow> ps_avg_px_open p = price_as_f64 exact_f64 (of_last_px fill)"
    and h: "handle_sell_order_fill exact_f64 fill p = Some p'" and "of_order_side fill \<noteq> Buy"
  shows "\<exists>inc. booked fill p p' inc"
proof -
  define s q x a K where defs: "s = ps_signed_qty p" "q = quantity_as_f64 exact_f64 (of_last_qty fill)"
    "x = price_as_f64 exact_f64 (of_last_px fill)" "a = ps_avg_px_open p" "K = quantity_as_f64 exact_f64 (ps_multiplier p)"
  have q: "0 < q" "q = of_nat (q_raw (of_last_qty fill)) / 10 ^ 9" using assms(2) by (simp_all add: defs quantity_exact)
  have s: "s = of_int (net_raw fills) / 10 ^ 9" and a: "s = 0 \<Longrightarrow> a = x" using ok flat by (auto simp: pos_ok_def defs)
  note h' = handle_sell_exact [OF h, folded defs]
  have "s \<noteq> 0 \<Longrightarrow> calculate_avg_px_open_px exact_f64 p x q = (a * \<bar>s\<bar> + x * q) / (\<bar>s\<bar> + q)"
    using avg_open_exact [OF ok _ q(1)] s by (simp add: defs)
  then have "ps_avg_px_open p' = (if s < 0 then (a * - s + x * q) / (- s + q) else if 0 < s \<and> s - q < 0 then x else a)"
    unfolding h'(2) by simp
  then have "ps_signed_qty p' * ps_avg_px_open p' + x * q = s * a + (if 0 < s then min q \<bar>s\<bar> * (x - a) else 0)"
    unfolding h'(1) using sell_value [where s = s, OF q(1) a] by (simp only:) linarith
  moreover have "fill_cash fill = x * q" using assms(6) q(2) by (simp add: fill_cash_def fill_raw_def defs)
  ultimately have "(fill_cash fill + ps_signed_qty p' * ps_avg_px_open p') * K = (s * a + (if 0 < s then min q \<bar>s\<bar> * (x - a) else 0)) * K" by simp
  also have "\<dots> = s * a * K + (if 0 < s then or_zero exact_f64 (calculate_pnl_raw exact_f64 p a x q) else 0)"
    by (simp add: pnl_raw_exact [OF ok lin, folded defs] algebra_simps)
  finally show ?thesis using h'(3) unfolding booked_def defs [symmetric] by auto
qed

lemma fill_value:
  assumes "pos_ok fills p" and "0 < q_raw (of_last_qty fill)" and "\<not> ps_is_inverse p"
    and "net_raw fills = 0 \<Longrightarrow> ps_avg_px_open p = price_as_f64 exact_f64 (of_last_px fill)"
    and h: "if of_order_side fill = Buy then handle_buy_order_fill exact_f64 fill p = Some p'
      else handle_sell_order_fill exact_f64 fill p = Some p'"
    and bound: "\<bar>realized p - ((cash fills + ps_signed_qty p * ps_avg_px_open p) * M - fees c fills)\<bar> \<le> b"
    and "M = quantity_as_f64 exact_f64 (ps_multiplier p)" and "c = ps_settlement_currency p"
  shows "\<bar>realized p' - ((cash (fills @ [fill]) + ps_signed_qty p' * ps_avg_px_open p') * M - fees c (fills @ [fill]))\<bar>
    \<le> b + 1 / (2 * 10 ^ c_precision c)"
proof -
  obtain inc where "booked fill p p' inc" using buy_booked [OF assms(1-4)] sell_booked [OF assms(1-4)] h by (cases "of_order_side fill = Buy") auto
  then obtain m where m: "ps_realized_pnl p' = Some m" "money_new exact_f64 (realized p + inc) c = Some m"
    and inc: "(fill_cash fill + ps_signed_qty p' * ps_avg_px_open p') * M - fill_fee c fill = ps_signed_qty p * ps_avg_px_open p * M + inc"
    unfolding booked_def assms(7,8) by blast
  have "(cash (fills @ [fill]) + ps_signed_qty p' * ps_avg_px_open p') * M - fees c (fills @ [fill])
      = (cash fills + ps_signed_qty p * ps_avg_px_open p) * M - fees c fills + inc"
    using inc by (simp add: algebra_simps)
  from money_step [OF m(2) bound this] show ?thesis using m(1) by (simp add: realized_def [of p'])
qed

lemma quantity_new_value:
  assumes "quantity_new exact_f64 (of_nat raw / 10 ^ 9) precision = Some q" and "unit_at precision dvd int raw"
  shows "q_raw q = raw"
proof -
  have p: "precision \<le> FIXED_PRECISION" and "of_nat raw / 10 ^ 9 \<le> 18446744073 + (1 :: rat) / 10 ^ 15"
    using assms(1) by (auto simp: quantity_new_def check_in_range_inclusive_f64_def check_fixed_precision_def Let_def split: if_splits bind_splits)
  then have "(of_nat raw :: rat) < of_nat (18446744073 * 10 ^ 9 + 1)" by simp
  then have "raw \<le> QUANTITY_RAW_MAX" unfolding of_nat_less_iff by (simp add: QUANTITY_RAW_MAX_def)
  from quantity_new_exact [OF p assms(2) this] assms(1) show ?thesis by auto
qed

lemma unit_dvd_fill_raw: "unit_at prec dvd int (q_raw (of_last_qty fill)) \<Longrightarrow> unit_at prec dvd fill_raw fill"
  by (simp add: fill_raw_def)

lemma quantity_add_raw: "quantity_add a b = Some q \<Longrightarrow> q_raw q = q_raw a + q_raw b"
  by (auto simp: quantity_add_def u64_checked_add_def split: bind_splits if_splits)

lemma reopen_ready:
  assumes "flat_start exact_f64 p \<or> position_inv i p" and "reopen exact_f64 fill p = Some p1"
  shows "ready i fill p1"
proof (cases "ps_side p = Flat")
  case True
  then have "ps_signed_qty p = 0" using assms(1) by (auto simp: flat_start_def position_inv_def pos_ok_def split: if_splits)
  then show ?thesis using assms(2) True
    by (auto simp: reopen_def ready_def pos_ok_def realized_def exact_pnl_def quantity_zero_def check_fixed_precision_def split: bind_splits if_splits)
next
  case False
  then have "position_inv i p" "p1 = p" using assms by (auto simp: flat_start_def reopen_def)
  then show ?thesis using False by (auto simp: ready_def position_inv_def pos_ok_def)
qed

lemma base_commission_plain:
  assumes "plain_fill i fill" and "position_of i p"
  shows "base_commission F E fill p = Some p"
  using assms by (auto simp: base_commission_def plain_fill_def position_of_def split: option.splits)

lemma ready_log:
  assumes "ready i fill p1" and "add_commission fill (p1 \<lparr> ps_events := ps_events p1 @ [fill], ps_trade_ids := ids \<rparr>) = Some p2"
  shows "ps_signed_qty p2 = ps_signed_qty p1" "ps_avg_px_open p2 = ps_avg_px_open p1" "ps_quantity p2 = ps_quantity p1"
    "ps_side p2 = ps_side p1" "ps_realized_pnl p2 = ps_realized_pnl p1" "ps_buy_qty p2 = ps_buy_qty p1" "ps_sell_qty p2 = ps_sell_qty p1"
    "terms p2 = terms p1" "ps_events p2 = ps_events p1 @ [fill]" "ps_trade_ids p2 = ids"
  using assms(2) by (auto simp: add_commission_def Let_def split: option.splits bind_splits)

lemma settled:
  fixes p :: "('d, rat) position" and q :: quantity and fill :: order_filled
  defines "r \<equiv> settle exact_f64 fill (update_peak (p \<lparr> ps_quantity := q \<rparr>))"
  shows "ps_signed_qty r = (if q_raw q = 0 then 0 else ps_signed_qty p)" "ps_quantity r = q" "q_raw q \<le> q_raw (ps_peak_qty r)"
    "ps_buy_qty r = ps_buy_qty p" "ps_sell_qty r = ps_sell_qty p" "ps_avg_px_open r = ps_avg_px_open p" "ps_realized_pnl r = ps_realized_pnl p"
    "ps_side r = (if q_raw q = 0 then Flat else if 0 < ps_signed_qty p then Long else Short)"
  by (simp_all add: r_def settle_def update_peak_def quantity_is_zero_def)

lemma handled:
  assumes "as_specified (of_order_side fill) = Some side"
    and "(case side of BuySide \<Rightarrow> handle_buy_order_fill F fill p | SellSide \<Rightarrow> handle_sell_order_fill F fill p) = Some p'"
  shows "if of_order_side fill = Buy then handle_buy_order_fill F fill p = Some p' else handle_sell_order_fill F fill p = Some p'"
    and "of_order_side fill = Buy \<or> of_order_side fill = Sell"
  using assms by (cases "of_order_side fill"; cases side; simp)+

lemma handled_quantities:
  assumes "if of_order_side fill = Buy then handle_buy_order_fill exact_f64 fill p = Some p' else handle_sell_order_fill exact_f64 fill p = Some p'"
    and "of_order_side fill = Buy \<or> of_order_side fill = Sell"
  shows "q_raw (ps_buy_qty p') = q_raw (ps_buy_qty p) + (if of_order_side fill = Buy then q_raw (of_last_qty fill) else 0)"
    and "q_raw (ps_sell_qty p') = q_raw (ps_sell_qty p) + (if of_order_side fill = Sell then q_raw (of_last_qty fill) else 0)"
  using assms handle_buy_exact(4,5) [of fill p p'] handle_sell_exact(4,5) [of fill p p'] by (auto dest!: quantity_add_raw split: if_splits)

lemma handled_pnl:
  assumes ready: "ready i fill p1" and plain: "plain_fill i fill" and lin: "\<not> ps_is_inverse p1"
    and log: "add_commission fill (p1 \<lparr> ps_events := ps_events p1 @ [fill], ps_trade_ids := ids \<rparr>) = Some p2"
    and h: "if of_order_side fill = Buy then handle_buy_order_fill exact_f64 fill p2 = Some p3 else handle_sell_order_fill exact_f64 fill p2 = Some p3"
  shows "\<bar>realized p3 - ((cash (ps_events p1 @ [fill]) + ps_signed_qty p3 * ps_avg_px_open p3) * quantity_as_f64 exact_f64 (ps_multiplier p1)
      - fees (ps_settlement_currency p1) (ps_events p1 @ [fill]))\<bar> \<le> of_nat (length (ps_events p1 @ [fill])) * half_unit p1"
proof -
  note log = ready_log [OF ready log]
  have t: "ps_is_inverse p2 = ps_is_inverse p1" "ps_multiplier p2 = ps_multiplier p1" "ps_settlement_currency p2 = ps_settlement_currency p1"
    using log(8) by (simp_all add: terms_def)
  have "\<bar>realized p2 - ((cash (ps_events p1) + ps_signed_qty p2 * ps_avg_px_open p2) * quantity_as_f64 exact_f64 (ps_multiplier p1)
      - fees (ps_settlement_currency p1) (ps_events p1))\<bar> \<le> of_nat (length (ps_events p1)) * half_unit p1"
    using ready lin log(1,2,5) by (simp add: ready_def exact_pnl_def realized_def)
  moreover have "pos_ok (ps_events p1) p2" using ready log(1,3,4) by (simp add: ready_def pos_ok_def)
  ultimately have "\<bar>realized p3 - ((cash (ps_events p1 @ [fill]) + ps_signed_qty p3 * ps_avg_px_open p3)
      * quantity_as_f64 exact_f64 (ps_multiplier p1) - fees (ps_settlement_currency p1) (ps_events p1 @ [fill]))\<bar>
      \<le> of_nat (length (ps_events p1)) * half_unit p1 + 1 / (2 * 10 ^ c_precision (ps_settlement_currency p1))"
    using plain ready lin t log(2) by (intro fill_value [OF _ _ _ _ h]) (simp_all add: plain_fill_def ready_def)
  then show ?thesis by (simp add: half_unit_def algebra_simps add_divide_distrib)
qed

lemma apply_inv:
  assumes plain: "plain_fill i fill" and inst: "position_of i p" and pre: "flat_start exact_f64 p \<or> position_inv i p"
    and ap: "position_apply exact_f64 E fill p = Some p'"
  shows "position_inv i p' \<and> position_of i p'"
proof -
  obtain p1 p2 p3 p4 q side where id: "of_trade_id fill \<notin> ps_trade_ids p" and st: "reopen exact_f64 fill p = Some p1"
    "add_commission fill (p1 \<lparr> ps_events := ps_events p1 @ [fill], ps_trade_ids := insert (of_trade_id fill) (ps_trade_ids p1) \<rparr>) = Some p2"
    "as_specified (of_order_side fill) = Some side"
    "(case side of BuySide \<Rightarrow> handle_buy_order_fill exact_f64 fill p2 | SellSide \<Rightarrow> handle_sell_order_fill exact_f64 fill p2) = Some p3"
    "base_commission exact_f64 E fill p3 = Some p4"
    "quantity_new exact_f64 (f64_abs exact_f64 (ps_signed_qty p4)) (ps_size_precision p4) = Some q"
    "p' = (settle exact_f64 fill (update_peak (p4 \<lparr> ps_quantity := q \<rparr>))) \<lparr> ps_ts_last := ev_ts_event fill \<rparr>"
    using ap by (rule apply_cases) blast
  let ?fills = "ps_events p1" let ?net = "net_raw (?fills @ [fill])"
  have ready: "ready i fill p1" by (rule reopen_ready [OF pre st(1)])
  note log = ready_log [OF ready st(2)]
  note h = handled [OF st(3,4)]
  have t3: "terms p3 = terms p2" "ps_events p3 = ps_events p2" "ps_trade_ids p3 = ps_trade_ids p2" using handle_terms [of exact_f64 fill p2 p3] h(1) by (simp_all split: if_splits)
  have terms: "terms p3 = terms p" "terms p1 = terms p" using t3 log(8) reopen_terms [OF st(1)] by simp_all
  then have inst3: "position_of i p3" using inst by (simp add: position_of_def terms_def)
  then have p4: "p4 = p3" using base_commission_plain [OF plain, of p3 exact_f64 E] st(5) by simp
  have signed: "ps_signed_qty p3 = of_int ?net / 10 ^ 9"
    by (rule fill_signed [OF _ h(1)]) (use ready log(1) in \<open>simp add: ready_def pos_ok_def\<close>)
  have unit: "unit_at (in_size_precision i) dvd ?net"
    using ready plain unit_dvd_fill_raw by (auto simp: ready_def plain_fill_def)
  have q: "q_raw q = nat \<bar>?net\<bar>"
  proof (rule quantity_new_value)
    have "f64_abs exact_f64 (ps_signed_qty p4) = of_nat (nat \<bar>?net\<bar>) / 10 ^ 9" unfolding p4 signed by (simp add: abs_divide)
    moreover have "ps_size_precision p4 = in_size_precision i" using inst3 by (simp add: p4 position_of_def)
    ultimately show "quantity_new exact_f64 (of_nat (nat \<bar>?net\<bar>) / 10 ^ 9) (in_size_precision i) = Some q"
      using st(6) by (simp only:)
    show "unit_at (in_size_precision i) dvd int (nat \<bar>?net\<bar>)" using unit by simp
  qed
  have ev: "ps_events p' = ?fills @ [fill]" using t3(2) log(9) by (simp add: st(7) p4 settle_terms)
  note set = settled [where fill = fill and q = q and p = p3]
  have signed': "ps_signed_qty p' = of_int ?net / 10 ^ 9" using signed q by (simp add: st(7) p4 set(1))
  have ok': "pos_ok (ps_events p') p'"
    unfolding pos_ok_def ev signed' using signed q by (auto simp: st(7) p4 set(2,8) zero_less_divide_iff)
  have raws: "q_raw (ps_buy_qty p') = side_raw Buy (ps_events p') \<and> q_raw (ps_sell_qty p') = side_raw Sell (ps_events p')"
    using ready handled_quantities [OF h] log(6,7) by (simp add: ev ready_def) (simp add: st(7) p4 set(4,5))
  have terms': "terms p' = terms p1" using terms by (simp add: st(7) p4 settle_terms)
  have ids: "ps_trade_ids p' = of_trade_id ` set (ps_events p') \<and> distinct (map of_trade_id (ps_events p'))"
  proof -
    have "ps_trade_ids p' = insert (of_trade_id fill) (ps_trade_ids p1)" using t3(3) log(10) by (simp add: st(7) p4 settle_terms)
    moreover have "of_trade_id fill \<notin> ps_trade_ids p1" using id st(1) by (auto simp: reopen_def split: if_splits bind_splits)
    ultimately show ?thesis using ready by (auto simp: ev ready_def)
  qed
  have pnl: "\<bar>realized p' - exact_pnl p'\<bar> \<le> of_nat (length (ps_events p')) * half_unit p'" if lin: "\<not> ps_is_inverse p'"
  proof -
    have t: "ps_is_inverse p1 = ps_is_inverse p'" "ps_multiplier p1 = ps_multiplier p'" "ps_settlement_currency p1 = ps_settlement_currency p'"
      using terms' by (simp_all add: terms_def)
    have "realized p' = realized p3" "ps_avg_px_open p' = ps_avg_px_open p3" by (simp_all add: st(7) p4 set(6,7) realized_def)
    moreover have "ps_signed_qty p' = ps_signed_qty p3" unfolding signed' signed ..
    ultimately show ?thesis using handled_pnl [OF ready plain _ st(2) h(1)] lin t by (simp add: exact_pnl_def ev half_unit_def)
  qed
  have "position_of i p'" using inst terms' terms(2) by (simp add: position_of_def terms_def)
  moreover have "q_raw (ps_quantity p') = nat \<bar>?net\<bar>" using q by (simp add: st(7) p4 set(2))
  moreover have "q_raw (ps_quantity p') \<le> q_raw (ps_peak_qty p')" by (simp add: st(7) p4 set(2,3))
  ultimately show ?thesis using ok' unit raws ids pnl by (simp add: position_inv_def ev)
qed

lemma reach_inv:
  "position_reach exact_f64 E i (plain_fill i) p \<Longrightarrow> position_inv i p \<and> position_of i p"
proof (induction rule: position_reach.induct)
  case (reach_open fill p)
  obtain pid zero c where "position_apply exact_f64 E fill (position_start exact_f64 i fill pid zero c) = Some p"
    using reach_open(2) by (rule new_cases)
  moreover have "position_of i (position_start exact_f64 i fill pid zero c)" "flat_start exact_f64 (position_start exact_f64 i fill pid zero c)"
    by (simp_all add: position_of_def position_start_def flat_start_def)
  ultimately show ?case using apply_inv [OF reach_open(1)] by blast
next
  case (reach_fill p fill p')
  then show ?case using apply_inv by blast
qed

section \<open>Open and closed\<close>

lemma adjust_closed:
  "adjust_quantity F E a p = Some p' \<Longrightarrow> ps_ts_closed p' = ps_ts_closed p"
  "adjust_pnl a p = Some p' \<Longrightarrow> ps_ts_closed p' = ps_ts_closed p"
  "ps_ts_closed (adjust_side F p) = ps_ts_closed p"
  "apply_adjustment F E a p = Some p' \<Longrightarrow> ps_ts_closed p' = ps_ts_closed p"
proof -
  show q: "adjust_quantity F E a p = Some p' \<Longrightarrow> ps_ts_closed p' = ps_ts_closed p" for p p' :: "('a, 'b) position"
    by (auto simp: adjust_quantity_def update_peak_def Let_def split: option.splits bind_splits if_splits)
  show pnl: "adjust_pnl a p = Some p' \<Longrightarrow> ps_ts_closed p' = ps_ts_closed p" for p p' :: "('a, 'b) position"
    by (auto simp: adjust_pnl_def split: option.splits bind_splits)
  show side: "ps_ts_closed (adjust_side F p) = ps_ts_closed p" for p :: "('a, 'b) position" by (simp add: adjust_side_def)
  show "apply_adjustment F E a p = Some p' \<Longrightarrow> ps_ts_closed p' = ps_ts_closed p"
    by (auto simp: apply_adjustment_def Let_def side dest!: q pnl split: bind_splits)
qed

lemma parts_closed:
  "add_commission fill p = Some p' \<Longrightarrow> ps_ts_closed p' = ps_ts_closed p"
  "handle_buy_order_fill F fill p = Some p' \<or> handle_sell_order_fill F fill p = Some p' \<Longrightarrow> ps_ts_closed p' = ps_ts_closed p"
  "base_commission F E fill p = Some p' \<Longrightarrow> ps_ts_closed p' = ps_ts_closed p"
  by (auto simp: add_commission_def handle_buy_order_fill_def handle_sell_order_fill_def close_part_def add_realized_def
      base_commission_def Let_def dest!: adjust_closed(4) split: option.splits bind_splits if_splits)

lemma apply_closed:
  assumes "position_apply F E fill p = Some p'" and "ps_side p \<noteq> Flat \<Longrightarrow> ps_ts_closed p = None"
  shows "ps_ts_closed p' = None \<longleftrightarrow> ps_side p' \<noteq> Flat"
  using assms(1)
proof (rule apply_cases)
  fix p1 p2 p3 p4 q side
  assume st: "reopen F fill p = Some p1"
    "add_commission fill (p1 \<lparr> ps_events := ps_events p1 @ [fill], ps_trade_ids := insert (of_trade_id fill) (ps_trade_ids p1) \<rparr>) = Some p2"
    "(case side of BuySide \<Rightarrow> handle_buy_order_fill F fill p2 | SellSide \<Rightarrow> handle_sell_order_fill F fill p2) = Some p3"
    "base_commission F E fill p3 = Some p4" "p' = (settle F fill (update_peak (p4 \<lparr> ps_quantity := q \<rparr>))) \<lparr> ps_ts_last := ev_ts_event fill \<rparr>"
  have "ps_ts_closed p1 = None" using st(1) assms(2) by (auto simp: reopen_def split: if_splits bind_splits)
  moreover have "handle_buy_order_fill F fill p2 = Some p3 \<or> handle_sell_order_fill F fill p2 = Some p3" using st(3) by (cases side) auto
  ultimately have "ps_ts_closed p4 = None" using parts_closed(1) [OF st(2)] parts_closed(2) parts_closed(3) [OF st(4)] by fastforce
  then show ?thesis by (simp add: st(5) settle_def update_peak_def)
qed

lemma reach_closed: "position_reach F E i ok p \<Longrightarrow> ps_ts_closed p = None \<longleftrightarrow> ps_side p \<noteq> Flat"
proof (induction rule: position_reach.induct)
  case (reach_open fill p)
  from reach_open(2) show ?case by (rule new_cases) (erule apply_closed, simp add: position_start_def)
next
  case (reach_fill p fill p')
  then show ?case by (simp add: apply_closed)
qed

end
