(* ===== verification/Position_Claims.thy ===== *)
theory Position_Claims
  imports Position_Accounting
begin

text \<open>
  What a position promises: it tracks its fills, conserves profit and loss up to rounding, and can be rebuilt from its
  fills; and how its average closing price is weighted.
\<close>

definition ex_eur :: currency where
  "ex_eur = \<lparr> c_code = ''EUR'', c_precision = 2, c_iso4217 = 978, c_name = ''Euro'', c_type = Fiat \<rparr>"

definition ex_instrument :: instrument where
  "ex_instrument = \<lparr> in_id = ''X'', in_price_precision = 2, in_size_precision = 0, in_multiplier = \<lparr> q_raw = 1000000000, q_prec = 0 \<rparr>,
     in_is_inverse = False, in_is_currency_pair = False, in_instrument_class = Future, in_base_currency = None, in_quote_currency = ex_eur \<rparr>"

definition ex_fill :: "string \<Rightarrow> order_side \<Rightarrow> nat \<Rightarrow> nat \<Rightarrow> order_filled" where
  "ex_fill trade side units px =
     \<lparr> ev_trader_id = ''T'', ev_strategy_id = ''S'', ev_instrument_id = ''X'', ev_client_order_id = ''O'', ev_event_id = ''E'',
       ev_ts_event = 1, ev_ts_init = 1, of_venue_order_id = ''V'', of_account_id = ''A'', of_trade_id = trade, of_order_side = side,
       of_order_type = Market, of_last_qty = \<lparr> q_raw = units * 1000000000, q_prec = 0 \<rparr>,
       of_last_px = \<lparr> p_raw = int px * 1000000000, p_prec = 0 \<rparr>, of_currency = ex_eur, of_liquidity_side = Taker,
       of_reconciliation = False, of_position_id = Some ''P'', of_commission = None \<rparr>"

definition ex_decimal :: "(int \<times> nat, rat) decimal_f64" where
  "ex_decimal = \<lparr> df_api = pair_decimal, df_neg = (\<lambda>(m, s). (- m, s)), df_to_f64 = (\<lambda>(m, s). Some (of_int m / 10 ^ s)) \<rparr>"

abbreviation ex_units :: "nat \<Rightarrow> quantity" where
  "ex_units n \<equiv> \<lparr> q_raw = n * 1000000000, q_prec = 0 \<rparr>"

definition ex_long :: "(int \<times> nat, rat) position" where
  "ex_long = (position_start exact_f64 ex_instrument (ex_fill ''1'' Buy 10 100) ''P'' (ex_units 0) ex_eur)
     \<lparr> ps_events := [ex_fill ''1'' Buy 10 100], ps_trade_ids := {''1''}, ps_realized_pnl := Some \<lparr> m_raw = 0, m_currency = ex_eur \<rparr>,
       ps_signed_qty := 10, ps_buy_qty := ex_units 10, ps_side := Long \<rparr>"

definition ex_short :: "(int \<times> nat, rat) position" where
  "ex_short = ex_long \<lparr> ps_events := [ex_fill ''1'' Buy 10 100, ex_fill ''2'' Sell 20 110], ps_trade_ids := {''2'', ''1''},
     ps_realized_pnl := Some \<lparr> m_raw = 100000000000, m_currency = ex_eur \<rparr>, ps_signed_qty := - 10, ps_sell_qty := ex_units 20,
     ps_avg_px_open := 110, ps_avg_px_close := Some 110, ps_realized_return := 1 / 10, ps_side := Short, ps_entry := Sell \<rparr>"

lemma rat_round_numerals:
  "rat_round 0 = 0" "rat_round 1 = 1" "rat_round (numeral w) = numeral w" "rat_round (- numeral w) = - numeral w"
  using rat_round_int [of 0] rat_round_int [of 1] rat_round_int [of "numeral w"] rat_round_int [of "- numeral w"] by simp_all

lemma rat_as_i64_numerals:
  "rat_as_i64 0 = 0" "rat_as_i64 1 = 1" "numeral w \<le> I64_MAX \<Longrightarrow> rat_as_i64 (numeral w) = numeral w"
  by (simp_all add: rat_as_i64_def rust_bounds)

lemmas position_eval = position_apply_def reopen_def add_commission_def handle_buy_order_fill_def handle_sell_order_fill_def
  commission_pnl_def add_realized_def close_part_def calculate_avg_px_close_px_def calculate_avg_px_def calculate_avg_px_open_px_def
  calculate_return_def calculate_points_def calculate_pnl_raw_def or_zero_def base_commission_def update_peak_def settle_def
  quantity_new_def money_new_def check_in_range_inclusive_f64_def check_fixed_precision_def f64_to_fixed_i64_def f64_to_fixed_u64_def
  rat_round_numerals rat_as_i64_numerals quantity_as_f64_def price_as_f64_def money_as_f64_def FIXED_SCALAR_def FIXED_PRECISION_def
  quantity_zero_def quantity_is_zero_def quantity_add_def u64_checked_add_def rust_bounds i64_wrap_def Let_def

lemma ex_long_new: "position_new exact_f64 ex_decimal ex_instrument (ex_fill ''1'' Buy 10 100) = Some ex_long"
  by (simp add: position_new_def position_eval ex_long_def position_start_def ex_fill_def ex_instrument_def cost_currency_def ex_eur_def)

lemma ex_short_apply: "position_apply exact_f64 ex_decimal (ex_fill ''2'' Sell 20 110) ex_long = Some ex_short"
  by (simp add: position_eval ex_long_def ex_short_def position_start_def ex_fill_def ex_instrument_def ex_eur_def)

lemma ex_reach: "position_reach exact_f64 ex_decimal ex_instrument (plain_fill ex_instrument) ex_short"
  "position_reach exact_f64 ex_decimal ex_instrument (\<lambda>_. True) ex_short"
proof -
  have "plain_fill ex_instrument (ex_fill t side (Suc n) px)" for t side n px
    by (simp add: plain_fill_def ex_instrument_def ex_fill_def unit_at_def FIXED_PRECISION_def)
  from this [of _ _ 9] this [of _ _ 19] have plain: "plain_fill ex_instrument (ex_fill t side 10 px)" "plain_fill ex_instrument (ex_fill t side 20 px)"
    for t side px by simp_all
  show "position_reach exact_f64 ex_decimal ex_instrument (plain_fill ex_instrument) ex_short"
    "position_reach exact_f64 ex_decimal ex_instrument (\<lambda>_. True) ex_short"
    using reach_fill [OF reach_open [OF _ ex_long_new] _ ex_short_apply] plain by simp_all
qed

section \<open>Claims\<close>

lemma money_add_value: "money_add a b = Some m \<Longrightarrow> money_as_f64 exact_f64 m = money_as_f64 exact_f64 a + money_as_f64 exact_f64 b"
  by (auto simp: money_add_def money_as_f64_def i64_checked_add_def add_divide_distrib split: bind_splits if_splits)

lemma unrealized_half:
  assumes "pos_ok (ps_events p) p" and "q_raw (ps_quantity p) = nat \<bar>net_raw (ps_events p)\<bar>" and "\<not> ps_is_inverse p"
    and "unrealized_pnl exact_f64 p last_price = Some m"
  shows "\<bar>money_as_f64 exact_f64 m - ps_signed_qty p * (price_as_f64 exact_f64 last_price - ps_avg_px_open p)
    * quantity_as_f64 exact_f64 (ps_multiplier p)\<bar> \<le> half_unit p"
proof -
  define s where "s = ps_signed_qty p"
  have s: "s = of_int (net_raw (ps_events p)) / 10 ^ 9" using assms(1) by (simp add: pos_ok_def s_def)
  have q: "quantity_as_f64 exact_f64 (ps_quantity p) = \<bar>s\<bar>" unfolding quantity_exact assms(2) s by (simp add: abs_divide)
  let ?v = "s * (price_as_f64 exact_f64 last_price - ps_avg_px_open p) * quantity_as_f64 exact_f64 (ps_multiplier p)"
  have "money_new exact_f64 ?v (ps_settlement_currency p) = Some m"
  proof (cases "ps_side p = Flat")
    case True
    then have "s = 0" using assms(1) by (auto simp: pos_ok_def s split: if_splits)
    then show ?thesis using assms(4) True by (simp add: unrealized_pnl_def)
  next
    case False
    have "or_zero exact_f64 (calculate_pnl_raw exact_f64 p (ps_avg_px_open p) (price_as_f64 exact_f64 last_price) \<bar>s\<bar>) = ?v"
      unfolding pnl_raw_exact [OF assms(1,3)] by (simp add: s_def [symmetric] algebra_simps)
    then show ?thesis using assms(4) False by (simp add: unrealized_pnl_def q)
  qed
  from money_new_half(2) [OF this] show ?thesis by (simp add: s_def half_unit_def)
qed

text \<open>The value of the open quantity at a price, rounded once; and that the order which the position asks for closes it.\<close>

lemma notional_half:
  assumes "notional_value exact_f64 p last_price = Some m" and "\<not> ps_is_inverse p"
  shows "m_currency m = ps_quote_currency p"
    and "\<bar>money_as_f64 exact_f64 m - quantity_as_f64 exact_f64 (ps_quantity p) * price_as_f64 exact_f64 last_price
        * quantity_as_f64 exact_f64 (ps_multiplier p)\<bar> \<le> 1 / (2 * 10 ^ c_precision (ps_quote_currency p))"
  using assms money_new_half by (simp_all add: notional_value_def Let_def)

lemma unrealized_calculate:
  "ps_side p \<noteq> Flat \<Longrightarrow> unrealized_pnl F p last_price = calculate_pnl F p (ps_avg_px_open p) (price_as_f64 F last_price) (ps_quantity p)"
  by (simp add: unrealized_pnl_def calculate_pnl_def)

lemma closing_order_closes:
  assumes reach: "position_reach exact_f64 E i (plain_fill i) p" and "position_is_open p" and fill: "plain_fill i fill"
    and side: "of_order_side fill = closing_order_side p" and qty: "q_raw (of_last_qty fill) = q_raw (ps_quantity p)"
    and ap: "position_apply exact_f64 E fill p = Some p'"
  shows "position_is_closed p' \<and> quantity_is_zero (ps_quantity p')"
proof -
  have reach': "position_reach exact_f64 E i (plain_fill i) p'" by (rule reach_fill [OF reach fill ap])
  have "ps_side p \<noteq> Flat" using assms(2) by (simp add: position_is_open_def)
  then have "ps_events p' = ps_events p @ [fill]" using apply_facts(2) [OF ap] by simp
  moreover have "fill_raw fill = - net_raw (ps_events p)"
    using reach_inv [OF reach] side qty \<open>ps_side p \<noteq> Flat\<close>
    by (auto simp: position_inv_def pos_ok_def fill_raw_def closing_order_side_def split: if_splits)
  ultimately have "net_raw (ps_events p') = 0" by simp
  then show ?thesis using reach_inv [OF reach'] reach_closed [OF reach']
    by (simp add: position_inv_def pos_ok_def position_is_closed_def quantity_is_zero_def)
qed



text \<open>
  C7: Profit and loss is conserved.  For an instrument that is not inverse, the realized profit is, up to half a unit
  of the settlement currency for each fill, the money that the fills brought in plus the value of the open quantity at
  its average opening price, less the commissions; and the total profit at any price is, up to one rounding more,
  the money brought in plus the open quantity at that price, less the commissions.
\<close>

theorem position_pnl_conserved:
  assumes "position_reach exact_f64 E i (plain_fill i) p" and "\<not> in_is_inverse i" and "total_pnl exact_f64 p last_price = Some m"
  shows "let n = rat_of_nat (length (ps_events p)); k = quantity_as_f64 exact_f64 (ps_multiplier p);
      fee = fees (ps_settlement_currency p) (ps_events p)
    in \<bar>realized p - ((cash (ps_events p) + ps_signed_qty p * ps_avg_px_open p) * k - fee)\<bar> \<le> n * half_unit p \<and>
       \<bar>money_as_f64 exact_f64 m - ((cash (ps_events p) + ps_signed_qty p * price_as_f64 exact_f64 last_price) * k - fee)\<bar>
         \<le> (n + 1) * half_unit p"
proof -
  note inv = reach_inv [OF assms(1)]
  have lin: "\<not> ps_is_inverse p" using inv assms(2) by (simp add: position_of_def)
  have ok: "pos_ok (ps_events p) p" "q_raw (ps_quantity p) = nat \<bar>net_raw (ps_events p)\<bar>"
    and r: "\<bar>realized p - exact_pnl p\<bar> \<le> of_nat (length (ps_events p)) * half_unit p"
    using inv lin by (simp_all add: position_inv_def)
  obtain u where u: "unrealized_pnl exact_f64 p last_price = Some u" "money_as_f64 exact_f64 m = realized p + money_as_f64 exact_f64 u"
    using assms(3) by (auto simp: total_pnl_def realized_def dest: money_add_value split: bind_splits option.splits)
  have eq: "(cash (ps_events p) + ps_signed_qty p * price_as_f64 exact_f64 last_price) * quantity_as_f64 exact_f64 (ps_multiplier p)
      - fees (ps_settlement_currency p) (ps_events p)
    = exact_pnl p + ps_signed_qty p * (price_as_f64 exact_f64 last_price - ps_avg_px_open p) * quantity_as_f64 exact_f64 (ps_multiplier p)"
    by (simp add: exact_pnl_def algebra_simps)
  have n: "(rat_of_nat (length (ps_events p)) + 1) * half_unit p = of_nat (length (ps_events p)) * half_unit p + half_unit p"
    by (simp add: algebra_simps)
  show ?thesis
    unfolding Let_def eq u(2) n using r unrealized_half [OF ok lin u(1)] unfolding exact_pnl_def [symmetric]
    by (intro conjI; linarith)
qed

theorem position_pnl_conserved_witness:
  "\<exists>m. total_pnl exact_f64 ex_short \<lparr> p_raw = 90000000000, p_prec = 0 \<rparr> = Some m \<and>
     \<bar>money_as_f64 exact_f64 m - 300\<bar> \<le> 3 / 200"
proof -
  let ?m = "\<lparr> m_raw = 300000000000, m_currency = ex_eur \<rparr>"
  have m: "total_pnl exact_f64 ex_short \<lparr> p_raw = 90000000000, p_prec = 0 \<rparr> = Some ?m"
    by (simp add: total_pnl_def unrealized_pnl_def position_eval ex_short_def ex_long_def position_start_def ex_fill_def
        ex_instrument_def ex_eur_def money_add_def i64_checked_add_def in_i64_def currency_eq_def)
  have "\<not> in_is_inverse ex_instrument" by (simp add: ex_instrument_def)
  from position_pnl_conserved [OF ex_reach(1) this m] m show ?thesis
    by (simp add: Let_def ex_short_def ex_long_def position_start_def half_unit_def ex_instrument_def ex_eur_def cash_def fees_def
        fill_cash_def fill_raw_def fill_fee_def ex_fill_def price_as_f64_def quantity_exact FIXED_SCALAR_def)
qed

text \<open>
  C34: The average closing price counts the fills that opened the position.  When a position that has been closed in part
  is bought back, the new average weighs the old one by everything ever bought, also before the position reversed to
  short, so after a reversal it is not the average price of the closing fills.
\<close>

theorem position_close_price_weight:
  assumes "position_reach exact_f64 E i (plain_fill i) p" and "ps_side p = Short" and "ps_avg_px_close p = Some c"
    and "handle_buy_order_fill exact_f64 fill p = Some p'" and "0 < q_raw (of_last_qty fill)"
  shows "let bought = of_nat (side_raw Buy (ps_events p)) / 10 ^ 9; q = quantity_as_f64 exact_f64 (of_last_qty fill)
    in bought = 0 \<or> ps_avg_px_close p' = Some ((c * bought + price_as_f64 exact_f64 (of_last_px fill) * q) / (bought + q))"
proof -
  note inv = reach_inv [OF assms(1), unfolded position_inv_def pos_ok_def]
  have neg: "ps_signed_qty p < 0" using inv assms(2) by (auto split: if_splits)
  define B where "B = (of_nat (side_raw Buy (ps_events p)) / 10 ^ 9 :: rat)"
  define q where "q = quantity_as_f64 exact_f64 (of_last_qty fill)"
  have q: "0 < q" using assms(5) by (simp add: q_def quantity_exact)
  have B: "quantity_as_f64 exact_f64 (ps_buy_qty p) = B" "0 \<le> B" using inv by (simp_all add: quantity_exact B_def)
  have "ps_avg_px_close p' = Some (calculate_avg_px_close_px exact_f64 p (price_as_f64 exact_f64 (of_last_px fill)) q)"
    using assms(4) neg by (auto simp: handle_buy_order_fill_def close_part_def add_realized_def q_def Let_def split: bind_splits if_splits)
  also have "B \<noteq> 0 \<Longrightarrow> calculate_avg_px_close_px exact_f64 p (price_as_f64 exact_f64 (of_last_px fill)) q
      = (c * B + price_as_f64 exact_f64 (of_last_px fill) * q) / (B + q)"
    using assms(2,3) q B by (simp add: calculate_avg_px_close_px_def calculate_avg_px_def Let_def)
  finally show ?thesis unfolding Let_def B_def [symmetric] q_def [symmetric] by blast
qed

theorem position_close_price_weight_witness:
  "\<exists>p'. handle_buy_order_fill exact_f64 (ex_fill ''3'' Buy 5 90) ex_short = Some p' \<and> ps_avg_px_close p' = Some (310 / 3)"
proof -
  obtain p' where p': "handle_buy_order_fill exact_f64 (ex_fill ''3'' Buy 5 90) ex_short = Some p'"
    by (simp add: position_eval ex_short_def ex_long_def position_start_def ex_fill_def ex_instrument_def ex_eur_def)
  from position_close_price_weight [OF ex_reach(1) _ _ p', of 110] p' show ?thesis
    by (simp add: ex_short_def side_raw_def ex_fill_def quantity_exact price_as_f64_def FIXED_SCALAR_def)
qed



end
