(* ===== verification/Spec2Isabelle.thy ===== *)
theory Spec2Isabelle
  imports Book_Analysis Order_Lifecycle Matching_Claims Message_Bus Rate_Limiter Component_State Fifo_Cache
    Clock_Claims Throttler_Claims Value_Closure Position_Claims
begin

text \<open>
  A verification library for the trading platform in this repository.

  \<^bold>\<open>The program.\<close>  The platform is a set of Rust crates under \<open>src/crates\<close>.  The \<open>model\<close> crate holds the domain:
  fixed-point prices, quantities and money, the events of an order, nine order types over one core with a state
  machine, positions with their profit and loss, and the order book built from ladders of price levels.  The \<open>execution\<close> crate matches resting orders
  against prices.  The \<open>common\<close> crate carries messages between components, gives them a life cycle, drives time through
  timers and clocks, and throttles messages; the \<open>network\<close> crate limits the rate of requests to venues.  Market data
  changes a book, prices of the book make the matching core fire orders, and what happens to an order comes back as
  events that are applied to it and, for fills, to its position; all of this travels over the message bus and is paced by clocks.

  \<^bold>\<open>The build that is modelled.\<close>  Default features (so the fixed precision is 9, a raw quantity is an unsigned and a raw
  price or money a signed 64-bit integer) in the release profile: plain operators on machine integers wrap around,
  debug assertions are off, and a panic aborts.  Raw values are \<open>nat\<close> and \<open>int\<close> with the checks, saturation or
  wrap-around of each operation written out (\<open>Prelude\<close>: \<open>u64_checked_add\<close>, \<open>u64_wrapping_add\<close>, \<open>i64_wrap\<close>, ...).

  \<^bold>\<open>Conventions.\<close>  A Rust struct is a record, an enum a datatype, a function the definition of the same name with a prefix
  for its type where names clash.  A panic is \<open>None\<close>; a \<open>Result\<close> is a sum with the error on the left; an operation that
  changes state and can fail yields the error, if any, and the state it leaves behind.  Loops are structural recursion,
  \<open>function\<close> with a measure (the throttler's process loop), or \<open>partial_function (option)\<close> where the code has no
  evident measure (the wildcard matcher and \<open>until_key_ready\<close>), and then a theorem says that they return.  There is no
  fuel in the development.  \<open>BTreeMap\<close> is an association list ordered by a comparator (\<open>Rust_Collections\<close>), \<open>IndexMap\<close> an
  association list in insertion order, \<open>VecDeque\<close> and \<open>Vec\<close> are lists, hash maps are maps.

  \<^bold>\<open>Parameters.\<close>  Code that is not in the sources is an argument.  \<open>f64_ops\<close> is floating point (\<open>exact_f64\<close> computes
  with rationals); \<open>decimal_api\<close> is the decimal crate with the law \<open>decimal_api_ok\<close>, \<open>decimal_f64\<close> adds its conversion to
  floats; \<open>data_env\<close> and \<open>book_env\<close> are
  the methods of the market data module; \<open>ustr_order\<close> is the order of interned strings with \<open>ustr_order_ok\<close>; \<open>hash_order\<close>
  is the traversal order of a hash set with \<open>hash_order_ok\<close>; the time a sleep runs over is the argument \<open>late\<close> of
  \<open>until_key_ready\<close>.  Theorems that rest on such a law have a witness with a concrete instance.

  \<^bold>\<open>Values\<close> (\<open>model/src/types\<close>).  \<open>Fixed_Point\<close> is \<open>fixed.rs\<close>; \<open>Value_Types\<close> is \<open>quantity.rs\<close> and \<open>price.rs\<close>; \<open>Money_Balance\<close> is
  \<open>money.rs\<close>, \<open>currency.rs\<close> and \<open>balance.rs\<close>; \<open>Float_Values\<close> makes quantities and money from floats, with an error of at
  most half a unit in exact arithmetic.  Shown: rounding to a precision gives a nearest multiple of the unit, ties
  to even where the code says so; conversion from a mantissa and exponent is correctly rounded; a price survives
  the trip through a decimal; checked arithmetic is exact; every value the checked interface makes is well-formed
  (\<open>Value_Closure\<close>); the parts of an account balance add up.

  \<^bold>\<open>Orders\<close> (\<open>model/src/orders\<close>, \<open>model/src/events/order\<close>).  \<open>Enums\<close> and \<open>Order_Events\<close> hold the enumerations and
  events, \<open>Orders\<close> the transition table and the handlers of \<open>OrderCore::apply\<close>, \<open>Order_Types\<close> the constructors, the update
  and the apply of each order type, \<open>OrderAny\<close> and its replay from events.  \<open>Order_Lifecycle\<close> shows, for every order built
  from events: filled and remaining quantity account for the whole quantity, the average price is the weighted
  mean of the fills, a closed order stays closed, applying an event never panics under stated conditions, and
  replaying the events of an order gives the order back.

  \<^bold>\<open>Positions\<close> (\<open>model/src/position.rs\<close>, \<open>model/src/events/position/adjusted.rs\<close>).  \<open>Position\<close> holds the position with what it
  reads of an instrument, the fills, the adjustments, the purging of an order and the calculations; \<open>apply\<close> is cut into
  its steps (\<open>reopen\<close>, \<open>add_commission\<close>, the two handlers, \<open>base_commission\<close>, \<open>settle\<close>).  \<open>Position_Replay\<close> shows that an
  open position is what its fills make of any flat position with the same terms, for any floating point.
  \<open>Position_Accounting\<close> and \<open>Position_Claims\<close> work in exact arithmetic, for fills that are multiples of the size unit and
  carry no commission in the base currency: quantities and side follow the fills, and profit and loss is
  conserved up to half a unit of money per fill.  The rounding of floats themselves is outside these theorems.

  \<^bold>\<open>Order book\<close> (\<open>model/src/orderbook\<close>).  \<open>Book_Level\<close>, \<open>Book_Ladder\<close> and \<open>Order_Book\<close> are \<open>level.rs\<close>, \<open>ladder.rs\<close> and
  \<open>book.rs\<close>.  \<open>Ladder_Queue\<close> and \<open>Ladder_L1\<close> read a ladder as one queue of orders; \<open>Book_Invariant\<close> and \<open>Book_Reach\<close> show
  that every reachable book keeps levels sorted, non-empty and in step with the cache.  \<open>Book_Claims\<close> shows that
  a book implements a map from ids to orders for each side, keeps price-time priority, does not panic, answers errors
  without a change, survives its snapshot (\<open>Book_Snapshot\<close>), and simulates fills by walking the queue; \<open>Book_Analysis\<close>
  treats the estimates of \<open>analysis.rs\<close> and the integrity check.

  \<^bold>\<open>Matching\<close> (\<open>execution/src/matching_core\<close>).  \<open>Matching_Core\<close> holds the operations, \<open>Matching_Queues\<close> the
  specification by queues with the invariant of the index and the tree maps, \<open>Matching_Claims\<close> the refinement and
  that orders are matched in price-time priority.

  \<^bold>\<open>Message bus\<close> (\<open>common/src/msgbus\<close>).  \<open>Topic_Matching\<close> is the two-pointer wildcard matcher, proved to end and to agree
  with a recursive definition of wildcards.  \<open>Pub_Sub\<close> holds subscriptions, a list specification and the interface
  \<open>pub_sub\<close> that both dispatchers provide; \<open>Topic_Router\<close> (\<open>typed_router.rs\<close>) and \<open>Message_Bus\<close> (\<open>core.rs\<close>, \<open>api.rs\<close>) interpret
  it, so both deliver every message to the matching subscriptions by priority, whatever their caches hold.

  \<^bold>\<open>Time\<close> (\<open>common/src/timer.rs\<close>, \<open>clock.rs\<close>, \<open>throttler.rs\<close>).  \<open>Test_Clock\<close> is the test timer, the registry of
  callbacks and the test clock; \<open>Clock_Timers\<close> and \<open>Clock_Invariant\<close> its lemmas; \<open>Clock_Claims\<close> shows that events do
  not depend on the steps in which time advances and that an alert fires once, at its time.  \<open>Throttler\<close> runs on that clock
  and its callbacks; \<open>Throttler_Send\<close> and \<open>Throttler_Invariant\<close> show the invariant of send times, messages and
  timer, and \<open>Throttler_Claims\<close> the rate, that no message is lost or overtakes another, and that the buffer drains.

  \<^bold>\<open>Other parts.\<close>  \<open>Rate_Limiter\<close> (\<open>network/src/ratelimiter\<close>): quotas, the cell rate algorithm, the compare-and-exchange
  loop as a step relation over any number of threads, and waiting for a key; the bound holds for every
  interleaving.  \<open>Component_State\<close> (\<open>common/src/component.rs\<close>): the life cycle with hooks that may fail.  \<open>Fifo_Cache\<close>
  (\<open>common/src/cache/fifo.rs\<close>): the bounded caches.

  \<^bold>\<open>What modelling showed.\<close>  The commission of a fill is never recorded; an order id added twice leaves an order in
  the book that cannot be removed; a resting if-touched order fires while its price is untouched; an idle
  key of the rate limiter lets one cell more than the burst through; a throttler with a limit of zero does not limit;
  the average closing price of a position that reversed counts the fills that opened it; the duration of a position
  closed by a fill from before its opening wraps around; and four comments, on the book, the bus, the purge of a
  position and the rounding of floats, say something else than the code.

  \<^bold>\<open>Not modelled.\<close>  Logging, display and serialization code, the Python bindings and all input and output.  Constructors
  from strings, and of prices from floats.  Queries that only count or name what a component holds.  The own order
  book.  The instrument types, accounts and the portfolio, whose arithmetic is mostly decimal or floating point.  The matching engine, the risk and execution engines, the order emulator and the general
  cache, which orchestrate these parts over data types that are not in the sources.  The live clock and the
  asynchronous runtime.  Random ids of events are left out, and so are
  the ids of adjustments.  The throttler is considered with a clock of its own; other
  users of the same clock have other timer names.
\<close>

end
